(* ===== verification/JS_Prelude.thy ===== *)
theory JS_Prelude
  imports Main "HOL-Library.Sublist" "HOL-Library.Multiset" "HOL-Library.Code_Target_Nat"
begin

text \<open>
  The shared ground of the development: the part of the JavaScript string, array and object
  library the modelled sources use, and the facts about it that the components share.

  A JavaScript string is a finite sequence of UTF-16 code units, so \<open>jstr\<close> is a list of
  natural numbers and \<open>js ''abc''\<close> is the literal \<^verbatim>\<open>'abc'\<close>.  Every operation below
  (\<^verbatim>\<open>trim\<close>, \<^verbatim>\<open>split\<close>, \<^verbatim>\<open>join\<close>, \<^verbatim>\<open>indexOf\<close>, \<^verbatim>\<open>includes\<close>, \<^verbatim>\<open>slice\<close>, the
  insertion-ordered \<^verbatim>\<open>Set\<close>, own-property objects) is executable.
\<close>

section \<open>Collections of rewrite rules\<close>

named_theorems js_str \<open>facts on trim, split, join and search\<close>
named_theorems js_num \<open>facts on decimal digits\<close>
named_theorems js_obj \<open>facts on property lists\<close>

section \<open>Strings\<close>

type_synonym jstr = "nat list"

definition js :: "string \<Rightarrow> jstr" where
  "js s = map of_char s"

lemma js_Nil [simp]: "js [] = []"
  by (simp add: js_def)

lemma js_Cons [simp]: "js (c # cs) = of_char c # js cs"
  by (simp add: js_def)

text \<open>White space and line terminators of the language: what \<^verbatim>\<open>trim\<close> strips and what
  \<^verbatim>\<open>\s\<close> matches.\<close>

definition is_ws :: "nat \<Rightarrow> bool" where
  "is_ws c \<longleftrightarrow> (9 \<le> c \<and> c \<le> 13) \<or> c = 32 \<or> c = 160 \<or> c = 5760 \<or> (8192 \<le> c \<and> c \<le> 8202)
     \<or> c = 8232 \<or> c = 8233 \<or> c = 8239 \<or> c = 8287 \<or> c = 12288 \<or> c = 65279"

definition is_digit :: "nat \<Rightarrow> bool" where
  "is_digit c \<longleftrightarrow> 48 \<le> c \<and> c \<le> 57"

lemma is_digit_not_ws [simp]: "is_digit c \<Longrightarrow> \<not> is_ws c"
  by (auto simp: is_digit_def is_ws_def)

definition js_trim :: "jstr \<Rightarrow> jstr" where
  "js_trim s = rev (dropWhile is_ws (rev (dropWhile is_ws s)))"

definition trimmed :: "jstr \<Rightarrow> bool" where
  "trimmed s \<longleftrightarrow> s = [] \<or> (\<not> is_ws (hd s) \<and> \<not> is_ws (last s))"

lemma js_trim_Nil [simp]: "js_trim [] = []"
  by (simp add: js_trim_def)

lemma dropWhile_keep: "xs = [] \<or> \<not> P (hd xs) \<Longrightarrow> dropWhile P xs = xs"
  by (cases xs) auto

lemma js_trim_id: "trimmed s \<Longrightarrow> js_trim s = s"
  by (auto simp: js_trim_def trimmed_def dropWhile_keep hd_rev)

lemma dropWhile_hd: "dropWhile P xs \<noteq> [] \<Longrightarrow> \<not> P (hd (dropWhile P xs))"
  by (induction xs) auto

lemma last_dropWhile: "dropWhile P xs \<noteq> [] \<Longrightarrow> last (dropWhile P xs) = last xs"
  by (induction xs) auto

lemma trimmed_js_trim [simp]: "trimmed (js_trim s)"
proof (cases "js_trim s = []")
  case False
  let ?d = "dropWhile is_ws s"
  have r: "dropWhile is_ws (rev ?d) \<noteq> []" using False by (simp add: js_trim_def)
  then have "?d \<noteq> []" by (metis dropWhile.simps(1) rev.simps(1))
  have "hd (js_trim s) = hd ?d"
    using last_dropWhile [OF r] \<open>?d \<noteq> []\<close> r by (simp add: js_trim_def hd_rev last_rev)
  moreover have "last (js_trim s) = hd (dropWhile is_ws (rev ?d))"
    using r by (simp add: js_trim_def last_rev)
  ultimately show ?thesis
    using dropWhile_hd [OF r] dropWhile_hd [OF \<open>?d \<noteq> []\<close>] by (simp add: trimmed_def)
qed (simp add: trimmed_def)

lemma js_trim_idem [simp]: "js_trim (js_trim s) = js_trim s"
  by (simp add: js_trim_id)

lemma set_js_trim: "set (js_trim s) \<subseteq> set s"
  by (auto simp: js_trim_def dest!: set_dropWhileD)

lemma js_trim_eq_Nil: "js_trim s = [] \<longleftrightarrow> (\<forall>c \<in> set s. is_ws c)"
proof
  assume "js_trim s = []"
  then have "\<forall>c \<in> set (dropWhile is_ws s). is_ws c"
    by (simp only: js_trim_def rev_is_Nil_conv dropWhile_eq_Nil_conv set_rev)
  then have "dropWhile is_ws s = []"
    using dropWhile_hd [of is_ws s] by (metis list.set_sel(1))
  then show "\<forall>c \<in> set s. is_ws c" by (simp only: dropWhile_eq_Nil_conv)
next
  assume "\<forall>c \<in> set s. is_ws c"
  then have "dropWhile is_ws s = []" by (simp only: dropWhile_eq_Nil_conv)
  then show "js_trim s = []" by (simp only: js_trim_def rev.simps dropWhile.simps)
qed

text \<open>Splitting at a one-character separator, and joining.\<close>

fun js_split :: "nat \<Rightarrow> jstr \<Rightarrow> jstr list" where
  "js_split c [] = [[]]"
| "js_split c (x # xs) =
     (if x = c then [] # js_split c xs
      else (case js_split c xs of [] \<Rightarrow> [[x]] | y # ys \<Rightarrow> (x # y) # ys))"

fun js_join :: "jstr \<Rightarrow> jstr list \<Rightarrow> jstr" where
  "js_join sep [] = []"
| "js_join sep [x] = x"
| "js_join sep (x # y # ys) = x @ sep @ js_join sep (y # ys)"

lemma js_join_Cons: "ys \<noteq> [] \<Longrightarrow> js_join sep (x # ys) = x @ sep @ js_join sep ys"
  by (cases ys) auto

lemma js_join_mem: "c \<in> set (js_join sep xs) \<Longrightarrow> c \<in> set sep \<or> (\<exists>x \<in> set xs. c \<in> set x)"
  by (induction sep xs rule: js_join.induct) auto

lemma js_split_nonempty [simp]: "js_split c s \<noteq> []"
  by (induction s) (auto split: list.splits)

lemma js_split_free: "p \<in> set (js_split c s) \<Longrightarrow> c \<notin> set p"
  by (induction s arbitrary: p) (auto split: list.splits if_splits)

lemma js_split_chars: "p \<in> set (js_split c s) \<Longrightarrow> set p \<subseteq> set s"
proof (induction s arbitrary: p)
  case (Cons x xs)
  show ?case
  proof (cases "js_split c xs")
    case (Cons y ys)
    then show ?thesis using Cons.prems Cons.IH [of p] Cons.IH [of y]
      by (auto split: if_splits)
  qed simp
qed simp

lemma js_split_notin [js_str]: "c \<notin> set s \<Longrightarrow> js_split c s = [s]"
  by (induction s) auto

lemma js_split_append [js_str]:
  "c \<notin> set a \<Longrightarrow> js_split c (a @ c # b) = a # js_split c b"
  by (induction a) auto

lemma js_join_split [js_str]: "js_join [c] (js_split c s) = s"
proof (induction s)
  case (Cons x xs)
  obtain y ys where ys: "js_split c xs = y # ys"
    by (cases "js_split c xs") auto
  with Cons show ?case by (cases ys) (auto simp: js_join_Cons)
qed simp

lemma js_split_join [js_str]:
  "xs \<noteq> [] \<Longrightarrow> \<forall>x \<in> set xs. c \<notin> set x \<Longrightarrow> js_split c (js_join [c] xs) = xs"
proof (induction xs)
  case (Cons x ys)
  then show ?case
    by (cases ys) (simp_all add: js_str)
qed simp

text \<open>Searching for a substring: the first index from which the pattern is a prefix.\<close>

fun find_sub :: "jstr \<Rightarrow> jstr \<Rightarrow> nat option" where
  "find_sub pat [] = (if pat = [] then Some 0 else None)"
| "find_sub pat (x # xs) =
     (if prefix pat (x # xs) then Some 0 else map_option Suc (find_sub pat xs))"

definition js_includes :: "jstr \<Rightarrow> jstr \<Rightarrow> bool" where
  "js_includes s pat \<longleftrightarrow> find_sub pat s \<noteq> None"

definition js_index_of :: "jstr \<Rightarrow> jstr \<Rightarrow> nat \<Rightarrow> nat option" where
  "js_index_of s pat from = map_option ((+) from) (find_sub pat (drop from s))"

lemma find_sub_Some:
  "find_sub pat s = Some i \<Longrightarrow> prefix pat (drop i s) \<and> i + length pat \<le> length s"
proof (induction s arbitrary: i)
  case (Cons x xs)
  show ?case
  proof (cases "prefix pat (x # xs)")
    case True
    with Cons.prems show ?thesis by (auto dest: prefix_length_le)
  next
    case False
    with Cons show ?thesis by auto
  qed
qed (auto split: if_splits)

lemma find_sub_first: "find_sub pat s = Some i \<Longrightarrow> j < i \<Longrightarrow> \<not> prefix pat (drop j s)"
proof (induction s arbitrary: i j)
  case (Cons x xs)
  then show ?case by (cases j) (auto split: if_splits)
qed (auto split: if_splits)

lemma find_sub_None: "find_sub pat s = None \<longleftrightarrow> (\<forall>j \<le> length s. \<not> prefix pat (drop j s))"
proof (induction s)
  case (Cons x xs)
  show ?case
  proof
    assume n: "find_sub pat (x # xs) = None"
    show "\<forall>j \<le> length (x # xs). \<not> prefix pat (drop j (x # xs))"
    proof (intro allI impI)
      fix j assume "j \<le> length (x # xs)"
      with n Cons.IH show "\<not> prefix pat (drop j (x # xs))"
        by (cases j) (auto split: if_splits)
    qed
  next
    assume a: "\<forall>j \<le> length (x # xs). \<not> prefix pat (drop j (x # xs))"
    then have "\<not> prefix pat (x # xs)" by (metis drop0 le0)
    moreover have "\<forall>j \<le> length xs. \<not> prefix pat (drop j xs)"
      using a by (metis Suc_le_mono drop_Suc_Cons length_Cons)
    ultimately show "find_sub pat (x # xs) = None" using Cons.IH by simp
  qed
qed auto

lemma js_includes_iff: "js_includes s pat \<longleftrightarrow> sublist pat s"
proof
  assume "js_includes s pat"
  then obtain i where "find_sub pat s = Some i" by (auto simp: js_includes_def)
  then have "prefix pat (drop i s)" by (simp add: find_sub_Some)
  then show "sublist pat s"
    by (metis append_take_drop_id prefixE sublist_appendI)
next
  assume "sublist pat s"
  then obtain a b where s: "s = a @ pat @ b" by (auto simp: sublist_def)
  have "prefix pat (drop (length a) s)" and "length a \<le> length s" using s by auto
  then show "js_includes s pat" using find_sub_None [of pat s] by (auto simp: js_includes_def)
qed

lemma find_sub_absent: "\<not> sublist pat s \<Longrightarrow> find_sub pat s = None"
  using js_includes_iff [of s pat] by (simp add: js_includes_def)

text \<open>A pattern whose first character does not occur again in it is found where it was put.\<close>

lemma not_prefix_overlap:
  assumes "hd p \<notin> set (tl p)" and "p \<noteq> []" and "v \<noteq> []" and "\<not> prefix p v"
  shows "\<not> prefix p (v @ p @ rest)"
proof
  assume pre: "prefix p (v @ p @ rest)"
  have "length v < length p"
  proof (rule ccontr)
    assume "\<not> length v < length p"
    with pre have "prefix p v" by (metis linorder_not_less prefixI prefix_length_prefix)
    with assms(4) show False by simp
  qed
  moreover from pre obtain t where t: "v @ p @ rest = p @ t" by (auto elim: prefixE)
  ultimately have "p ! length v = hd p"
    using assms(2) by (metis hd_append2 hd_conv_nth nth_append nth_append_length_plus add.right_neutral
        append.assoc length_greater_0_conv)
  moreover have "p ! length v \<in> set (tl p)"
    using \<open>length v < length p\<close> assms(2,3) by (cases p; cases v) auto
  ultimately show False using assms(1) by simp
qed

lemma find_sub_here:
  assumes "p \<noteq> []" and "hd p \<notin> set (tl p)" and "\<not> sublist p v"
  shows "find_sub p (v @ p @ rest) = Some (length v)"
  using assms(3)
proof (induction v)
  case Nil
  then show ?case using assms(1) by (cases p) auto
next
  case (Cons x xs)
  then have "\<not> prefix p (x # xs)" by (meson prefix_imp_sublist)
  then have "\<not> prefix p ((x # xs) @ p @ rest)"
    using not_prefix_overlap [OF assms(2,1)] by blast
  moreover have "\<not> sublist p xs" using Cons.prems by (auto simp: sublist_Cons_right)
  ultimately show ?case using Cons.IH by simp
qed

section \<open>Decimal digits\<close>

fun dec :: "nat \<Rightarrow> jstr" where
  "dec n = (if n < 10 then [48 + n] else dec (n div 10) @ [48 + n mod 10])"

declare dec.simps [simp del]

definition digits_val :: "jstr \<Rightarrow> nat" where
  "digits_val s = foldl (\<lambda>n d. 10 * n + (d - 48)) 0 s"

lemma digits_val_snoc [js_num]: "digits_val (s @ [d]) = 10 * digits_val s + (d - 48)"
  by (simp add: digits_val_def)

lemma dec_digits [js_num]: "\<forall>d \<in> set (dec n). is_digit d"
proof (induction n rule: dec.induct)
  case (1 n)
  then show ?case by (subst dec.simps) (auto simp: is_digit_def)
qed

lemma dec_nonempty [simp]: "dec n \<noteq> []"
  by (subst dec.simps) simp

lemma digits_val_dec [js_num]: "digits_val (dec n) = n"
proof (induction n rule: dec.induct)
  case (1 n)
  show ?case
  proof (cases "n < 10")
    case True
    then show ?thesis by (subst dec.simps) (simp add: digits_val_def)
  next
    case False
    with 1 have "digits_val (dec (n div 10)) = n div 10" by simp
    with False show ?thesis by (subst dec.simps) (simp add: digits_val_snoc)
  qed
qed

section \<open>Insertion-ordered sets\<close>

text \<open>\<^verbatim>\<open>Array.from(new Set(xs))\<close> and \<^verbatim>\<open>[...new Set(xs)]\<close>: each element at its first
  occurrence.\<close>

definition js_uniq :: "'a list \<Rightarrow> 'a list" where
  "js_uniq xs = rev (remdups (rev xs))"

lemma set_js_uniq [simp]: "set (js_uniq xs) = set xs"
  by (simp add: js_uniq_def)

lemma distinct_js_uniq [simp]: "distinct (js_uniq xs)"
  by (simp add: js_uniq_def)

lemma js_uniq_distinct: "distinct xs \<Longrightarrow> js_uniq xs = xs"
  by (simp add: js_uniq_def distinct_remdups_id)

lemma js_uniq_snoc: "js_uniq (xs @ [x]) = (if x \<in> set xs then js_uniq xs else js_uniq xs @ [x])"
  by (simp add: js_uniq_def)

lemma length_js_uniq_le: "length (js_uniq xs) \<le> length xs"
  using length_remdups_leq [of "rev xs"] by (simp add: js_uniq_def)

section \<open>Sorting with a comparator\<close>

text \<open>
  \<^verbatim>\<open>Array.prototype.sort\<close> with a comparator is a stable sort.  For a comparator that is a
  total preorder the result is determined, and a stable insertion sort computes it.
\<close>

fun insert_by :: "('a \<Rightarrow> 'a \<Rightarrow> int) \<Rightarrow> 'a \<Rightarrow> 'a list \<Rightarrow> 'a list" where
  "insert_by cmp x [] = [x]"
| "insert_by cmp x (y # ys) = (if cmp x y \<le> 0 then x # y # ys else y # insert_by cmp x ys)"

definition js_sort :: "('a \<Rightarrow> 'a \<Rightarrow> int) \<Rightarrow> 'a list \<Rightarrow> 'a list" where
  "js_sort cmp xs = foldr (insert_by cmp) xs []"

lemma mset_insert_by: "mset (insert_by cmp x ys) = add_mset x (mset ys)"
  by (induction ys) auto

lemma mset_js_sort [simp]: "mset (js_sort cmp xs) = mset xs"
  unfolding js_sort_def by (induction xs) (auto simp: mset_insert_by)

lemma set_js_sort [simp]: "set (js_sort cmp xs) = set xs"
  by (metis mset_js_sort set_mset_mset)

lemma length_js_sort [simp]: "length (js_sort cmp xs) = length xs"
  by (metis mset_js_sort size_mset)

lemma js_sort_id: "sorted_wrt (\<lambda>a b. cmp a b \<le> 0) xs \<Longrightarrow> js_sort cmp xs = xs"
proof (induction xs)
  case (Cons x xs)
  then have "js_sort cmp xs = xs" by simp
  with Cons.prems show ?case by (cases xs) (auto simp: js_sort_def)
qed (simp add: js_sort_def)

text \<open>What a client of \<^verbatim>\<open>sort\<close> relies on: a comparator that orders any two elements
  consistently.\<close>

locale js_comparator =
  fixes cmp :: "'a \<Rightarrow> 'a \<Rightarrow> int"
  assumes cmp_trans: "cmp a b \<le> 0 \<Longrightarrow> cmp b c \<le> 0 \<Longrightarrow> cmp a c \<le> 0"
    and cmp_total: "cmp a b \<le> 0 \<or> cmp b a \<le> 0"
begin

lemma sorted_insert_by:
  "sorted_wrt (\<lambda>a b. cmp a b \<le> 0) ys \<Longrightarrow> sorted_wrt (\<lambda>a b. cmp a b \<le> 0) (insert_by cmp x ys)"
proof (induction ys)
  case (Cons y ys)
  have s: "set (insert_by cmp x ys) = insert x (set ys)"
    by (metis mset_insert_by set_mset_add_mset_insert set_mset_mset)
  show ?case
  proof (cases "cmp x y \<le> 0")
    case True
    with Cons.prems show ?thesis by (auto intro: cmp_trans)
  next
    case False
    then have "cmp y x \<le> 0" using cmp_total by blast
    with False Cons s show ?thesis by auto
  qed
qed simp

lemma sorted_js_sort: "sorted_wrt (\<lambda>a b. cmp a b \<le> 0) (js_sort cmp xs)"
proof (induction xs)
  case (Cons x xs)
  then show ?case by (simp add: js_sort_def sorted_insert_by)
qed (simp add: js_sort_def)

lemma js_sort_idem: "js_sort cmp (js_sort cmp xs) = js_sort cmp xs"
  by (rule js_sort_id) (rule sorted_js_sort)

end

text \<open>The order of strings by code units, which \<^verbatim>\<open>sort()\<close> without a comparator uses.\<close>

fun str_cmp :: "jstr \<Rightarrow> jstr \<Rightarrow> int" where
  "str_cmp [] [] = 0"
| "str_cmp [] (b # bs) = - 1"
| "str_cmp (a # as) [] = 1"
| "str_cmp (a # as) (b # bs) = (if a < b then - 1 else if b < a then 1 else str_cmp as bs)"

lemma str_cmp_Cons_le:
  "str_cmp (a # xs) (b # ys) \<le> 0 \<longleftrightarrow> a < b \<or> a = b \<and> str_cmp xs ys \<le> 0"
  by simp

lemma str_cmp_trans: "str_cmp xs ys \<le> 0 \<Longrightarrow> str_cmp ys zs \<le> 0 \<Longrightarrow> str_cmp xs zs \<le> 0"
proof (induction xs arbitrary: ys zs)
  case Nil
  then show ?case by (cases zs) simp_all
next
  case (Cons x xs)
  obtain y ys' where y: "ys = y # ys'" using Cons.prems(1) by (cases ys) simp_all
  obtain z zs' where z: "zs = z # zs'" using Cons.prems(2) y by (cases zs) simp_all
  have "x < y \<or> x = y \<and> str_cmp xs ys' \<le> 0" "y < z \<or> y = z \<and> str_cmp ys' zs' \<le> 0"
    using Cons.prems y z by (simp_all only: str_cmp_Cons_le)
  then have "x < z \<or> x = z \<and> str_cmp xs zs' \<le> 0" using Cons.IH [of ys' zs'] by auto
  then show ?case using z by (simp only: str_cmp_Cons_le)
qed

lemma str_cmp_total: "str_cmp a b \<le> 0 \<or> str_cmp b a \<le> 0"
  by (induction a b rule: str_cmp.induct) auto

interpretation str_order: js_comparator str_cmp
  by unfold_locales (fact str_cmp_trans, fact str_cmp_total)

section \<open>Values kept as texts\<close>

text \<open>
  The contract of a printer and its reader: a value \<open>ok\<close> accepts is read back from its text.  \<open>result\<close> is what the
  reader answers for a value, since readers differ in how they report that a text has none.
\<close>

locale text_codec =
  fixes shown :: "'a \<Rightarrow> jstr" and reads :: "jstr \<Rightarrow> 'r" and result :: "'a \<Rightarrow> 'r" and ok :: "'a \<Rightarrow> bool"
  assumes read_shown: "ok x \<Longrightarrow> reads (shown x) = result x"
    and result_inject: "result x = result y \<Longrightarrow> x = y"
begin

lemma shown_inject: "ok x \<Longrightarrow> ok y \<Longrightarrow> shown x = shown y \<longleftrightarrow> x = y"
  by (metis read_shown result_inject)

text \<open>Replacing a text by the printed form of its value keeps the value, and doing so again keeps the text.\<close>

lemma normalised: "ok x \<Longrightarrow> reads s = result x \<Longrightarrow> reads (shown x) = reads s"
  by (simp add: read_shown)

lemma read_inject: "ok x \<Longrightarrow> reads s = result x \<Longrightarrow> reads s = result y \<Longrightarrow> shown y = shown x"
  by (metis result_inject)

end

end
