(* ===== verification/Status_Code_Rules.thy ===== *)
theory Status_Code_Rules
  imports JS_Prelude
begin

text \<open>
  The rule language for HTTP status codes, \<^verbatim>\<open>web/default/src/lib/http-status-code-rules.ts\<close>:
  a comma separated list of codes and code ranges is parsed, the ranges are sorted and merged,
  and the result is printed back as the normalised rule text.
\<close>

section \<open>The model\<close>

record StatusCodeRange =
  rstart :: nat
  rend :: nat

record ParsedHttpStatusCodeRules =
  ok :: bool
  ranges :: "StatusCodeRange list"
  tokens :: "jstr list"
  normalized :: jstr
  invalidTokens :: "jstr list"

text \<open>\<^verbatim>\<open>isNumber\<close>: the test \<^verbatim>\<open>/^\d+$/\<close>.\<close>

definition isNumber :: "jstr \<Rightarrow> bool" where
  "isNumber s \<longleftrightarrow> s \<noteq> [] \<and> list_all is_digit s"

definition isValidCode :: "nat \<Rightarrow> bool" where
  "isValidCode code \<longleftrightarrow> 100 \<le> code \<and> code \<le> 599"

text \<open>The destructuring \<^verbatim>\<open>[a, b] = cleaned.split('-')\<close> reads the first two parts and
  ignores the rest.\<close>

definition parseToken :: "jstr \<Rightarrow> StatusCodeRange option" where
  "parseToken token =
     (let cleaned = filter (\<lambda>c. \<not> is_ws c) (js_trim token) in
      if cleaned = [] then None
      else if js_includes cleaned (js ''-'') then
        (case js_split (of_char CHR ''-'') cleaned of
           a # b # _ \<Rightarrow>
             if \<not> isNumber a \<or> \<not> isNumber b then None
             else (let start = digits_val a; end = digits_val b in
                   if \<not> isValidCode start \<or> \<not> isValidCode end \<or> end < start then None
                   else Some \<lparr>rstart = start, rend = end\<rparr>)
         | _ \<Rightarrow> None)
      else if \<not> isNumber cleaned then None
      else (let code = digits_val cleaned in
            if \<not> isValidCode code then None
            else Some \<lparr>rstart = code, rend = code\<rparr>))"

definition range_cmp :: "StatusCodeRange \<Rightarrow> StatusCodeRange \<Rightarrow> int" where
  "range_cmp a b =
     (if rstart a \<noteq> rstart b then int (rstart a) - int (rstart b) else int (rend a) - int (rend b))"

definition merge_step :: "StatusCodeRange list \<Rightarrow> StatusCodeRange \<Rightarrow> StatusCodeRange list" where
  "merge_step merged current =
     (if merged = [] \<or> rend (last merged) + 1 < rstart current then merged @ [current]
      else butlast merged @ [(last merged)\<lparr>rend := max (rend (last merged)) (rend current)\<rparr>])"

definition mergeRanges :: "StatusCodeRange list \<Rightarrow> StatusCodeRange list" where
  "mergeRanges rs = (if rs = [] then [] else foldl merge_step [] (js_sort range_cmp rs))"

definition rangeToken :: "StatusCodeRange \<Rightarrow> jstr" where
  "rangeToken r =
     (if rstart r = rend r then dec (rstart r) else dec (rstart r) @ js ''-'' @ dec (rend r))"

text \<open>The segments of the rule text: the full-width comma U+FF0C (65292) is replaced by an
  ordinary comma (44) first.\<close>

definition ruleSegments :: "jstr \<Rightarrow> jstr list" where
  "ruleSegments raw =
     filter (\<lambda>s. s \<noteq> []) (map js_trim (js_split (of_char CHR '','')
       (map (\<lambda>c. if c = 65292 then 44 else c) raw)))"

definition parseHttpStatusCodeRules :: "jstr option \<Rightarrow> ParsedHttpStatusCodeRules" where
  "parseHttpStatusCodeRules input =
     (let raw = js_trim (case input of None \<Rightarrow> [] | Some s \<Rightarrow> s) in
      if raw = [] then
        \<lparr>ok = True, ranges = [], tokens = [], normalized = [], invalidTokens = []\<rparr>
      else
        (let segments = ruleSegments raw;
             rs = List.map_filter parseToken segments;
             invalid = filter (\<lambda>s. parseToken s = None) segments in
         if invalid \<noteq> [] then
           \<lparr>ok = False, ranges = [], tokens = [], normalized = raw, invalidTokens = invalid\<rparr>
         else
           (let merged = mergeRanges rs; toks = map rangeToken merged in
            \<lparr>ok = True, ranges = merged, tokens = toks, normalized = js_join (js '','') toks,
             invalidTokens = []\<rparr>)))"

section \<open>What a rule text means\<close>

definition covers :: "StatusCodeRange list \<Rightarrow> nat set" where
  "covers rs = {c. \<exists>r \<in> set rs. rstart r \<le> c \<and> c \<le> rend r}"

definition wf_range :: "StatusCodeRange \<Rightarrow> bool" where
  "wf_range r \<longleftrightarrow> 100 \<le> rstart r \<and> rstart r \<le> rend r \<and> rend r \<le> 599"

text \<open>The normal form: ascending ranges with at least one uncovered code between neighbours.\<close>

definition normal_ranges :: "StatusCodeRange list \<Rightarrow> bool" where
  "normal_ranges rs \<longleftrightarrow>
     list_all wf_range rs \<and> sorted_wrt (\<lambda>a b. rend a + 1 < rstart b) rs"

lemma covers_simps [simp]:
  "covers [] = {}"
  "covers (r # rs) = {rstart r..rend r} \<union> covers rs"
  "covers (rs @ rs') = covers rs \<union> covers rs'"
  by (auto simp: covers_def)

lemma range_cmp_le:
  "range_cmp a b \<le> 0 \<longleftrightarrow> rstart a < rstart b \<or> (rstart a = rstart b \<and> rend a \<le> rend b)"
  by (auto simp: range_cmp_def)

interpretation range_order: js_comparator range_cmp
  by unfold_locales (auto simp: range_cmp_le)

lemma merge_step_snoc:
  "merge_step (ms @ [l]) y =
     (if rend l + 1 < rstart y then ms @ [l, y] else ms @ [l\<lparr>rend := max (rend l) (rend y)\<rparr>])"
  by (simp add: merge_step_def)

lemma merge_step_invariant:
  assumes "normal_ranges m" and "wf_range y" and "m \<noteq> [] \<Longrightarrow> rstart (last m) \<le> rstart y"
  shows "normal_ranges (merge_step m y)"
    and "covers (merge_step m y) = covers m \<union> {rstart y..rend y}"
    and "rstart (last (merge_step m y)) \<le> rstart y"
    and "merge_step m y \<noteq> []"
proof -
  have "normal_ranges (merge_step m y) \<and> covers (merge_step m y) = covers m \<union> {rstart y..rend y}
    \<and> rstart (last (merge_step m y)) \<le> rstart y \<and> merge_step m y \<noteq> []"
  proof (cases m rule: rev_cases)
    case Nil
    with assms show ?thesis by (simp add: merge_step_def normal_ranges_def)
  next
    case (snoc ms l)
    with assms show ?thesis
      by (auto simp: merge_step_snoc normal_ranges_def sorted_wrt_append wf_range_def)
  qed
  then show "normal_ranges (merge_step m y)"
    and "covers (merge_step m y) = covers m \<union> {rstart y..rend y}"
    and "rstart (last (merge_step m y)) \<le> rstart y"
    and "merge_step m y \<noteq> []" by auto
qed

lemma foldl_merge_step:
  assumes "normal_ranges m" and "list_all wf_range ys"
    and "sorted_wrt (\<lambda>a b. range_cmp a b \<le> 0) ys"
    and "m \<noteq> [] \<Longrightarrow> \<forall>y \<in> set ys. rstart (last m) \<le> rstart y"
  shows "normal_ranges (foldl merge_step m ys) \<and> covers (foldl merge_step m ys) = covers m \<union> covers ys"
  using assms
proof (induction ys arbitrary: m)
  case (Cons y ys)
  have m: "normal_ranges m" "wf_range y" "m \<noteq> [] \<Longrightarrow> rstart (last m) \<le> rstart y"
    using Cons.prems by auto
  note step = merge_step_invariant [OF m]
  have le: "\<forall>y' \<in> set ys. rstart (last (merge_step m y)) \<le> rstart y'"
    using Cons.prems(3) step(3) by (fastforce simp: range_cmp_le)
  have "normal_ranges (foldl merge_step (merge_step m y) ys)
    \<and> covers (foldl merge_step (merge_step m y) ys) = covers (merge_step m y) \<union> covers ys"
    by (rule Cons.IH) (use Cons.prems step(1) le in auto)
  then show ?case using step(2) by (auto simp: Un_assoc)
qed simp

lemma mergeRanges_correct:
  assumes "list_all wf_range rs"
  shows "normal_ranges (mergeRanges rs)" and "covers (mergeRanges rs) = covers rs"
proof -
  have *: "normal_ranges (foldl merge_step [] (js_sort range_cmp rs))
    \<and> covers (foldl merge_step [] (js_sort range_cmp rs)) = covers [] \<union> covers (js_sort range_cmp rs)"
    by (rule foldl_merge_step)
      (use assms range_order.sorted_js_sort in \<open>auto simp: normal_ranges_def list_all_iff\<close>)
  then show "normal_ranges (mergeRanges rs)" and "covers (mergeRanges rs) = covers rs"
    by (auto simp: mergeRanges_def normal_ranges_def covers_def)
qed

text \<open>Two normal forms that cover the same codes are equal.\<close>

lemma covers_beyond:
  "normal_ranges (r # rs) \<Longrightarrow> c \<in> covers rs \<Longrightarrow> rend r + 1 < c"
  by (auto simp: normal_ranges_def covers_def)

lemma normal_head_le:
  assumes "normal_ranges (r # rs)" "normal_ranges (s # ss)" "covers (r # rs) = covers (s # ss)"
  shows "rstart s \<le> rstart r" and "rend r \<le> rend s"
proof -
  have wr: "rstart r \<le> rend r" and ws: "rstart s \<le> rend s"
    using assms(1,2) by (auto simp: normal_ranges_def wf_range_def)
  have "rstart r \<in> covers (s # ss)" using assms(3) wr by (auto simp: set_eq_iff)
  then show st: "rstart s \<le> rstart r"
    using covers_beyond [OF assms(2)] ws by fastforce
  show "rend r \<le> rend s"
  proof (rule ccontr)
    assume "\<not> rend r \<le> rend s"
    moreover have "rstart s \<in> covers (r # rs)" using assms(3) ws by (auto simp: set_eq_iff)
    then have "rstart r \<le> rstart s" using covers_beyond [OF assms(1)] wr by fastforce
    ultimately have "rend s + 1 \<in> covers (r # rs)" using ws by simp
    then have "rend s + 1 \<in> covers (s # ss)" by (simp only: assms(3))
    then show False using covers_beyond [OF assms(2)] by fastforce
  qed
qed

lemma normal_unique:
  "normal_ranges rs \<Longrightarrow> normal_ranges ss \<Longrightarrow> covers rs = covers ss \<Longrightarrow> rs = ss"
proof (induction rs arbitrary: ss)
  case Nil
  then show ?case by (cases ss) (auto simp: normal_ranges_def wf_range_def)
next
  case (Cons r rs)
  then obtain s ts where ss: "ss = s # ts"
    by (cases ss) (auto simp: normal_ranges_def wf_range_def)
  note h = Cons.prems [unfolded ss]
  have rs: "rstart r = rstart s" "rend r = rend s"
    using normal_head_le [OF h] normal_head_le [OF h(2,1) h(3)[symmetric]] by auto
  have "covers rs = covers (r # rs) - {rstart r..rend r}"
    using covers_beyond [OF h(1)] by fastforce
  also have "\<dots> = covers ts"
    using covers_beyond [OF h(2)] h(3) rs by fastforce
  finally have "rs = ts" using Cons.IH h by (auto simp: normal_ranges_def)
  with rs ss show ?case by simp
qed

lemma mergeRanges_normal:
  assumes "normal_ranges rs"
  shows "mergeRanges rs = rs"
proof -
  have "list_all wf_range rs" using assms by (simp add: normal_ranges_def)
  from mergeRanges_correct [OF this] show ?thesis using assms by (blast intro: normal_unique)
qed

section \<open>Tokens and segments\<close>

lemma parseToken_wf: "parseToken t = Some r \<Longrightarrow> wf_range r"
  by (auto simp: parseToken_def Let_def wf_range_def isValidCode_def split: if_splits list.splits)

lemma js_includes_single [simp]: "js_includes s [c] \<longleftrightarrow> c \<in> set s"
  by (auto simp: js_includes_iff sublist_def dest: split_list)

lemma dec_isNumber [simp]: "isNumber (dec n)"
  by (simp add: isNumber_def list_all_iff js_num)

lemma dec_chars: "c \<in> set (dec n) \<Longrightarrow> 48 \<le> c \<and> c \<le> 57"
  using dec_digits [of n] by (auto simp: is_digit_def)

lemma rangeToken_chars: "c \<in> set (rangeToken r) \<Longrightarrow> c = 45 \<or> (48 \<le> c \<and> c \<le> 57)"
  by (auto simp: rangeToken_def dest!: dec_chars split: if_splits)

lemma rangeToken_nonempty [simp]: "rangeToken r \<noteq> []"
  by (simp add: rangeToken_def)

lemma no_ws_trim: "\<forall>c \<in> set s. \<not> is_ws c \<Longrightarrow> js_trim s = s"
  by (rule js_trim_id) (auto simp: trimmed_def)

lemma rangeToken_no_ws: "\<forall>c \<in> set (rangeToken r). \<not> is_ws c"
proof
  fix c assume "c \<in> set (rangeToken r)"
  then have "c = 45 \<or> (48 \<le> c \<and> c \<le> 57)" by (rule rangeToken_chars)
  then show "\<not> is_ws c" by (auto simp: is_ws_def)
qed

lemma parseToken_rangeToken:
  assumes "wf_range r"
  shows "parseToken (rangeToken r) = Some r"
proof -
  have clean: "filter (\<lambda>c. \<not> is_ws c) (js_trim (rangeToken r)) = rangeToken r"
    using rangeToken_no_ws by (simp add: no_ws_trim)
  have no_dash: "45 \<notin> set (dec n)" for n using dec_chars by fastforce
  have "js_split 45 (dec (rstart r) @ 45 # dec (rend r)) = [dec (rstart r), dec (rend r)]"
    by (simp add: js_split_append js_split_notin no_dash)
  with assms show ?thesis
    unfolding parseToken_def clean Let_def
    by (simp add: rangeToken_def no_dash digits_val_dec isValidCode_def wf_range_def)
qed

lemma ruleSegments_join:
  assumes "toks \<noteq> []"
    and "\<And>t c. t \<in> set toks \<Longrightarrow> c \<in> set t \<Longrightarrow> c \<noteq> 44 \<and> c \<noteq> 65292 \<and> \<not> is_ws c"
    and "[] \<notin> set toks"
  shows "ruleSegments (js_join (js '','') toks) = toks"
proof -
  have "c \<noteq> 65292" if "c \<in> set (js_join [44] toks)" for c
    using js_join_mem [OF that] assms(2) by auto
  then have "map (\<lambda>c. if c = 65292 then 44 else c) (js_join [44] toks) = js_join [44] toks"
    by (auto intro: map_idI)
  moreover have "js_split 44 (js_join [44] toks) = toks"
    by (rule js_split_join) (use assms in auto)
  moreover have "map js_trim toks = toks"
    by (rule map_idI) (use assms(2) in \<open>auto intro!: no_ws_trim\<close>)
  moreover have "filter (\<lambda>s. s \<noteq> []) toks = toks"
    by (rule filter_True) (use assms(3) in auto)
  ultimately show ?thesis by (simp add: ruleSegments_def)
qed

section \<open>The parser\<close>

lemma parse_ranges_wf: "list_all wf_range (List.map_filter parseToken ts)"
  by (auto simp: list_all_iff List.map_filter_def dest: parseToken_wf)

lemma parse_ok_ranges:
  assumes "ok (parseHttpStatusCodeRules input)"
  shows "normal_ranges (ranges (parseHttpStatusCodeRules input))"
    and "normalized (parseHttpStatusCodeRules input) =
      js_join (js '','') (map rangeToken (ranges (parseHttpStatusCodeRules input)))"
    and "tokens (parseHttpStatusCodeRules input) =
      map rangeToken (ranges (parseHttpStatusCodeRules input))"
    and "invalidTokens (parseHttpStatusCodeRules input) = []"
  using assms mergeRanges_correct(1) [OF parse_ranges_wf]
  by (auto simp: parseHttpStatusCodeRules_def Let_def normal_ranges_def split: if_splits)

lemma parse_normalized:
  assumes "normal_ranges rs"
  shows "parseHttpStatusCodeRules (Some (js_join (js '','') (map rangeToken rs))) =
    \<lparr>ok = True, ranges = rs, tokens = map rangeToken rs,
     normalized = js_join (js '','') (map rangeToken rs), invalidTokens = []\<rparr>"
proof (cases "rs = []")
  case True
  then show ?thesis by (simp add: parseHttpStatusCodeRules_def)
next
  case False
  let ?toks = "map rangeToken rs" and ?txt = "js_join [44] (map rangeToken rs)"
  have chars: "c \<noteq> 44 \<and> c \<noteq> 65292 \<and> \<not> is_ws c" if "t \<in> set ?toks" "c \<in> set t" for t c
  proof -
    obtain r where "c \<in> set (rangeToken r)" using \<open>t \<in> set ?toks\<close> \<open>c \<in> set t\<close> by auto
    then show ?thesis using rangeToken_chars [of c r] rangeToken_no_ws [of r] by auto
  qed
  have "[] \<notin> set ?toks" by (metis imageE list.set_map rangeToken_nonempty)
  then have seg: "ruleSegments ?txt = ?toks"
    using ruleSegments_join [of ?toks] False chars by simp
  have parse: "parseToken (rangeToken r) = Some r" if "r \<in> set rs" for r
    using that assms by (simp add: parseToken_rangeToken normal_ranges_def list_all_iff)
  have "List.map_filter parseToken ?toks = rs"
    using parse by (induction rs) (auto simp: List.map_filter_simps)
  moreover have "filter (\<lambda>s. parseToken s = None) ?toks = []"
    using parse by (auto simp: filter_empty_conv)
  moreover have "\<not> is_ws c" if "c \<in> set ?txt" for c
    using js_join_mem [OF that] chars by (auto simp: is_ws_def)
  then have "js_trim ?txt = ?txt" by (blast intro: no_ws_trim)
  moreover have "?txt \<noteq> []" using False by (cases rs; cases "tl rs") auto
  ultimately show ?thesis
    using seg mergeRanges_normal [OF assms] by (simp add: parseHttpStatusCodeRules_def Let_def)
qed

interpretation rules_text: text_codec
  "\<lambda>rs. js_join (js '','') (map rangeToken rs)" "\<lambda>s. parseHttpStatusCodeRules (Some s)"
  "\<lambda>rs. \<lparr>ok = True, ranges = rs, tokens = map rangeToken rs,
     normalized = js_join (js '','') (map rangeToken rs), invalidTokens = []\<rparr>" normal_ranges
  by unfold_locales (fact parse_normalized, simp)

text \<open>
  C1. Merging is semantics-preserving and canonical.  For every input, when the parser accepts,
  the resulting ranges lie within 100..599, are ascending with a gap of at least one code between
  neighbours, and cover exactly the codes that the accepted segments of the input cover.
\<close>

theorem status_rules_meaning:
  assumes "ok (parseHttpStatusCodeRules (Some s))"
  shows "normal_ranges (ranges (parseHttpStatusCodeRules (Some s))) \<and>
    covers (ranges (parseHttpStatusCodeRules (Some s))) =
      {c. \<exists>seg \<in> set (ruleSegments (js_trim s)). \<exists>r. parseToken seg = Some r
            \<and> rstart r \<le> c \<and> c \<le> rend r}"
proof -
  let ?segs = "ruleSegments (js_trim s)"
  have "covers (List.map_filter parseToken ?segs) =
      {c. \<exists>seg \<in> set ?segs. \<exists>r. parseToken seg = Some r \<and> rstart r \<le> c \<and> c \<le> rend r}"
    by (auto simp: covers_def List.map_filter_def; force)
  moreover have "ruleSegments [] = []" by (simp add: ruleSegments_def)
  ultimately have "covers (ranges (parseHttpStatusCodeRules (Some s))) =
      {c. \<exists>seg \<in> set ?segs. \<exists>r. parseToken seg = Some r \<and> rstart r \<le> c \<and> c \<le> rend r}"
    using assms mergeRanges_correct(2) [OF parse_ranges_wf, of ?segs]
    by (auto simp: parseHttpStatusCodeRules_def Let_def split: if_splits)
  with parse_ok_ranges(1) [OF assms] show ?thesis by blast
qed

theorem status_rules_meaning_witness:
  "ok (parseHttpStatusCodeRules (Some (js ''500-503, 429,502-510''))) \<and>
   covers (ranges (parseHttpStatusCodeRules (Some (js ''500-503, 429,502-510'')))) =
     {c. \<exists>seg \<in> set (ruleSegments (js_trim (js ''500-503, 429,502-510''))).
          \<exists>r. parseToken seg = Some r \<and> rstart r \<le> c \<and> c \<le> rend r}"
proof -
  have "ok (parseHttpStatusCodeRules (Some (js ''500-503, 429,502-510'')))" by code_simp
  with status_rules_meaning [OF this] show ?thesis by blast
qed

text \<open>
  C6. The normalised text is a canonical form of the rule: two accepted inputs that denote the
  same set of status codes are normalised to the same text.
\<close>

theorem status_rules_canonical:
  assumes "ok (parseHttpStatusCodeRules a)" and "ok (parseHttpStatusCodeRules b)"
    and "covers (ranges (parseHttpStatusCodeRules a)) = covers (ranges (parseHttpStatusCodeRules b))"
  shows "normalized (parseHttpStatusCodeRules a) = normalized (parseHttpStatusCodeRules b)"
proof -
  have "ranges (parseHttpStatusCodeRules a) = ranges (parseHttpStatusCodeRules b)"
    using assms parse_ok_ranges(1) normal_unique by blast
  then show ?thesis using assms by (simp add: parse_ok_ranges(2))
qed

theorem status_rules_canonical_witness:
  "normalized (parseHttpStatusCodeRules (Some (js ''501,500''))) =
   normalized (parseHttpStatusCodeRules (Some (js ''500-501'')))"
proof (rule status_rules_canonical)
  show "ok (parseHttpStatusCodeRules (Some (js ''501,500'')))" by code_simp
  show "ok (parseHttpStatusCodeRules (Some (js ''500-501'')))" by code_simp
  have "ranges (parseHttpStatusCodeRules (Some (js ''501,500''))) =
    ranges (parseHttpStatusCodeRules (Some (js ''500-501'')))" by code_simp
  then show "covers (ranges (parseHttpStatusCodeRules (Some (js ''501,500'')))) =
    covers (ranges (parseHttpStatusCodeRules (Some (js ''500-501''))))" by simp
qed

text \<open>
  C7. Printing and parsing round trip: parsing the normalised text of an accepted input gives
  back the very same result, so saving and reloading a normalised rule changes nothing.
\<close>

theorem status_rules_roundtrip:
  assumes "ok (parseHttpStatusCodeRules input)"
  shows "parseHttpStatusCodeRules (Some (normalized (parseHttpStatusCodeRules input))) =
    parseHttpStatusCodeRules input"
  using parse_ok_ranges [OF assms] rules_text.read_shown [of "ranges (parseHttpStatusCodeRules input)"] assms
  by simp

theorem status_rules_roundtrip_witness:
  "ok (parseHttpStatusCodeRules (Some (js ''500 - 503,429''))) \<and>
   parseHttpStatusCodeRules (Some (normalized (parseHttpStatusCodeRules (Some (js ''500 - 503,429''))))) =
   parseHttpStatusCodeRules (Some (js ''500 - 503,429''))"
proof -
  have "ok (parseHttpStatusCodeRules (Some (js ''500 - 503,429'')))" by code_simp
  with status_rules_roundtrip [OF this] show ?thesis by blast
qed

section \<open>Which segments are refused\<close>












end
