(* ===== verification/JS_Number.thy ===== *)
theory JS_Number
  imports JS_Prelude Complex_Main
begin

text \<open>
  The numbers of the language: IEEE 754 binary64 values, written as exact rationals with the
  special values beside them, rounding to nearest even, \<^verbatim>\<open>Number(s)\<close> on strings, and
  \<^verbatim>\<open>String(x)\<close> with the shortest decimal that reads back as the same number.  The main fact is
  that \<^verbatim>\<open>Number(String(x))\<close> gives back every finite number.
\<close>

section \<open>Values\<close>

datatype jsnum = NaN | PosInf | NegInf | NegZero | Fin rat

text \<open>The truth value of a number, and the idiom \<^verbatim>\<open>x || 0\<close>.\<close>

fun num_truthy :: "jsnum \<Rightarrow> bool" where
  "num_truthy NaN = False"
| "num_truthy NegZero = False"
| "num_truthy (Fin q) = (q \<noteq> 0)"
| "num_truthy _ = True"

definition num_or_zero :: "jsnum \<Rightarrow> jsnum" where
  "num_or_zero x = (if num_truthy x then x else Fin 0)"

fun num_neg :: "jsnum \<Rightarrow> jsnum" where
  "num_neg NaN = NaN"
| "num_neg PosInf = NegInf"
| "num_neg NegInf = PosInf"
| "num_neg NegZero = Fin 0"
| "num_neg (Fin q) = (if q = 0 then NegZero else Fin (- q))"

section \<open>Integer logarithms\<close>

fun ilog :: "nat \<Rightarrow> nat \<Rightarrow> nat" where
  "ilog b n = (if b < 2 \<or> n < b then 0 else Suc (ilog b (n div b)))"

declare ilog.simps [simp del]

lemma ilog_bounds: "2 \<le> b \<Longrightarrow> 0 < n \<Longrightarrow> b ^ ilog b n \<le> n \<and> n < b ^ Suc (ilog b n)"
proof (induction b n rule: ilog.induct)
  case (1 b n)
  show ?case
  proof (cases "n < b")
    case True
    with 1 show ?thesis by (simp add: ilog.simps)
  next
    case False
    then have "0 < n div b" using 1 by (simp add: div_greater_zero_iff)
    then have IH: "b ^ ilog b (n div b) \<le> n div b" "n div b < b ^ Suc (ilog b (n div b))"
      using 1 False by auto
    have "b * b ^ ilog b (n div b) \<le> n"
      using IH(1) by (metis div_times_less_eq_dividend le_trans mult.commute mult_le_mono1)
    moreover have "n < b ^ Suc (Suc (ilog b (n div b)))"
      using IH(2) 1(2) by (metis One_nat_def Suc_1 bot_nat_0.extremum_strict bot_nat_0.not_eq_extremum
          div_less_iff_less_mult le_0_eq less_eq_Suc_le mult.commute not_less_eq_eq power_Suc)
    ultimately show ?thesis using False 1(2) by (subst (1 2) ilog.simps) simp
  qed
qed

text \<open>The exponent of a positive rational in base \<open>b\<close>.\<close>

definition rlog :: "nat \<Rightarrow> rat \<Rightarrow> int" where
  "rlog b q =
     (let (n, d) = quotient_of q; k = int (ilog b (nat n)) - int (ilog b (nat d)) in
      if rat_of_nat b powi k \<le> q then k else k - 1)"

lemma ilog_of_int:
  assumes "2 \<le> b" and "0 < n"
  shows "rat_of_nat b ^ ilog b (nat n) \<le> of_int n" and "of_int n < rat_of_nat b ^ Suc (ilog b (nat n))"
proof -
  have n: "rat_of_nat (nat n) = of_int n" using assms(2) by simp
  have "b ^ ilog b (nat n) \<le> nat n" "nat n < b ^ Suc (ilog b (nat n))"
    using ilog_bounds [OF assms(1), of "nat n"] assms(2) by auto
  then have "rat_of_nat (b ^ ilog b (nat n)) \<le> rat_of_nat (nat n)"
    and "rat_of_nat (nat n) < rat_of_nat (b ^ Suc (ilog b (nat n)))"
    by (simp_all only: of_nat_le_iff of_nat_less_iff)
  then show "rat_of_nat b ^ ilog b (nat n) \<le> of_int n" and "of_int n < rat_of_nat b ^ Suc (ilog b (nat n))"
    by (simp_all only: n of_nat_power)
qed

lemma rlog_bounds:
  assumes "2 \<le> b" and "0 < q"
  shows "rat_of_nat b powi rlog b q \<le> q" and "q < rat_of_nat b powi (rlog b q + 1)"
proof -
  obtain n d where nd: "quotient_of q = (n, d)" by (cases "quotient_of q")
  let ?B = "rat_of_nat b"
  let ?i = "ilog b (nat n)" and ?j = "ilog b (nat d)"
  have B: "1 < ?B" "0 < ?B" using assms(1) by simp_all
  have d0: "0 < d" using quotient_of_denom_pos [OF nd] .
  have q: "q = of_int n / of_int d" using quotient_of_div [OF nd] .
  have n0: "0 < n" using assms(2) q d0 by (simp add: zero_less_divide_iff)
  have bn: "?B ^ ?i \<le> of_int n" "of_int n < ?B ^ Suc ?i" by (rule ilog_of_int [OF assms(1) n0])+
  have bd: "?B ^ ?j \<le> of_int d" "of_int d < ?B ^ Suc ?j" by (rule ilog_of_int [OF assms(1) d0])+
  let ?k = "int ?i - int ?j"
  have up: "q < ?B powi (?k + 1)"
  proof -
    have "q < ?B ^ Suc ?i / ?B ^ ?j"
      unfolding q by (rule frac_less) (use bn(2) bd(1) d0 n0 B in simp_all)
    also have "\<dots> = ?B powi (?k + 1)"
      using B by (simp add: power_int_diff power_int_add)
    finally show ?thesis .
  qed
  have lo: "?B powi (?k - 1) \<le> q"
  proof -
    have "?B powi (?k - 1) = ?B ^ ?i / ?B ^ Suc ?j"
      using B by (simp add: power_int_diff power_int_add)
    also have "\<dots> \<le> q"
      unfolding q by (rule frac_le) (use bn(1) bd(2) d0 n0 in simp_all)
    finally show ?thesis .
  qed
  show "?B powi rlog b q \<le> q" "q < ?B powi (rlog b q + 1)"
    using up lo by (auto simp: rlog_def nd Let_def)
qed

section \<open>Rounding to a double\<close>

definition round_even :: "rat \<Rightarrow> int" where
  "round_even q =
     (let f = \<lfloor>q\<rfloor>; r = q - of_int f in
      if r < 1 / 2 then f else if 1 / 2 < r then f + 1 else if even f then f else f + 1)"

text \<open>The exponent of the last place: 53 significant bits, never below \<open>2 powi -1074\<close>.\<close>

definition double_exp :: "rat \<Rightarrow> int" where
  "double_exp q = max (rlog 2 q - 52) (- 1074)"

definition round_pos :: "rat \<Rightarrow> rat" where
  "round_pos q = of_int (round_even (q / 2 powi double_exp q)) * 2 powi double_exp q"

text \<open>Rounding up to this value overflows.\<close>

definition double_limit :: rat where
  "double_limit = 2 ^ 1024"

lemma double_limit_code [code]: "double_limit = 179769313486231590772930519078902473361797697894230657273430081157732675805500963132708477322407536021120113879871393357658789768814416622492847430639474124377767893424865485276302219601246094119453082952085005768838150682342462881473913110540827237163350510684586298239947245938479716304835356329624224137216"
  by (simp add: double_limit_def)

definition to_double :: "rat \<Rightarrow> jsnum" where
  "to_double q =
     (if q = 0 then Fin 0
      else if 0 < q then (if double_limit \<le> round_pos q then PosInf else Fin (round_pos q))
      else num_neg (if double_limit \<le> round_pos (- q) then PosInf else Fin (round_pos (- q))))"

text \<open>The values of the type: what \<open>to_double\<close> keeps.\<close>

fun is_double :: "jsnum \<Rightarrow> bool" where
  "is_double (Fin q) \<longleftrightarrow> to_double q = Fin q"
| "is_double _ \<longleftrightarrow> True"

text \<open>Addition and the comparisons; the finite part of either zero is 0.\<close>

fun num_plus :: "jsnum \<Rightarrow> jsnum \<Rightarrow> jsnum" where
  "num_plus NaN y = NaN"
| "num_plus x NaN = NaN"
| "num_plus PosInf y = (if y = NegInf then NaN else PosInf)"
| "num_plus NegInf y = (if y = PosInf then NaN else NegInf)"
| "num_plus x PosInf = PosInf"
| "num_plus x NegInf = NegInf"
| "num_plus NegZero NegZero = NegZero"
| "num_plus NegZero (Fin b) = Fin b"
| "num_plus (Fin a) NegZero = Fin a"
| "num_plus (Fin a) (Fin b) = to_double (a + b)"

fun num_less :: "jsnum \<Rightarrow> jsnum \<Rightarrow> bool" where
  "num_less NaN y = False"
| "num_less x NaN = False"
| "num_less x NegInf = False"
| "num_less NegInf y = True"
| "num_less PosInf y = False"
| "num_less x PosInf = True"
| "num_less NegZero NegZero = False"
| "num_less NegZero (Fin b) = (0 < b)"
| "num_less (Fin a) NegZero = (a < 0)"
| "num_less (Fin a) (Fin b) = (a < b)"

fun num_eq :: "jsnum \<Rightarrow> jsnum \<Rightarrow> bool" where
  "num_eq NaN y = False"
| "num_eq NegZero y = (y = NegZero \<or> y = Fin 0)"
| "num_eq x NegZero = (x = Fin 0)"
| "num_eq x y = (x = y)"

definition num_le :: "jsnum \<Rightarrow> jsnum \<Rightarrow> bool" where
  "num_le x y \<longleftrightarrow> num_less x y \<or> num_eq x y"

lemma round_even_int [simp]: "round_even (of_int n) = n"
  by (simp add: round_even_def)

lemma round_even_near: "\<bar>q - of_int n\<bar> < 1 / 2 \<Longrightarrow> round_even q = n"
proof -
  assume a: "\<bar>q - of_int n\<bar> < 1 / 2"
  show "round_even q = n"
  proof (cases "of_int n \<le> q")
    case True
    then have "\<lfloor>q\<rfloor> = n" using a by (intro floor_unique) auto
    then show ?thesis using a True by (simp add: round_even_def)
  next
    case False
    then have "\<lfloor>q\<rfloor> = n - 1" using a by (intro floor_unique) auto
    then show ?thesis using a False by (simp add: round_even_def Let_def)
  qed
qed

lemma round_even_dist: "\<bar>q - of_int (round_even q)\<bar> \<le> 1 / 2"
  using floor_correct [of q] by (auto simp: round_even_def Let_def)

lemma powi_pos [simp]: "0 < (2::rat) powi k" "0 < (10::rat) powi k"
  by (simp_all add: zero_less_power_int)

text \<open>Rounding is the identity on multiples of the last place.\<close>

lemma round_pos_grid: "q = of_int m * 2 powi double_exp q \<Longrightarrow> round_pos q = q"
proof -
  assume q: "q = of_int m * 2 powi double_exp q"
  then have "q / 2 powi double_exp q = of_int m"
    using powi_pos(1) [of "double_exp q"] by (metis less_irrefl nonzero_mult_div_cancel_right)
  with q show ?thesis by (simp add: round_pos_def)
qed

text \<open>Placing a number between powers of the base determines its exponent.\<close>

lemma powi_less_iff: "2 \<le> b \<Longrightarrow> rat_of_nat b powi i < rat_of_nat b powi j \<longleftrightarrow> i < j"
proof -
  assume "2 \<le> b"
  then have b: "1 < rat_of_nat b" by simp
  show ?thesis
  proof
    assume "i < j"
    then show "rat_of_nat b powi i < rat_of_nat b powi j" using b by (rule power_int_strict_increasing)
  next
    assume less: "rat_of_nat b powi i < rat_of_nat b powi j"
    show "i < j"
    proof (rule ccontr)
      assume "\<not> i < j"
      then have "rat_of_nat b powi j \<le> rat_of_nat b powi i"
        using b by (intro power_int_increasing) simp_all
      with less show False by simp
    qed
  qed
qed

lemma two_powi_less: "(2::rat) powi i < 2 powi j \<longleftrightarrow> i < j"
  using powi_less_iff [of 2 i j] by simp

lemma two_powi_le: "(2::rat) powi i \<le> 2 powi j \<longleftrightarrow> i \<le> j"
  using two_powi_less [of j i] by (simp add: not_less [symmetric])

lemma rlog_less: "2 \<le> b \<Longrightarrow> 0 < q \<Longrightarrow> q < rat_of_nat b powi k \<Longrightarrow> rlog b q < k"
  using rlog_bounds [of b q] powi_less_iff [of b "rlog b q" k] by simp

lemma rlog_ge: "2 \<le> b \<Longrightarrow> rat_of_nat b powi k \<le> q \<Longrightarrow> k \<le> rlog b q"
proof -
  assume b: "2 \<le> b" and k: "rat_of_nat b powi k \<le> q"
  have "0 < rat_of_nat b powi k" using b by (simp add: zero_less_power_int)
  then have "0 < q" using k by simp
  then have "rat_of_nat b powi k < rat_of_nat b powi (rlog b q + 1)"
    using rlog_bounds(2) [OF b] k by (meson le_less_trans)
  then show "k \<le> rlog b q" using powi_less_iff [OF b] by simp
qed

lemma rlog_eq:
  "2 \<le> b \<Longrightarrow> rat_of_nat b powi k \<le> q \<Longrightarrow> q < rat_of_nat b powi (k + 1) \<Longrightarrow> rlog b q = k"
proof -
  assume b: "2 \<le> b" and k: "rat_of_nat b powi k \<le> q" "q < rat_of_nat b powi (k + 1)"
  have "0 < rat_of_nat b powi k" using b by (simp add: zero_less_power_int)
  then have "0 < q" using k by simp
  then show ?thesis using rlog_less [OF b _ k(2)] rlog_ge [OF b k(1)] by simp
qed

lemma two_powi_split: "j \<le> i \<Longrightarrow> (2::rat) powi i = of_int (2 ^ nat (i - j)) * 2 powi j"
proof -
  assume "j \<le> i"
  then have "(2::rat) powi i = 2 powi (int (nat (i - j)) + j)" by simp
  also have "\<dots> = 2 powi int (nat (i - j)) * 2 powi j" by (rule power_int_add) simp
  finally show ?thesis by (simp only: power_int_of_nat of_int_power of_int_numeral)
qed

text \<open>Every number with at most 53 significant bits and an exponent in range is kept.\<close>

lemma round_pos_exact:
  assumes "r = of_int m * 2 powi e" and "0 < r" and "m \<le> 2 ^ 53" and "- 1074 \<le> e"
  shows "round_pos r = r"
proof (cases "m = 2 ^ 53")
  case True
  then have r: "r = 2 powi (e + 53)" using assms(1) by (simp add: power_int_add)
  then have "rlog 2 r = e + 53" by (intro rlog_eq) (simp_all add: two_powi_less)
  then have "double_exp r = e + 1" using assms(4) by (simp add: double_exp_def)
  moreover have "r = of_int (2 ^ 52) * 2 powi (e + 1)" using r by (simp add: power_int_add)
  ultimately show ?thesis using round_pos_grid by metis
next
  case False
  then have "rat_of_int m < 2 ^ 53"
    using assms(3) by (metis less_le of_int_less_iff of_int_numeral of_int_power)
  then have "r < 2 powi (e + 53)" using assms(1) by (simp add: power_int_add)
  then have "rlog 2 r < e + 53" using rlog_less [of 2 r "e + 53"] assms(2) by simp
  then have "double_exp r \<le> e" using assms(4) by (simp add: double_exp_def)
  then have "r = of_int (m * 2 ^ nat (e - double_exp r)) * 2 powi double_exp r"
    using assms(1) two_powi_split [of "double_exp r" e] by simp
  then show ?thesis using round_pos_grid by blast
qed

lemma round_even_mono: "p \<le> q \<Longrightarrow> round_even p \<le> round_even q"
proof (rule ccontr)
  assume pq: "p \<le> q" and "\<not> round_even p \<le> round_even q"
  then have "round_even q + 1 \<le> round_even p" by simp
  then have d: "rat_of_int (round_even q) + 1 \<le> of_int (round_even p)" by (metis of_int_1 of_int_add of_int_le_iff)
  then have eq: "p = q" "rat_of_int (round_even p) = p + 1 / 2"
    using round_even_dist [of p] round_even_dist [of q] pq by (auto simp: abs_le_iff)
  then show False using d by simp
qed

lemma round_pos_form:
  assumes "0 < q"
  obtains m where "round_pos q = of_int m * 2 powi double_exp q" "0 \<le> m" "m \<le> 2 ^ 53"
proof
  let ?e = "double_exp q" and ?x = "q / 2 powi double_exp q"
  show "round_pos q = of_int (round_even ?x) * 2 powi ?e" by (simp add: round_pos_def)
  have "0 \<le> ?x" using assms by simp
  then show "0 \<le> round_even ?x" using round_even_mono [of 0 ?x] round_even_int [of 0] by simp
  have "q < 2 powi (rlog 2 q + 1)" using rlog_bounds(2) [of 2 q] assms by simp
  also have "\<dots> \<le> 2 powi (?e + 53)" by (simp add: two_powi_le double_exp_def)
  finally have "?x \<le> 2 ^ 53" by (simp add: power_int_add field_simps)
  then show "round_even ?x \<le> 2 ^ 53"
    using round_even_mono [of ?x "2 ^ 53"] round_even_int [of "2 ^ 53"] by simp
qed

lemma round_pos_nonneg: "0 < q \<Longrightarrow> 0 \<le> round_pos q"
  using round_pos_form by (metis mult_nonneg_nonneg of_int_0_le_iff less_imp_le powi_pos(1))

lemma round_pos_idem: "0 < q \<Longrightarrow> round_pos q \<noteq> 0 \<Longrightarrow> round_pos (round_pos q) = round_pos q"
proof -
  assume q: "0 < q" "round_pos q \<noteq> 0"
  from round_pos_form [OF q(1)] obtain m
    where m: "round_pos q = of_int m * 2 powi double_exp q" "0 \<le> m" "m \<le> 2 ^ 53" .
  have "0 < round_pos q" using q round_pos_nonneg [OF q(1)] by simp
  then show ?thesis using round_pos_exact [OF m(1) _ m(3)] by (simp add: double_exp_def)
qed

lemma to_double_round_pos:
  assumes "0 < q" and "round_pos q < double_limit"
  shows "to_double (round_pos q) = Fin (round_pos q)"
proof (cases "round_pos q = 0")
  case False
  then have "0 < round_pos q" using round_pos_nonneg [OF assms(1)] by simp
  then show ?thesis using round_pos_idem [OF assms(1) False] assms(2) by (simp add: to_double_def)
qed (simp add: to_double_def)

lemma to_double_uminus: "q \<noteq> 0 \<Longrightarrow> to_double (- q) = num_neg (to_double q)"
  by (cases "to_double q"; cases "0 < q") (auto simp: to_double_def split: if_splits)

lemma to_double_idem: "to_double q = Fin r \<Longrightarrow> is_double (Fin r)"
proof -
  assume a: "to_double q = Fin r"
  consider "q = 0" | "0 < q" | "0 < - q" by fastforce
  then show "is_double (Fin r)"
  proof cases
    case 1
    with a show ?thesis by (simp add: to_double_def)
  next
    case 2
    with a have "r = round_pos q" "round_pos q < double_limit" by (auto simp: to_double_def split: if_splits)
    with 2 show ?thesis using to_double_round_pos by simp
  next
    case 3
    with a have r: "r = - round_pos (- q)" "round_pos (- q) < double_limit" "r \<noteq> 0"
      by (auto simp: to_double_def split: if_splits)
    then have "to_double r = num_neg (to_double (round_pos (- q)))"
      using to_double_uminus [of "round_pos (- q)"] by simp
    then show ?thesis using to_double_round_pos [OF 3 r(2)] r by simp
  qed
qed

lemma to_double_of_nat: "n \<le> 2 ^ 53 \<Longrightarrow> to_double (of_nat n) = Fin (of_nat n)"
proof (cases "n = 0")
  case False
  assume n: "n \<le> 2 ^ 53"
  then have "rat_of_nat n \<le> 2 ^ 53" by (metis of_nat_le_iff of_nat_numeral of_nat_power)
  also have "\<dots> < double_limit" unfolding double_limit_def by (rule power_strict_increasing) simp_all
  finally have lt: "rat_of_nat n < double_limit" .
  have "int n \<le> 2 ^ 53" using n by (metis of_nat_le_iff of_nat_numeral of_nat_power)
  then have "round_pos (of_nat n) = of_nat n"
    using round_pos_exact [of "of_nat n" "int n" 0] False by simp
  with False lt show ?thesis by (simp add: to_double_def)
qed (simp add: to_double_def)

text \<open>A number closer to a double than half a place rounds to it.  Just below a power of two the
  places are half as wide, so there the bound is a quarter.\<close>

lemma round_pos_at:
  "double_exp x = e \<Longrightarrow> \<bar>x - of_int m * 2 powi e\<bar> < 2 powi e / 2 \<Longrightarrow> round_pos x = of_int m * 2 powi e"
proof -
  assume e: "double_exp x = e" and d: "\<bar>x - of_int m * 2 powi e\<bar> < 2 powi e / 2"
  have "x / 2 powi e - of_int m = (x - of_int m * 2 powi e) / 2 powi e" by (simp add: field_simps)
  then have "\<bar>x / 2 powi e - of_int m\<bar> < 1 / 2" using d by (simp add: field_simps)
  then show ?thesis using e by (simp add: round_pos_def round_even_near)
qed

lemma grid_gap:
  fixes p q :: rat
  assumes "q = of_int m * 2 powi e" and "p = of_int n * 2 powi e" and "q < p"
  shows "q + 2 powi e \<le> p"
proof -
  have "m < n" using assms by simp
  then have "rat_of_int m + 1 \<le> of_int n" by (metis of_int_1 of_int_add of_int_le_iff zless_imp_add1_zle)
  then have "(rat_of_int m + 1) * 2 powi e \<le> of_int n * 2 powi e" by (simp add: mult_right_mono)
  then show ?thesis using assms by (simp add: algebra_simps)
qed

lemma round_pos_near:
  assumes q: "q = of_int m * 2 powi double_exp q" "0 < q" and "0 < x"
    and near: "\<bar>x - q\<bar> < 2 powi double_exp q / 2"
    and low: "q = 2 powi (double_exp q + 52) \<Longrightarrow> \<bar>x - q\<bar> < 2 powi double_exp q / 4"
  shows "round_pos x = q"
proof -
  let ?e = "double_exp q" and ?L = "rlog 2 q"
  have L: "2 powi ?L \<le> q" "q < 2 powi (?L + 1)" using rlog_bounds [of 2 q] q(2) by simp_all
  have "2 powi ?e \<le> q" using grid_gap [OF _ q(1), of 0 0] q(2) by simp
  then have eL: "?e \<le> ?L" using rlog_ge [of 2 ?e q] by simp
  have e: "?e = max (?L - 52) (- 1074)" by (simp add: double_exp_def)
  have here: "double_exp x = ?e \<Longrightarrow> round_pos x = q"
    using round_pos_at [of x ?e m] near by (simp add: q(1) [symmetric])
  consider (in_range) "2 powi ?L \<le> x" "x < 2 powi (?L + 1)" | (above) "2 powi (?L + 1) \<le> x" | (below) "x < 2 powi ?L"
    by fastforce
  then show ?thesis
  proof cases
    case in_range
    then have "rlog 2 x = ?L" by (intro rlog_eq) simp_all
    then have "double_exp x = ?e" by (simp add: double_exp_def)
    then show ?thesis using here by simp
  next
    case above
    have "q + 2 powi ?e \<le> 2 powi (?L + 1)"
      using grid_gap [OF q(1) two_powi_split [of ?e "?L + 1"]] eL L(2) by simp
    then have "2 powi ?e \<le> x - q" using above by simp
    moreover have "0 < (2::rat) powi ?e" by simp
    ultimately show ?thesis using near by linarith
  next
    case below
    have pL: "0 < (2::rat) powi ?e" by simp
    have qL: "q = 2 powi ?L"
    proof (rule ccontr)
      assume "q \<noteq> 2 powi ?L"
      then have "2 powi ?L + 2 powi ?e \<le> q" using grid_gap [OF two_powi_split [OF eL] q(1)] L(1) by simp
      then show False using near below pL by linarith
    qed
    show ?thesis
    proof (cases "?L - 52 \<le> - 1074")
      case True
      have "rlog 2 x < ?L" using rlog_less [of 2 x ?L] below assms(3) by simp
      then have "double_exp x = ?e" using True by (simp add: double_exp_def)
      then show ?thesis using here by simp
    next
      case False
      then have e52: "?e = ?L - 52" by (simp add: e)
      then have d: "\<bar>x - q\<bar> < 2 powi ?e / 4" using low qL by simp
      have "2 powi ?L = 2 * (2::rat) powi (?L - 1)" by (simp add: power_int_diff)
      moreover have "(2::rat) powi ?e \<le> 2 powi (?L - 1)" using e52 by (simp add: two_powi_le)
      ultimately have "2 powi (?L - 1) \<le> x" using d qL pL by linarith
      then have "rlog 2 x = ?L - 1" using below by (intro rlog_eq) simp_all
      then have x: "double_exp x = ?e - 1" using False by (simp add: double_exp_def)
      have half: "(2::rat) powi ?e = 2 * 2 powi (?e - 1)" by (simp add: power_int_diff)
      have "round_pos x = of_int (2 * m) * 2 powi (?e - 1)"
        by (rule round_pos_at [OF x]) (use d q(1) half in \<open>simp add: algebra_simps\<close>)
      also have "\<dots> = q" using q(1) half by simp
      finally show ?thesis .
    qed
  qed
qed

section \<open>The shortest decimal\<close>

text \<open>With \<open>k\<close> digits there are two candidates, the multiples of \<open>10 powi (n - k)\<close> on either side;
  the nearer one is preferred.  The number of digits is the least that identifies the double.\<close>

definition short_digits :: "rat \<Rightarrow> nat \<Rightarrow> nat option" where
  "short_digits q k =
     (let u = 10 powi (rlog 10 q + 1 - int k); c = nat (round_even (q / u));
          d = (if of_nat c * u \<le> q then c + 1 else c - 1) in
      if to_double (of_nat c * u) = Fin q then Some c
      else if to_double (of_nat d * u) = Fin q then Some d else None)"

fun first_some :: "('a \<Rightarrow> 'b option) \<Rightarrow> 'a list \<Rightarrow> 'b option" where
  "first_some f [] = None"
| "first_some f (x # xs) = (case f x of None \<Rightarrow> first_some f xs | Some y \<Rightarrow> Some y)"

definition shortest :: "rat \<Rightarrow> (nat \<times> nat) option" where
  "shortest q = first_some (\<lambda>k. map_option (\<lambda>c. (c, k)) (short_digits q k)) [1..<18]"

definition strip_zeros :: "jstr \<Rightarrow> jstr" where
  "strip_zeros ds = rev (dropWhile (\<lambda>d. d = 48) (rev ds))"

text \<open>The significant digits and the position of the decimal point.\<close>

definition num_digits :: "rat \<Rightarrow> jstr \<times> int" where
  "num_digits q =
     (case shortest q of
        None \<Rightarrow> ([], 0)
      | Some (c, k) \<Rightarrow> (strip_zeros (dec c), rlog 10 q + 1 - int k + int (length (dec c))))"

definition digits_str :: "jstr \<Rightarrow> int \<Rightarrow> jstr" where
  "digits_str ds n =
     (let k = int (length ds) in
      if k \<le> n \<and> n \<le> 21 then ds @ replicate (nat (n - k)) 48
      else if 0 < n \<and> n \<le> 21 then take (nat n) ds @ [46] @ drop (nat n) ds
      else if - 6 < n \<and> n \<le> 0 then [48, 46] @ replicate (nat (- n)) 48 @ ds
      else take 1 ds @ (if k = 1 then [] else [46] @ drop 1 ds) @ [101]
        @ (if 0 < n then [43] @ dec (nat (n - 1)) else [45] @ dec (nat (1 - n))))"

fun num_str :: "jsnum \<Rightarrow> jstr" where
  "num_str NaN = js ''NaN''"
| "num_str PosInf = js ''Infinity''"
| "num_str NegInf = js ''-Infinity''"
| "num_str NegZero = [48]"
| "num_str (Fin q) =
     (if q = 0 then [48]
      else if 0 < q then case_prod digits_str (num_digits q)
      else 45 # case_prod digits_str (num_digits (- q)))"

section \<open>Reading a number\<close>

definition read_exponent :: "jstr \<Rightarrow> int option" where
  "read_exponent s =
     (let neg = (s \<noteq> [] \<and> hd s = 45); ds = (if s \<noteq> [] \<and> (hd s = 43 \<or> hd s = 45) then tl s else s) in
      if ds = [] \<or> \<not> list_all is_digit ds then None
      else Some (if neg then - int (digits_val ds) else int (digits_val ds)))"

text \<open>An unsigned decimal literal, as an exact rational.\<close>

definition read_decimal :: "jstr \<Rightarrow> rat option" where
  "read_decimal s =
     (let ip = takeWhile is_digit s; r = dropWhile is_digit s;
          dot = (r \<noteq> [] \<and> hd r = 46);
          fp = (if dot then takeWhile is_digit (tl r) else []);
          t = (if dot then dropWhile is_digit (tl r) else r);
          val = (\<lambda>e. of_nat (digits_val (ip @ fp)) * 10 powi (e - int (length fp))) in
      if ip = [] \<and> fp = [] then None
      else if t = [] then Some (val 0)
      else if hd t = 101 \<or> hd t = 69 then map_option val (read_exponent (tl t))
      else None)"

definition digit_value :: "nat \<Rightarrow> nat \<Rightarrow> nat option" where
  "digit_value b c =
     (let v = (if is_digit c then c - 48 else if 97 \<le> c \<and> c \<le> 102 then c - 87
               else if 65 \<le> c \<and> c \<le> 70 then c - 55 else b) in
      if v < b then Some v else None)"

fun read_radix :: "nat \<Rightarrow> nat \<Rightarrow> jstr \<Rightarrow> nat option" where
  "read_radix b acc [] = Some acc"
| "read_radix b acc (c # cs) =
     (case digit_value b c of None \<Rightarrow> None | Some v \<Rightarrow> read_radix b (b * acc + v) cs)"

definition read_unsigned :: "jstr \<Rightarrow> jsnum" where
  "read_unsigned s =
     (if s = js ''Infinity'' then PosInf
      else (case read_decimal s of None \<Rightarrow> NaN | Some q \<Rightarrow> to_double q))"

definition radix_of :: "jstr \<Rightarrow> nat option" where
  "radix_of s =
     (if length s < 3 \<or> hd s \<noteq> 48 then None
      else if s ! 1 = 120 \<or> s ! 1 = 88 then Some 16
      else if s ! 1 = 111 \<or> s ! 1 = 79 then Some 8
      else if s ! 1 = 98 \<or> s ! 1 = 66 then Some 2 else None)"

text \<open>\<^verbatim>\<open>Number(s)\<close> on a string.\<close>

definition str_num :: "jstr \<Rightarrow> jsnum" where
  "str_num str =
     (let s = js_trim str in
      if s = [] then Fin 0
      else if hd s = 45 then num_neg (read_unsigned (tl s))
      else if hd s = 43 then read_unsigned (tl s)
      else case radix_of s of
        Some b \<Rightarrow> (case read_radix b 0 (drop 2 s) of None \<Rightarrow> NaN | Some n \<Rightarrow> to_double (of_nat n))
      | None \<Rightarrow> read_unsigned s)"

section \<open>Seventeen digits are enough\<close>

lemma double_form:
  assumes "is_double (Fin q)" and "0 < q"
  obtains m where "q = of_int m * 2 powi double_exp q" "q < double_limit" "round_pos q = q"
proof -
  have "round_pos q = q" "q < double_limit" using assms by (auto simp: to_double_def split: if_splits)
  then show thesis using that round_pos_form [OF assms(2)] by metis
qed

lemma below_binade: "0 < q \<Longrightarrow> q < 2 powi (double_exp q + 53)"
proof -
  assume "0 < q"
  then have "q < 2 powi (rlog 2 q + 1)" using rlog_bounds(2) [of 2 q] by simp
  also have "\<dots> \<le> 2 powi (double_exp q + 53)" by (simp add: two_powi_le double_exp_def)
  finally show ?thesis .
qed

lemma to_double_near:
  assumes "is_double (Fin q)" and "0 < q" and d: "\<bar>x - q\<bar> \<le> q / (2 * 10 ^ 16)"
  shows "to_double x = Fin q"
proof -
  from double_form [OF assms(1,2)] obtain m
    where m: "q = of_int m * 2 powi double_exp q" "q < double_limit" "round_pos q = q" .
  have "q / (2 * 10 ^ 16) < q" using assms(2) by (simp add: field_simps)
  then have "0 < x" using d by linarith
  moreover have "\<bar>x - q\<bar> < 2 powi double_exp q / 2"
  proof -
    have "q / (2 * 10 ^ 16) < 2 powi (double_exp q + 53) / (2 * 10 ^ 16)"
      using below_binade [OF assms(2)] by (intro divide_strict_right_mono) simp_all
    also have "\<dots> < 2 powi double_exp q / 2" by (simp add: power_int_add)
    finally show ?thesis using d by simp
  qed
  moreover have "\<bar>x - q\<bar> < 2 powi double_exp q / 4" if "q = 2 powi (double_exp q + 52)"
  proof -
    have "q / (2 * 10 ^ 16) = 2 powi (double_exp q + 52) / (2 * 10 ^ 16)" using that by simp
    also have "\<dots> < 2 powi double_exp q / 4" by (simp add: power_int_add)
    finally show ?thesis using d by simp
  qed
  ultimately have "round_pos x = q" using round_pos_near [OF m(1) assms(2)] by blast
  then show ?thesis using m(2) \<open>0 < x\<close> by (simp add: to_double_def)
qed

lemma short_digits_17: "is_double (Fin q) \<Longrightarrow> 0 < q \<Longrightarrow> short_digits q 17 \<noteq> None"
proof -
  assume q: "is_double (Fin q)" "0 < q"
  define u :: rat where "u = 10 powi (rlog 10 q + 1 - int 17)"
  define z where "z = round_even (q / u)"
  have u: "0 < u" by (simp add: u_def)
  have "u = 10 powi rlog 10 q / 10 ^ 16" by (simp add: u_def power_int_diff power_int_add)
  then have uq: "u \<le> q / 10 ^ 16" using rlog_bounds(1) [of 10 q] q(2) by (simp add: divide_right_mono)
  have "0 \<le> z" using round_even_mono [of 0 "q / u"] round_even_int [of 0] q(2) u by (simp add: z_def)
  then have z: "rat_of_nat (nat z) = of_int z" by simp
  have "\<bar>q / u - of_int z\<bar> * u \<le> 1 / 2 * u"
    using round_even_dist [of "q / u"] u by (intro mult_right_mono) (simp_all add: z_def)
  moreover have "of_int z * u - q = - (q / u - of_int z) * u" using u by (simp add: field_simps)
  then have "\<bar>of_int z * u - q\<bar> = \<bar>q / u - of_int z\<bar> * u" using u by (simp add: abs_mult)
  ultimately have "\<bar>of_int z * u - q\<bar> \<le> q / (2 * 10 ^ 16)" using uq by simp
  then have "to_double (of_nat (nat z) * u) = Fin q" using to_double_near [OF q] z by simp
  then show ?thesis by (simp add: short_digits_def Let_def z_def u_def)
qed

lemma first_some_Some: "first_some f xs = Some y \<Longrightarrow> \<exists>x \<in> set xs. f x = Some y"
  by (induction xs) (auto split: option.splits)

lemma first_some_None: "first_some f xs = None \<longleftrightarrow> (\<forall>x \<in> set xs. f x = None)"
  by (induction xs) (auto split: option.splits)

lemma shortest_double:
  assumes "is_double (Fin q)" and "0 < q"
  obtains c k where "shortest q = Some (c, k)" "to_double (of_nat c * 10 powi (rlog 10 q + 1 - int k)) = Fin q"
    "short_digits q k = Some c" "1 \<le> k"
proof -
  have "shortest q \<noteq> None"
    using short_digits_17 [OF assms] by (auto simp: shortest_def first_some_None)
  then obtain c k where s: "shortest q = Some (c, k)" by auto
  then have "short_digits q k = Some c" "1 \<le> k" by (auto simp: shortest_def dest!: first_some_Some)
  moreover from this have "to_double (of_nat c * 10 powi (rlog 10 q + 1 - int k)) = Fin q"
    by (auto simp: short_digits_def Let_def split: if_splits)
  ultimately show thesis using that s by blast
qed

section \<open>Printing and reading back\<close>

lemma foldl_digits: "foldl (\<lambda>n d. 10 * n + (d - 48)) a s = a * 10 ^ length s + digits_val s"
proof (induction s rule: rev_induct)
  case (snoc d s)
  then show ?case by (simp add: digits_val_def algebra_simps)
qed (simp add: digits_val_def)

lemma digits_val_append [js_num]: "digits_val (a @ b) = digits_val a * 10 ^ length b + digits_val b"
  using foldl_digits [of "digits_val a" b] by (simp add: digits_val_def)

lemma digits_val_zeros [js_num]: "digits_val (replicate j 48) = 0"
  by (induction j) (simp_all add: digits_val_def)

lemma takeWhile_digits:
  "list_all is_digit a \<Longrightarrow> t = [] \<or> \<not> is_digit (hd t) \<Longrightarrow>
     takeWhile is_digit (a @ t) = a \<and> dropWhile is_digit (a @ t) = t"
  by (cases t) (auto simp: list_all_iff takeWhile_append dropWhile_append)

lemma read_decimal_whole:
  assumes "list_all is_digit a" and "a \<noteq> []" and "t = [] \<or> hd t = 101"
  shows "read_decimal (a @ t) =
    (if t = [] then Some (of_nat (digits_val a))
     else map_option (\<lambda>e. of_nat (digits_val a) * 10 powi e) (read_exponent (tl t)))"
proof -
  have "t = [] \<or> \<not> is_digit (hd t)" using assms(3) by (auto simp: is_digit_def)
  then have t: "takeWhile is_digit (a @ t) = a" "dropWhile is_digit (a @ t) = t"
    using takeWhile_digits [OF assms(1)] by auto
  show ?thesis using assms(2,3) by (auto simp: read_decimal_def t Let_def)
qed

lemma read_decimal_point:
  assumes "list_all is_digit a" and "list_all is_digit b" and "a \<noteq> []" and "t = [] \<or> hd t = 101"
  shows "read_decimal (a @ 46 # b @ t) =
    (if t = [] then Some (of_nat (digits_val (a @ b)) * 10 powi (- int (length b)))
     else map_option (\<lambda>e. of_nat (digits_val (a @ b)) * 10 powi (e - int (length b))) (read_exponent (tl t)))"
proof -
  have "t = [] \<or> \<not> is_digit (hd t)" using assms(4) by (auto simp: is_digit_def)
  then have t: "takeWhile is_digit (b @ t) = b" "dropWhile is_digit (b @ t) = t"
    using takeWhile_digits [OF assms(2)] by auto
  have r: "takeWhile is_digit (a @ 46 # b @ t) = a" "dropWhile is_digit (a @ 46 # b @ t) = 46 # b @ t"
    using takeWhile_digits [OF assms(1), of "46 # b @ t"] by (auto simp: is_digit_def)
  show ?thesis using assms(3,4) unfolding read_decimal_def Let_def r list.sel t by auto
qed

lemma read_exponent_dec:
  "read_exponent (43 # dec n) = Some (int n)" "read_exponent (45 # dec n) = Some (- int n)"
  using dec_digits [of n] by (simp_all add: read_exponent_def Let_def list_all_iff digits_val_dec)

lemma ten_powi_shift: "0 \<le> j \<Longrightarrow> (10::rat) ^ nat j = 10 powi j"
  by (simp add: power_int_def)

theorem digits_str_read:
  assumes ds: "list_all is_digit ds" "ds \<noteq> []"
  shows "read_decimal (digits_str ds n) = Some (of_nat (digits_val ds) * 10 powi (n - int (length ds)))"
proof -
  let ?k = "int (length ds)"
  consider (pad) "?k \<le> n" "n \<le> 21" | (mid) "\<not> ?k \<le> n" "0 < n" "n \<le> 21"
    | (zero) "\<not> ?k \<le> n" "- 6 < n" "n \<le> 0" | (exp) "21 < n \<or> n \<le> - 6" by linarith
  then show ?thesis
  proof cases
    case pad
    then have "digits_str ds n = (ds @ replicate (nat (n - ?k)) 48) @ []" by (simp add: digits_str_def)
    moreover have "list_all is_digit (ds @ replicate (nat (n - ?k)) 48)"
      using ds by (auto simp: list_all_iff is_digit_def)
    ultimately show ?thesis
      using read_decimal_whole [of "ds @ replicate (nat (n - ?k)) 48" "[]"] ds(2) pad(1)
      by (simp add: js_num ten_powi_shift)
  next
    case mid
    then have "digits_str ds n = take (nat n) ds @ 46 # drop (nat n) ds @ []" by (simp add: digits_str_def)
    moreover have "list_all is_digit (take (nat n) ds)" "list_all is_digit (drop (nat n) ds)"
      using ds by (auto simp: list_all_iff dest: in_set_takeD in_set_dropD)
    moreover have "take (nat n) ds \<noteq> []" using ds(2) mid by simp
    moreover have "- int (length (drop (nat n) ds)) = n - ?k" using mid by simp
    ultimately show ?thesis
      using read_decimal_point [of "take (nat n) ds" "drop (nat n) ds" "[]"] by (simp del: length_drop)
  next
    case zero
    then have "digits_str ds n = [48] @ 46 # (replicate (nat (- n)) 48 @ ds) @ []" by (simp add: digits_str_def)
    moreover have "list_all is_digit (replicate (nat (- n)) 48 @ ds)" "list_all is_digit [48]"
      using ds by (auto simp: list_all_iff is_digit_def)
    moreover have "digits_val (replicate (Suc (nat (- n))) 48 @ ds) = digits_val ds"
      by (simp only: digits_val_append digits_val_zeros)
    then have "digits_val ([48] @ replicate (nat (- n)) 48 @ ds) = digits_val ds" by simp
    moreover have "- int (length (replicate (nat (- n)) 48 @ ds)) = n - ?k" using zero by simp
    ultimately show ?thesis
      using read_decimal_point [of "[48]" "replicate (nat (- n)) 48 @ ds" "[]"] by (simp del: length_append)
  next
    case exp
    define x where "x = (if 0 < n then [43] @ dec (nat (n - 1)) else [45] @ dec (nat (1 - n)))"
    have e: "read_exponent x = Some (n - 1)" using exp by (auto simp: x_def read_exponent_dec)
    obtain d es where des: "ds = d # es" using ds(2) by (cases ds) auto
    show ?thesis
    proof (cases es)
      case Nil
      then have "digits_str ds n = ds @ 101 # x" using exp des by (auto simp: digits_str_def x_def)
      then show ?thesis using read_decimal_whole [OF ds, of "101 # x"] e des Nil by simp
    next
      case (Cons f fs)
      then have "digits_str ds n = [d] @ 46 # es @ 101 # x" using exp des Cons by (auto simp: digits_str_def x_def)
      moreover have "list_all is_digit [d]" "list_all is_digit es" using ds(1) des by auto
      ultimately show ?thesis
        using read_decimal_point [of "[d]" es "101 # x"] e des by (simp add: diff_diff_eq)
    qed
  qed
qed

lemma strip_zeros_split: "\<exists>j. ds = strip_zeros ds @ replicate j 48"
proof -
  have "rev ds = takeWhile (\<lambda>d. d = 48) (rev ds) @ dropWhile (\<lambda>d. d = 48) (rev ds)" by simp
  then have "ds = strip_zeros ds @ rev (takeWhile (\<lambda>d. d = 48) (rev ds))"
    unfolding strip_zeros_def by (metis rev_append rev_rev_ident)
  moreover have "rev (takeWhile (\<lambda>d. d = 48) (rev ds)) = replicate (length (takeWhile (\<lambda>d. d = 48) (rev ds))) 48"
    by (metis (mono_tags, lifting) replicate_length_same rev_replicate set_takeWhileD)
  ultimately show ?thesis by metis
qed

lemma strip_zeros_digits: "list_all is_digit ds \<Longrightarrow> list_all is_digit (strip_zeros ds)"
  by (auto simp: strip_zeros_def list_all_iff dest: set_dropWhileD)

lemma num_digits_value:
  assumes "is_double (Fin q)" and "0 < q" and "num_digits q = (ds, n)"
  shows "list_all is_digit ds \<and> ds \<noteq> [] \<and> to_double (of_nat (digits_val ds) * 10 powi (n - int (length ds))) = Fin q"
proof -
  from shortest_double [OF assms(1,2)] obtain c k where ck: "shortest q = Some (c, k)"
    "to_double (of_nat c * 10 powi (rlog 10 q + 1 - int k)) = Fin q" by blast
  from strip_zeros_split obtain j where j: "dec c = strip_zeros (dec c) @ replicate j 48" by blast
  have n: "ds = strip_zeros (dec c)" "n = rlog 10 q + 1 - int k + int (length (dec c))"
    using assms(3) ck(1) by (simp_all add: num_digits_def)
  then have len: "length (dec c) = length ds + j" using j by (metis length_append length_replicate)
  have "c = digits_val (strip_zeros (dec c) @ replicate j 48)" using j digits_val_dec by metis
  then have c: "c = digits_val ds * 10 ^ j" using n(1) by (simp add: js_num)
  have e: "n - int (length ds) = int j + (rlog 10 q + 1 - int k)" using n(2) len by simp
  have v: "of_nat c * 10 powi (rlog 10 q + 1 - int k) = rat_of_nat (digits_val ds) * 10 powi (n - int (length ds))"
    using power_int_add [of "10::rat" "int j" "rlog 10 q + 1 - int k"] e by (simp add: c)
  have "ds \<noteq> []"
  proof
    assume "ds = []"
    then have "c = 0" using c by (simp add: digits_val_def)
    then show False using ck(2) assms(2) by (simp add: to_double_def)
  qed
  then show ?thesis
    using v ck(2) n(1) strip_zeros_digits [of "dec c"] dec_digits [of c] by (simp add: list_all_iff)
qed

text \<open>The text of a positive number starts with a digit, and what follows the digit cannot be the
  mark of another radix.\<close>

lemma radix_of_decimal:
  assumes "set s \<subseteq> {c. is_digit c} \<union> {43, 45, 46, 101}"
  shows "radix_of s = None"
proof (cases "length s < 3")
  case False
  then have "s ! 1 \<in> set s" by (intro nth_mem) simp
  then have "s ! 1 \<in> {c. is_digit c} \<union> {43, 45, 46, 101}" using assms by blast
  then show ?thesis by (auto simp: radix_of_def is_digit_def)
qed (simp add: radix_of_def)

lemma dec_all_digits [simp]: "list_all is_digit (dec n)" "is_digit (last (dec n))" "is_digit (hd (dec n))"
  using dec_digits [of n] last_in_set [of "dec n"] hd_in_set [of "dec n"] by (simp_all add: list_all_iff)

lemma digits_str_chars:
  "list_all is_digit ds \<Longrightarrow> set (digits_str ds n) \<subseteq> {c. is_digit c} \<union> {43, 45, 46, 101}"
  using dec_digits
  by (auto simp: digits_str_def Let_def list_all_iff is_digit_def dest: in_set_takeD in_set_dropD)

lemma digits_str_ends:
  assumes "list_all is_digit ds" and "ds \<noteq> []"
  shows "digits_str ds n \<noteq> [] \<and> is_digit (hd (digits_str ds n)) \<and> is_digit (last (digits_str ds n))"
proof -
  have ds: "is_digit (hd ds)" "is_digit (last ds)" using assms by (auto simp: list_all_iff)
  have z: "is_digit 48" by (simp add: is_digit_def)
  obtain d es where "ds = d # es" using assms(2) by (cases ds) auto
  then show ?thesis
    using assms ds z by (auto simp: digits_str_def Let_def hd_append last_append)
qed

lemma digits_str_shape:
  assumes "list_all is_digit ds" and "ds \<noteq> []"
  shows "digits_str ds n \<noteq> []" "is_digit (hd (digits_str ds n))" "is_digit (last (digits_str ds n))"
    "radix_of (digits_str ds n) = None"
  using digits_str_ends [OF assms] digits_str_chars [OF assms(1)] radix_of_decimal by blast+

lemma str_num_pos:
  assumes "is_double (Fin q)" and "0 < q"
  shows "str_num (case_prod digits_str (num_digits q)) = Fin q"
    and "str_num (45 # case_prod digits_str (num_digits q)) = Fin (- q)"
proof -
  obtain ds n where nd: "num_digits q = (ds, n)" by (cases "num_digits q")
  then have d: "list_all is_digit ds" "ds \<noteq> []"
    "to_double (of_nat (digits_val ds) * 10 powi (n - int (length ds))) = Fin q"
    using num_digits_value [OF assms nd] by blast+
  let ?s = "digits_str ds n"
  note shape = digits_str_shape [OF d(1,2), of n]
  have "?s \<noteq> js ''Infinity''" using shape(2) by (auto simp: is_digit_def)
  then have un: "read_unsigned ?s = Fin q"
    using digits_str_read [OF d(1,2), of n] d(3) by (simp add: read_unsigned_def del: js_Cons)
  have "trimmed ?s" using shape(1-3) is_digit_not_ws by (simp add: trimmed_def)
  moreover have "trimmed (45 # ?s)" using shape(1-3) is_digit_not_ws by (simp add: trimmed_def is_ws_def)
  moreover have "hd ?s \<noteq> 45" "hd ?s \<noteq> 43" using shape(2) by (auto simp: is_digit_def)
  ultimately show "str_num (case_prod digits_str (num_digits q)) = Fin q"
    and "str_num (45 # case_prod digits_str (num_digits q)) = Fin (- q)"
    using shape(1,4) un assms(2) by (simp_all add: str_num_def nd js_trim_id)
qed

lemma str_num_special:
  "str_num [48] = Fin 0" "str_num (js ''Infinity'') = PosInf" "str_num (js ''-Infinity'') = NegInf"
  "str_num (js ''NaN'') = NaN"
  by (simp_all add: str_num_def js_trim_id trimmed_def is_ws_def radix_of_def read_unsigned_def
      read_decimal_def is_digit_def digits_val_def to_double_def)

theorem num_str_read:
  assumes "is_double x"
  shows "str_num (num_str x) = (if x = NegZero then Fin 0 else x)"
proof (cases x)
  case (Fin q)
  consider "q = 0" | "0 < q" | "0 < - q" by fastforce
  then show ?thesis
  proof cases
    case 1
    then show ?thesis using Fin str_num_special by simp
  next
    case 2
    then show ?thesis using Fin assms str_num_pos(1) by simp
  next
    case 3
    have "to_double (- q) = num_neg (to_double q)" using 3 by (intro to_double_uminus) auto
    then have "is_double (Fin (- q))" using assms Fin 3 by simp
    then show ?thesis using str_num_pos(2) [of "- q"] 3 Fin by simp
  qed
qed (use str_num_special in \<open>simp_all del: js_Cons\<close>)

section \<open>Integers print as their digits\<close>

lemma dec_shift: "0 < c \<Longrightarrow> dec (c * 10 ^ j) = dec c @ replicate j 48"
proof (induction j)
  case (Suc j)
  have "dec (c * 10 ^ Suc j) = dec (c * 10 ^ j) @ [48]"
    using Suc.prems by (subst dec.simps) simp
  then show ?case using Suc by (simp add: replicate_append_same)
qed simp

lemma length_dec: "length (dec n) = Suc (ilog 10 n)"
proof (induction n rule: dec.induct)
  case (1 n)
  then show ?case by (subst dec.simps, subst ilog.simps) simp
qed

lemma rlog_of_nat: "0 < n \<Longrightarrow> rlog 10 (of_nat n) = int (ilog 10 n)"
proof -
  assume "0 < n"
  then have b: "10 ^ ilog 10 n \<le> n" "n < 10 ^ Suc (ilog 10 n)" using ilog_bounds [of 10 n] by auto
  from b(1) have "rat_of_nat (10 ^ ilog 10 n) \<le> of_nat n" by (simp only: of_nat_le_iff)
  moreover from b(2) have "rat_of_nat n < of_nat (10 ^ Suc (ilog 10 n))" by (simp only: of_nat_less_iff)
  ultimately show ?thesis by (intro rlog_eq) (simp_all add: power_int_add)
qed

lemma first_some_least:
  "first_some (\<lambda>k. map_option (\<lambda>c. (c, k)) (f k)) [a..<b] = Some (c, k) \<Longrightarrow> a \<le> j \<Longrightarrow> j < b \<Longrightarrow> f j \<noteq> None \<Longrightarrow> k \<le> j"
proof (induction "b - a" arbitrary: a)
  case (Suc d)
  then have l: "[a..<b] = a # [Suc a..<b]" by (simp add: upt_conv_Cons)
  show ?case
  proof (cases "f a")
    case None
    then have "a \<noteq> j" using Suc.prems(4) by auto
    then show ?thesis using Suc.hyps(1) [of "Suc a"] Suc.hyps(2) Suc.prems None l by auto
  next
    case (Some y)
    then show ?thesis using Suc.prems(1,2) l by auto
  qed
qed simp

lemma short_digits_close:
  assumes "short_digits q k = Some c" and "0 < q"
  shows "of_nat c * 10 powi (rlog 10 q + 1 - int k) \<le> q + 10 powi (rlog 10 q + 1 - int k)"
proof -
  define u :: rat where "u = 10 powi (rlog 10 q + 1 - int k)"
  define z where "z = round_even (q / u)"
  have u: "0 < u" by (simp add: u_def)
  have "of_int z \<le> q / u + 1 / 2" using round_even_dist [of "q / u"] unfolding z_def by linarith
  then have z: "of_int z * u \<le> q + u / 2" using u by (simp add: field_simps)
  have z0: "0 \<le> z" using round_even_mono [of 0 "q / u"] round_even_int [of 0] assms(2) u by (simp add: z_def)
  consider "c = nat z" | "c = nat z + 1" "of_nat (nat z) * u \<le> q" | "c = nat z - 1"
    using assms(1) by (auto simp: short_digits_def Let_def z_def u_def split: if_splits)
  then have "of_nat c * u \<le> q + u"
  proof cases
    case 1
    then show ?thesis using z z0 u by simp
  next
    case 2
    then show ?thesis by (simp add: algebra_simps)
  next
    case 3
    then have "c \<le> nat z" by simp
    then have "rat_of_nat c \<le> of_int z" using z0 by (metis of_int_of_nat_eq of_nat_le_iff nat_0_le)
    then have "rat_of_nat c * u \<le> of_int z * u" using u by (simp add: mult_right_mono)
    then show ?thesis using z u by linarith
  qed
  then show ?thesis by (simp add: u_def)
qed

lemma short_digits_exact:
  "0 < n \<Longrightarrow> n \<le> 2 ^ 53 \<Longrightarrow> short_digits (of_nat n) (Suc (ilog 10 n)) = Some n"
  using round_even_int [of "int n"]
  by (simp add: short_digits_def rlog_of_nat Let_def to_double_of_nat)

theorem num_str_of_nat:
  assumes "n < 10 ^ 15"
  shows "num_str (Fin (of_nat n)) = dec n"
proof (cases "n = 0")
  case True
  then show ?thesis by (simp add: dec.simps)
next
  case False
  let ?q = "rat_of_nat n" and ?L = "ilog 10 n"
  have "(10::nat) ^ 15 \<le> 2 ^ 52" by simp
  then have n53: "n \<le> 2 ^ 53" "2 * n \<le> 2 ^ 53" using assms by simp_all
  have q: "is_double (Fin ?q)" "0 < ?q" using to_double_of_nat [OF n53(1)] False by simp_all
  from shortest_double [OF q] obtain c k where ck: "shortest ?q = Some (c, k)"
    "to_double (of_nat c * 10 powi (rlog 10 ?q + 1 - int k)) = Fin ?q" "short_digits ?q k = Some c" "1 \<le> k"
    by blast
  have "(10::nat) ^ ?L < 10 ^ 15" using ilog_bounds [of 10 n] False assms by simp
  then have L: "?L < 15" by (rule power_less_imp_less_exp [rotated]) simp
  have "k \<le> Suc ?L"
    using first_some_least [of "short_digits ?q" 1 18 c k "Suc ?L"] ck(1) short_digits_exact [of n] False n53(1) L
    by (simp add: shortest_def)
  define j where "j = Suc ?L - k"
  have r: "rlog 10 ?q + 1 - int k = int j" using rlog_of_nat [of n] False \<open>k \<le> Suc ?L\<close> by (simp add: j_def)
  have "10 ^ j \<le> (10::nat) ^ ?L" using ck(4) by (intro power_increasing) (simp_all add: j_def)
  also have "\<dots> \<le> n" using ilog_bounds [of 10 n] False by simp
  finally have "10 ^ j \<le> n" .
  moreover have "of_nat c * 10 powi int j \<le> ?q + 10 powi int j"
    using short_digits_close [OF ck(3) q(2)] by (simp only: r)
  then have "rat_of_nat (c * 10 ^ j) \<le> of_nat (n + 10 ^ j)" by simp
  then have "c * 10 ^ j \<le> n + 10 ^ j" by (simp only: of_nat_le_iff)
  ultimately have "c * 10 ^ j \<le> 2 ^ 53" using n53(2) by simp
  then have "to_double (of_nat (c * 10 ^ j)) = Fin (of_nat (c * 10 ^ j))" by (rule to_double_of_nat)
  moreover have "to_double (of_nat (c * 10 ^ j)) = Fin ?q" using ck(2) by (simp only: r) simp
  ultimately have nc: "n = c * 10 ^ j" by (metis jsnum.inject of_nat_eq_iff)
  then have c0: "0 < c" using False by (cases c) auto
  have dn: "dec n = dec c @ replicate j 48" using dec_shift [OF c0] nc by simp
  from strip_zeros_split obtain i where i: "dec c = strip_zeros (dec c) @ replicate i 48" by blast
  let ?ds = "strip_zeros (dec c)"
  have lc: "length (dec c) = length ?ds + i" using i by (metis length_append length_replicate)
  have ln: "length (dec n) = length ?ds + (i + j)" using lc by (simp add: dn)
  have le: "length ?ds + (i + j) \<le> 21" using ln L by (simp add: length_dec)
  have "num_digits ?q = (?ds, int (length (dec n)))"
    using ck(1) r by (simp add: num_digits_def dn)
  moreover have "digits_str ?ds (int (length (dec n))) = ?ds @ replicate (i + j) 48"
    using le unfolding ln digits_str_def Let_def by simp
  moreover have "?ds @ replicate (i + j) 48 = dec n" using dn i by (simp add: replicate_add)
  ultimately show ?thesis using q(2) False by simp
qed

section \<open>Evaluation\<close>

text \<open>Code equations with every intermediate value as an argument, so that symbolic evaluation
  computes it once.\<close>

definition rlog_fix :: "nat \<Rightarrow> rat \<Rightarrow> int \<Rightarrow> int" where
  "rlog_fix b q k = (if rat_of_nat b powi k \<le> q then k else k - 1)"

definition round_fix :: "int \<Rightarrow> rat \<Rightarrow> int" where
  "round_fix f r = (if r < 1 / 2 then f else if 1 / 2 < r then f + 1 else if even f then f else f + 1)"

definition round_at :: "rat \<Rightarrow> int \<Rightarrow> int" where
  "round_at q f = round_fix f (q - of_int f)"

definition short_pick :: "rat \<Rightarrow> rat \<Rightarrow> nat \<Rightarrow> nat \<Rightarrow> nat option" where
  "short_pick q u c d =
     (if to_double (of_nat c * u) = Fin q then Some c
      else if to_double (of_nat d * u) = Fin q then Some d else None)"

definition short_mid :: "rat \<Rightarrow> rat \<Rightarrow> nat \<Rightarrow> nat option" where
  "short_mid q u c = short_pick q u c (if of_nat c * u \<le> q then c + 1 else c - 1)"

definition short_at :: "rat \<Rightarrow> rat \<Rightarrow> nat option" where
  "short_at q u = short_mid q u (nat (round_even (q / u)))"

lemma rlog_code [code]:
  "rlog b q = (case quotient_of q of (n, d) \<Rightarrow> rlog_fix b q (int (ilog b (nat n)) - int (ilog b (nat d))))"
  by (simp add: rlog_def rlog_fix_def Let_def)

lemma round_even_code [code]: "round_even q = round_at q \<lfloor>q\<rfloor>"
  by (simp add: round_even_def round_at_def round_fix_def Let_def)

lemma short_digits_code [code]: "short_digits q k = short_at q (10 powi (rlog 10 q + 1 - int k))"
  by (simp add: short_digits_def short_at_def short_mid_def short_pick_def Let_def)

end
