(* ===== verification/JSON.thy ===== *)
theory JSON
  imports JS_Number
begin

text \<open>
  JSON and plain objects: \<^verbatim>\<open>JSON.parse\<close>, \<^verbatim>\<open>JSON.stringify\<close> without indentation, property lists with the
  enumeration order of the language, and \<^verbatim>\<open>String(v)\<close> on parsed values.  The main fact is that
  parsing what was printed gives back every well-formed value.
\<close>

section \<open>Property lists\<close>

text \<open>The own properties of an object in enumeration order: array-index keys ascending, then the
  others in the order they were added.\<close>

definition is_index :: "jstr \<Rightarrow> bool" where
  "is_index k \<longleftrightarrow> k \<noteq> [] \<and> list_all is_digit k \<and> (hd k \<noteq> 48 \<or> k = [48]) \<and> digits_val k < 4294967295"

fun obj_insert :: "jstr \<Rightarrow> 'v \<Rightarrow> (jstr \<times> 'v) list \<Rightarrow> (jstr \<times> 'v) list" where
  "obj_insert k v [] = [(k, v)]"
| "obj_insert k v ((k', v') # ps) =
     (if is_index k' \<and> (\<not> is_index k \<or> digits_val k' < digits_val k) \<or> \<not> is_index k' \<and> \<not> is_index k
      then (k', v') # obj_insert k v ps else (k, v) # (k', v') # ps)"

fun obj_replace :: "jstr \<Rightarrow> 'v \<Rightarrow> (jstr \<times> 'v) list \<Rightarrow> (jstr \<times> 'v) list" where
  "obj_replace k v [] = []"
| "obj_replace k v ((k', v') # ps) = (if k' = k then (k, v) # ps else (k', v') # obj_replace k v ps)"

definition obj_put :: "(jstr \<times> 'v) list \<Rightarrow> jstr \<Rightarrow> 'v \<Rightarrow> (jstr \<times> 'v) list" where
  "obj_put ps k v =
     (if k \<in> fst ` set ps then obj_replace k v ps else obj_insert k v ps)"

definition obj_of :: "(jstr \<times> 'v) list \<Rightarrow> (jstr \<times> 'v) list" where
  "obj_of ps = foldl (\<lambda>acc (k, v). obj_put acc k v) [] ps"

section \<open>Values\<close>

datatype json = JNull | JBool bool | JNum jsnum | JStr jstr | JArr "json list" | JObj "(jstr \<times> json) list"

section \<open>Printing\<close>

definition hex_digit :: "nat \<Rightarrow> nat" where
  "hex_digit d = (if d < 10 then 48 + d else 87 + d)"

definition unicode_escape :: "nat \<Rightarrow> jstr" where
  "unicode_escape c = [92, 117, hex_digit (c div 4096 mod 16), hex_digit (c div 256 mod 16),
     hex_digit (c div 16 mod 16), hex_digit (c mod 16)]"

definition is_lead :: "nat \<Rightarrow> bool" where "is_lead c \<longleftrightarrow> 55296 \<le> c \<and> c < 56320"
definition is_trail :: "nat \<Rightarrow> bool" where "is_trail c \<longleftrightarrow> 56320 \<le> c \<and> c < 57344"

definition quote_char :: "nat \<Rightarrow> jstr" where
  "quote_char c =
     (if c = 8 then [92, 98] else if c = 9 then [92, 116] else if c = 10 then [92, 110]
      else if c = 12 then [92, 102] else if c = 13 then [92, 114] else if c = 34 then [92, 34]
      else if c = 92 then [92, 92] else if c < 32 then unicode_escape c else [c])"

text \<open>A lone surrogate is written as an escape.\<close>

fun quote_chars :: "jstr \<Rightarrow> jstr" where
  "quote_chars [] = []"
| "quote_chars [c] = (if is_lead c \<or> is_trail c then unicode_escape c else quote_char c)"
| "quote_chars (c # d # cs) =
     (if is_lead c \<and> is_trail d then c # d # quote_chars cs
      else (if is_lead c \<or> is_trail c then unicode_escape c else quote_char c) @ quote_chars (d # cs))"

definition json_quote :: "jstr \<Rightarrow> jstr" where
  "json_quote s = 34 # quote_chars s @ [34]"

fun json_number :: "jsnum \<Rightarrow> jstr" where
  "json_number NaN = js ''null''"
| "json_number PosInf = js ''null''"
| "json_number NegInf = js ''null''"
| "json_number x = num_str x"

fun json_str :: "json \<Rightarrow> jstr" where
  "json_str JNull = js ''null''"
| "json_str (JBool b) = (if b then js ''true'' else js ''false'')"
| "json_str (JNum x) = json_number x"
| "json_str (JStr s) = json_quote s"
| "json_str (JArr xs) = 91 # js_join [44] (map json_str xs) @ [93]"
| "json_str (JObj ps) = 123 # js_join [44] (map (\<lambda>(k, v). json_quote k @ [58] @ json_str v) ps) @ [125]"

section \<open>Parsing\<close>

definition is_json_ws :: "nat \<Rightarrow> bool" where
  "is_json_ws c \<longleftrightarrow> c = 32 \<or> c = 9 \<or> c = 10 \<or> c = 13"

definition skip :: "jstr \<Rightarrow> jstr" where
  "skip s = dropWhile is_json_ws s"

definition starts :: "nat \<Rightarrow> jstr \<Rightarrow> bool" where
  "starts c s \<longleftrightarrow> s \<noteq> [] \<and> hd s = c"

definition read_hex4 :: "jstr \<Rightarrow> nat option" where
  "read_hex4 s = (if length s < 4 then None else read_radix 16 0 (take 4 s))"

definition simple_escape :: "nat \<Rightarrow> nat option" where
  "simple_escape c =
     (if c = 34 \<or> c = 92 \<or> c = 47 then Some c else if c = 98 then Some 8 else if c = 102 then Some 12
      else if c = 110 then Some 10 else if c = 114 then Some 13 else if c = 116 then Some 9 else None)"

text \<open>The characters of a string literal up to the closing quote, and the text after it.\<close>

function parse_str :: "jstr \<Rightarrow> (jstr \<times> jstr) option" where
  "parse_str s =
     (case s of
        [] \<Rightarrow> None
      | c # r \<Rightarrow>
          if c = 34 then Some ([], r)
          else if c = 92 then
            (case r of
               [] \<Rightarrow> None
             | e # t \<Rightarrow>
                 if e = 117 then
                   (case read_hex4 t of
                      None \<Rightarrow> None
                    | Some u \<Rightarrow> map_option (apfst (Cons u)) (parse_str (drop 4 t)))
                 else (case simple_escape e of
                      None \<Rightarrow> None
                    | Some u \<Rightarrow> map_option (apfst (Cons u)) (parse_str t)))
          else if c < 32 then None
          else map_option (apfst (Cons c)) (parse_str r))"
  by pat_completeness auto
termination by (relation "measure length") auto

declare parse_str.simps [simp del]

definition is_num_char :: "nat \<Rightarrow> bool" where
  "is_num_char c \<longleftrightarrow> is_digit c \<or> c = 43 \<or> c = 45 \<or> c = 46 \<or> c = 101 \<or> c = 69"

text \<open>The number grammar of JSON: no leading zeros, and digits on both sides of the point.\<close>

definition json_decimal :: "jstr \<Rightarrow> bool" where
  "json_decimal s \<longleftrightarrow>
     (let ip = takeWhile is_digit s; r = dropWhile is_digit s; dot = starts 46 r;
          fp = (if dot then takeWhile is_digit (tl r) else []);
          t = (if dot then dropWhile is_digit (tl r) else r) in
      ip \<noteq> [] \<and> (hd ip \<noteq> 48 \<or> length ip = 1) \<and> (dot \<longrightarrow> fp \<noteq> []) \<and>
      (t = [] \<or> (hd t = 101 \<or> hd t = 69) \<and> read_exponent (tl t) \<noteq> None))"

definition parse_number :: "jstr \<Rightarrow> (json \<times> jstr) option" where
  "parse_number s =
     (let token = takeWhile is_num_char s in
      if json_decimal (if starts 45 token then tl token else token)
      then Some (JNum (str_num token), dropWhile is_num_char s) else None)"

definition json_obj :: "(jstr \<times> json) list \<Rightarrow> json" where
  "json_obj ps = JObj (obj_of ps)"

fun parse_value :: "nat \<Rightarrow> jstr \<Rightarrow> (json \<times> jstr) option"
  and parse_elems :: "nat \<Rightarrow> jstr \<Rightarrow> (json list \<times> jstr) option"
  and parse_members :: "nat \<Rightarrow> jstr \<Rightarrow> ((jstr \<times> json) list \<times> jstr) option" where
  "parse_value 0 s = None"
| "parse_value (Suc n) s =
     (case s of
        [] \<Rightarrow> None
      | c # r \<Rightarrow>
          if c = 34 then map_option (apfst JStr) (parse_str r)
          else if c = 91 then
            (case skip r of
               [] \<Rightarrow> None
             | d # t \<Rightarrow> if d = 93 then Some (JArr [], t)
                 else map_option (apfst JArr) (parse_elems n (d # t)))
          else if c = 123 then
            (case skip r of
               [] \<Rightarrow> None
             | d # t \<Rightarrow> if d = 125 then Some (JObj [], t)
                 else map_option (apfst json_obj) (parse_members n (d # t)))
          else if prefix (js ''null'') s then Some (JNull, drop 4 s)
          else if prefix (js ''true'') s then Some (JBool True, drop 4 s)
          else if prefix (js ''false'') s then Some (JBool False, drop 5 s)
          else parse_number s)"
| "parse_elems 0 s = None"
| "parse_elems (Suc n) s =
     (case parse_value n s of
        None \<Rightarrow> None
      | Some (v, r) \<Rightarrow>
          (case skip r of
             [] \<Rightarrow> None
           | c # t \<Rightarrow> if c = 44 then map_option (apfst (Cons v)) (parse_elems n (skip t))
               else if c = 93 then Some ([v], t) else None))"
| "parse_members 0 s = None"
| "parse_members (Suc n) s =
     (case s of
        [] \<Rightarrow> None
      | c # r \<Rightarrow>
          if c \<noteq> 34 then None
          else (case parse_str r of
             None \<Rightarrow> None
           | Some (k, t) \<Rightarrow>
               (case skip t of
                  [] \<Rightarrow> None
                | d # u \<Rightarrow>
                    if d \<noteq> 58 then None
                    else (case parse_value n (skip u) of
                       None \<Rightarrow> None
                     | Some (v, w) \<Rightarrow>
                         (case skip w of
                            [] \<Rightarrow> None
                          | e # x \<Rightarrow> if e = 44 then map_option (apfst (Cons (k, v))) (parse_members n (skip x))
                              else if e = 125 then Some ([(k, v)], x) else None)))))"

text \<open>The fuel is twice the length of the text, more than any descent can use.\<close>

definition json_parse :: "jstr \<Rightarrow> json option" where
  "json_parse s =
     (case parse_value (2 * length s + 2) (skip s) of
        Some (v, r) \<Rightarrow> if skip r = [] then Some v else None
      | None \<Rightarrow> None)"

section \<open>Strings read back\<close>

definition utf16 :: "jstr \<Rightarrow> bool" where
  "utf16 s \<longleftrightarrow> (\<forall>c \<in> set s. c < 65536)"

lemma utf16_simps [simp]:
  "utf16 []" "utf16 (c # s) \<longleftrightarrow> c < 65536 \<and> utf16 s" "utf16 (s @ t) \<longleftrightarrow> utf16 s \<and> utf16 t"
  by (auto simp: utf16_def)

lemma parse_str_end [simp]: "parse_str (34 # r) = Some ([], r)"
  by (simp add: parse_str.simps [of "34 # r"])

lemma parse_str_plain:
  "c \<noteq> 34 \<Longrightarrow> c \<noteq> 92 \<Longrightarrow> \<not> c < 32 \<Longrightarrow> parse_str (c # r) = map_option (apfst (Cons c)) (parse_str r)"
  by (simp add: parse_str.simps [of "c # r"])

lemma parse_str_escape:
  "simple_escape e = Some u \<Longrightarrow> e \<noteq> 117 \<Longrightarrow>
     parse_str (92 # e # r) = map_option (apfst (Cons u)) (parse_str r)"
  by (simp add: parse_str.simps [of "92 # e # r"])

lemma digit_value_hex [simp]: "d < 16 \<Longrightarrow> digit_value 16 (hex_digit d) = Some d"
  by (auto simp: digit_value_def hex_digit_def is_digit_def Let_def)

lemma hex4_value: "16 * (16 * (16 * (c div 4096) + c div 256 mod 16) + c div 16 mod 16) + c mod 16 = (c::nat)"
proof -
  have "16 * (c div 4096) + c div 256 mod 16 = c div 256"
    using mult_div_mod_eq [of 16 "c div 256"] by (simp only: div_mult2_eq [symmetric]) simp
  moreover have "16 * (c div 256) + c div 16 mod 16 = c div 16"
    using mult_div_mod_eq [of 16 "c div 16"] by (simp only: div_mult2_eq [symmetric]) simp
  ultimately show ?thesis using mult_div_mod_eq [of 16 c] by metis
qed

lemma read_hex4_digits:
  assumes "a < 16" "b < 16" "d < 16" "e < 16"
  shows "read_hex4 (hex_digit a # hex_digit b # hex_digit d # hex_digit e # r) = Some (16 * (16 * (16 * a + b) + d) + e)"
  using assms by (simp add: read_hex4_def)

lemma parse_str_unicode:
  "c < 65536 \<Longrightarrow> parse_str (unicode_escape c @ r) = map_option (apfst (Cons c)) (parse_str r)"
  by (simp add: unicode_escape_def parse_str.simps [of "92 # 117 # t" for t] read_hex4_digits hex4_value
      del: mult_Suc distrib_left_numeral)

lemma parse_str_quote_char:
  "c < 65536 \<Longrightarrow> parse_str (quote_char c @ r) = map_option (apfst (Cons c)) (parse_str r)"
  by (auto simp: quote_char_def parse_str_unicode parse_str_plain parse_str_escape simple_escape_def)

lemma parse_str_quoted: "utf16 s \<Longrightarrow> parse_str (quote_chars s @ 34 # r) = Some (s, r)"
proof (induction s rule: quote_chars.induct)
  case (2 c)
  then show ?case by (simp add: parse_str_unicode parse_str_quote_char)
next
  case (3 c d cs)
  show ?case
  proof (cases "is_lead c \<and> is_trail d")
    case True
    then have "c \<noteq> 34 \<and> c \<noteq> 92 \<and> \<not> c < 32" "d \<noteq> 34 \<and> d \<noteq> 92 \<and> \<not> d < 32"
      by (auto simp: is_lead_def is_trail_def)
    then show ?thesis using 3 True by (simp add: parse_str_plain)
  next
    case False
    then have IH: "parse_str (quote_chars (d # cs) @ 34 # r) = Some (d # cs, r)" using 3 by auto
    show ?thesis using False 3(3) IH
      by (auto simp: parse_str_unicode parse_str_quote_char)
  qed
qed simp

lemma parse_quote: "utf16 s \<Longrightarrow> \<exists>t. json_quote s @ r = 34 # t \<and> parse_str t = Some (s, r)"
  by (simp add: json_quote_def parse_str_quoted)

section \<open>Numbers read back\<close>

lemma hd_dec: "0 < n \<Longrightarrow> hd (dec n) \<noteq> 48"
proof (induction n rule: dec.induct)
  case (1 n)
  show ?case
  proof (cases "n < 10")
    case False
    then have "0 < n div 10" by simp
    then show ?thesis using 1 False by (subst dec.simps) simp
  qed (use 1 in \<open>simp add: dec.simps\<close>)
qed

lemma num_digits_hd:
  assumes "is_double (Fin q)" and "0 < q" and "num_digits q = (ds, n)"
  shows "hd ds \<noteq> 48"
proof -
  from shortest_double [OF assms(1,2)] obtain c k where ck: "shortest q = Some (c, k)"
    "to_double (of_nat c * 10 powi (rlog 10 q + 1 - int k)) = Fin q" by blast
  then have "0 < c" using assms(2) by (cases c) (auto simp: to_double_def)
  from strip_zeros_split obtain j where j: "dec c = strip_zeros (dec c) @ replicate j 48" by blast
  have "ds = strip_zeros (dec c)" "ds \<noteq> []"
    using assms(3) ck(1) num_digits_value [OF assms] by (simp_all add: num_digits_def)
  then have "hd ds = hd (dec c)" using j by (metis hd_append2)
  then show ?thesis using hd_dec [OF \<open>0 < c\<close>] by simp
qed

lemma json_decimal_whole:
  assumes "list_all is_digit a" and "a \<noteq> []" and "hd a \<noteq> 48 \<or> length a = 1"
    and "t = [] \<or> hd t = 101 \<and> read_exponent (tl t) \<noteq> None"
  shows "json_decimal (a @ t)"
proof -
  have "t = [] \<or> \<not> is_digit (hd t)" using assms(4) by (auto simp: is_digit_def)
  then have t: "takeWhile is_digit (a @ t) = a" "dropWhile is_digit (a @ t) = t"
    using takeWhile_digits [OF assms(1)] by auto
  show ?thesis using assms(2-4) unfolding json_decimal_def Let_def t by (auto simp: starts_def)
qed

lemma json_decimal_point:
  assumes "list_all is_digit a" and "a \<noteq> []" and "hd a \<noteq> 48 \<or> length a = 1"
    and "list_all is_digit b" and "b \<noteq> []"
    and "t = [] \<or> hd t = 101 \<and> read_exponent (tl t) \<noteq> None"
  shows "json_decimal (a @ 46 # b @ t)"
proof -
  have "t = [] \<or> \<not> is_digit (hd t)" using assms(6) by (auto simp: is_digit_def)
  then have t: "takeWhile is_digit (b @ t) = b" "dropWhile is_digit (b @ t) = t"
    using takeWhile_digits [OF assms(4)] by auto
  have r: "takeWhile is_digit (a @ 46 # b @ t) = a" "dropWhile is_digit (a @ 46 # b @ t) = 46 # b @ t"
    using takeWhile_digits [OF assms(1), of "46 # b @ t"] by (auto simp: is_digit_def)
  show ?thesis using assms(2,3,5,6) unfolding json_decimal_def Let_def r starts_def list.sel t by auto
qed

lemma json_decimal_digits_str:
  assumes ds: "list_all is_digit ds" "ds \<noteq> []" "hd ds \<noteq> 48"
  shows "json_decimal (digits_str ds n)"
proof -
  let ?k = "int (length ds)"
  consider (pad) "?k \<le> n" "n \<le> 21" | (mid) "\<not> ?k \<le> n" "0 < n" "n \<le> 21"
    | (zero) "\<not> ?k \<le> n" "- 6 < n" "n \<le> 0" | (exp) "21 < n \<or> n \<le> - 6" by linarith
  then show ?thesis
  proof cases
    case pad
    then have "digits_str ds n = (ds @ replicate (nat (n - ?k)) 48) @ []" by (simp add: digits_str_def)
    moreover have "list_all is_digit (ds @ replicate (nat (n - ?k)) 48)"
      using ds by (auto simp: list_all_iff is_digit_def)
    ultimately show ?thesis
      using json_decimal_whole [of "ds @ replicate (nat (n - ?k)) 48" "[]"] ds(2,3) by simp
  next
    case mid
    then have "digits_str ds n = take (nat n) ds @ 46 # drop (nat n) ds @ []" by (simp add: digits_str_def)
    moreover have "list_all is_digit (take (nat n) ds)" "list_all is_digit (drop (nat n) ds)"
      using ds by (auto simp: list_all_iff dest: in_set_takeD in_set_dropD)
    ultimately show ?thesis
      using json_decimal_point [of "take (nat n) ds" "drop (nat n) ds" "[]"] ds(2,3) mid by simp
  next
    case zero
    then have "digits_str ds n = [48] @ 46 # (replicate (nat (- n)) 48 @ ds) @ []" by (simp add: digits_str_def)
    moreover have "list_all is_digit (replicate (nat (- n)) 48 @ ds)" "list_all is_digit [48]"
      using ds by (auto simp: list_all_iff is_digit_def)
    ultimately show ?thesis
      using json_decimal_point [of "[48]" "replicate (nat (- n)) 48 @ ds" "[]"] ds(2) by simp
  next
    case exp
    define x where "x = (if 0 < n then [43] @ dec (nat (n - 1)) else [45] @ dec (nat (1 - n)))"
    have e: "read_exponent x \<noteq> None" by (auto simp: x_def read_exponent_dec)
    obtain d es where des: "ds = d # es" using ds(2) by (cases ds) auto
    show ?thesis
    proof (cases es)
      case Nil
      then have "digits_str ds n = ds @ 101 # x" using exp des by (auto simp: digits_str_def x_def)
      then show ?thesis using json_decimal_whole [OF ds(1,2), of "101 # x"] e ds(3) by simp
    next
      case (Cons f fs)
      then have "digits_str ds n = [d] @ 46 # es @ 101 # x" using exp des by (auto simp: digits_str_def x_def)
      then show ?thesis using json_decimal_point [of "[d]" es "101 # x"] e ds des Cons by simp
    qed
  qed
qed

text \<open>The numbers JSON can carry, and the shape of their text.\<close>

fun json_num :: "jsnum \<Rightarrow> bool" where
  "json_num (Fin q) \<longleftrightarrow> is_double (Fin q)"
| "json_num _ \<longleftrightarrow> False"

interpretation number_text: text_codec num_str str_num "\<lambda>x. x" json_num
proof
  fix x
  assume "json_num x"
  then show "str_num (num_str x) = x" using num_str_read [of x] by (cases x) auto
qed

definition minus_free :: "jstr \<Rightarrow> jstr" where
  "minus_free s = (if starts 45 s then tl s else s)"

lemma num_str_shape:
  assumes "json_num x"
  shows "num_str x \<noteq> []" "hd (num_str x) = 45 \<or> is_digit (hd (num_str x))"
    "list_all is_num_char (num_str x)" "json_decimal (minus_free (num_str x))"
proof -
  have pos: "s \<noteq> [] \<and> is_digit (hd s) \<and> list_all is_num_char s \<and> json_decimal s"
    if s: "s = case_prod digits_str (num_digits q)" and q: "is_double (Fin q)" "0 < q" for q s
  proof -
    obtain ds n where nd: "num_digits q = (ds, n)" by (cases "num_digits q")
    have d: "list_all is_digit ds" "ds \<noteq> []" "hd ds \<noteq> 48"
      using num_digits_value [OF q nd] num_digits_hd [OF q nd] by auto
    have "set s \<subseteq> {c. is_digit c} \<union> {43, 45, 46, 101}" using digits_str_chars [OF d(1)] s nd by simp
    then have "list_all is_num_char s" by (auto simp: list_all_iff is_num_char_def)
    then show ?thesis
      using digits_str_ends [OF d(1,2)] json_decimal_digits_str [OF d] s nd by simp
  qed
  obtain q where x: "x = Fin q" "is_double (Fin q)" using assms by (cases x) auto
  consider "q = 0" | "0 < q" | "0 < - q" by fastforce
  then have "num_str x \<noteq> [] \<and> (hd (num_str x) = 45 \<or> is_digit (hd (num_str x))) \<and>
    list_all is_num_char (num_str x) \<and> json_decimal (minus_free (num_str x))"
  proof cases
    case 1
    then show ?thesis using x json_decimal_whole [of "[48]" "[]"]
      by (simp add: is_digit_def is_num_char_def minus_free_def starts_def)
  next
    case 2
    then show ?thesis using x pos [OF _ x(2) 2]
      by (auto simp: minus_free_def starts_def is_digit_def)
  next
    case 3
    have "to_double (- q) = num_neg (to_double q)" using 3 by (intro to_double_uminus) auto
    then have "is_double (Fin (- q))" using x(2) 3 by simp
    then show ?thesis using x(1) pos [OF _ _ 3] 3
      by (simp add: minus_free_def starts_def is_num_char_def)
  qed
  then show "num_str x \<noteq> []" "hd (num_str x) = 45 \<or> is_digit (hd (num_str x))"
    "list_all is_num_char (num_str x)" "json_decimal (minus_free (num_str x))" by auto
qed

definition stops :: "jstr \<Rightarrow> bool" where
  "stops r \<longleftrightarrow> r = [] \<or> \<not> is_num_char (hd r)"

lemma parse_number_print:
  assumes "json_num x" and "stops r"
  shows "parse_number (num_str x @ r) = Some (JNum x, r)"
proof -
  have t: "takeWhile is_num_char (num_str x @ r) = num_str x" "dropWhile is_num_char (num_str x @ r) = r"
    using num_str_shape(3) [OF assms(1)] assms(2) by (cases r; auto simp: stops_def list_all_iff takeWhile_append dropWhile_append)+
  have "str_num (num_str x) = x" using assms(1) by (rule number_text.read_shown)
  then show ?thesis using num_str_shape(4) [OF assms(1)] by (simp add: parse_number_def t Let_def minus_free_def)
qed

section \<open>Values read back\<close>

fun json_wf :: "json \<Rightarrow> bool" where
  "json_wf JNull \<longleftrightarrow> True"
| "json_wf (JBool b) \<longleftrightarrow> True"
| "json_wf (JNum x) \<longleftrightarrow> json_num x"
| "json_wf (JStr s) \<longleftrightarrow> utf16 s"
| "json_wf (JArr xs) \<longleftrightarrow> (\<forall>x \<in> set xs. json_wf x)"
| "json_wf (JObj ps) \<longleftrightarrow> obj_of ps = ps \<and> (\<forall>(k, v) \<in> set ps. utf16 k \<and> json_wf v)"

definition value_start :: "nat \<Rightarrow> bool" where
  "value_start c \<longleftrightarrow> c \<in> {34, 45, 91, 102, 110, 116, 123} \<or> is_digit c"

lemma value_start_props:
  "value_start c \<Longrightarrow> \<not> is_json_ws c \<and> c \<noteq> 93 \<and> c \<noteq> 125"
  by (auto simp: value_start_def is_json_ws_def is_digit_def)

lemma json_str_start: "json_wf j \<Longrightarrow> \<exists>c t. json_str j = c # t \<and> value_start c"
proof (cases j)
  case (JNum x)
  assume "json_wf j"
  then have "json_num x" using JNum by simp
  moreover from this have "json_number x = num_str x" by (cases x) auto
  ultimately show ?thesis using num_str_shape(1,2) [of x] JNum
    by (cases "num_str x") (auto simp: value_start_def)
qed (auto simp: value_start_def json_quote_def)

lemma skip_start: "value_start c \<Longrightarrow> skip (c # t) = c # t"
  by (simp add: skip_def value_start_props)

lemma skip_json: "json_wf j \<Longrightarrow> skip (json_str j @ r) = json_str j @ r"
  using json_str_start skip_start by fastforce

lemma skip_fixed [simp]:
  "skip (93 # r) = 93 # r" "skip (125 # r) = 125 # r" "skip (44 # r) = 44 # r" "skip (58 # r) = 58 # r"
  "skip (34 # r) = 34 # r" "skip [] = []"
  by (simp_all add: skip_def is_json_ws_def)

lemma stops_fixed [simp]: "stops []" "stops (93 # r)" "stops (125 # r)" "stops (44 # r)"
  by (simp_all add: stops_def is_num_char_def is_digit_def)

lemma parse_value_number:
  assumes "json_num x" and "stops r"
  shows "parse_value (Suc n) (json_str (JNum x) @ r) = Some (JNum x, r)"
proof -
  have jn: "json_str (JNum x) = num_str x" using assms(1) by (cases x) auto
  obtain c t where ct: "num_str x = c # t" "c = 45 \<or> is_digit c"
    using num_str_shape(1,2) [OF assms(1)] by (cases "num_str x") auto
  then have "c \<noteq> 34" "c \<noteq> 91" "c \<noteq> 123" "c \<noteq> 110" "c \<noteq> 116" "c \<noteq> 102" by (auto simp: is_digit_def)
  then show ?thesis using parse_number_print [OF assms] ct(1) jn by simp
qed

definition reads_back :: "json \<Rightarrow> bool" where
  "reads_back j \<longleftrightarrow> (\<forall>n r. stops r \<longrightarrow> 2 * length (json_str j) + 1 \<le> n \<longrightarrow>
     parse_value n (json_str j @ r) = Some (j, r))"

lemma reads_backD:
  "reads_back j \<Longrightarrow> stops r \<Longrightarrow> 2 * length (json_str j) + 1 \<le> n \<Longrightarrow> parse_value n (json_str j @ r) = Some (j, r)"
  by (simp add: reads_back_def)

lemma parse_elems_print:
  "xs \<noteq> [] \<Longrightarrow> \<forall>x \<in> set xs. json_wf x \<and> reads_back x \<Longrightarrow>
   2 * length (js_join [44] (map json_str xs)) + 2 \<le> n \<Longrightarrow>
   parse_elems n (js_join [44] (map json_str xs) @ 93 # r) = Some (xs, r)"
proof (induction xs arbitrary: n)
  case (Cons x xs)
  obtain m where n: "n = Suc m" using Cons.prems(3) by (cases n) auto
  show ?case
  proof (cases xs)
    case Nil
    then show ?thesis using Cons.prems n by (simp add: reads_back_def)
  next
    case (Cons y ys)
    let ?rest = "js_join [44] (map json_str xs) @ 93 # r"
    have j: "js_join [44] (map json_str (x # xs)) = json_str x @ 44 # js_join [44] (map json_str xs)"
      using Cons by simp
    have b: "2 * (length (json_str x) + Suc (length (js_join [44] (map json_str xs)))) + 1 \<le> m"
      using Cons.prems(3) n unfolding j by simp
    then have "parse_value m (json_str x @ 44 # ?rest) = Some (x, 44 # ?rest)"
      using Cons.prems(2) by (intro reads_backD) simp_all
    moreover have "skip ?rest = ?rest"
      using skip_json [of y] Cons Cons.prems(2) by (cases ys) auto
    moreover have "parse_elems m ?rest = Some (xs, r)"
      using Cons.IH [of m] Cons.prems(2) Cons b by simp
    ultimately show ?thesis unfolding j n by simp
  qed
qed simp

lemma parse_members_print:
  "ps \<noteq> [] \<Longrightarrow> \<forall>(k, v) \<in> set ps. utf16 k \<and> json_wf v \<and> reads_back v \<Longrightarrow>
   2 * length (js_join [44] (map (\<lambda>(k, v). json_quote k @ [58] @ json_str v) ps)) + 2 \<le> n \<Longrightarrow>
   parse_members n (js_join [44] (map (\<lambda>(k, v). json_quote k @ [58] @ json_str v) ps) @ 125 # r) = Some (ps, r)"
proof (induction ps arbitrary: n)
  case (Cons p ps)
  obtain m where n: "n = Suc m" using Cons.prems(3) by (cases n) auto
  obtain k v where p: "p = (k, v)" by (cases p)
  let ?m = "\<lambda>(k, v). json_quote k @ [58] @ json_str v"
  have kv: "utf16 k" "json_wf v" "reads_back v" using Cons.prems(2) p by auto
  have pq: "json_quote k @ t = 34 # (quote_chars k @ 34 # t)" for t by (simp add: json_quote_def)
  show ?case
  proof (cases ps)
    case Nil
    then have "parse_value m (json_str v @ 125 # r) = Some (v, 125 # r)"
      using Cons.prems(3) n p kv(3) by (simp add: reads_back_def)
    then show ?thesis
      using Nil n p kv by (simp add: pq parse_str_quoted skip_json)
  next
    case (Cons q qs)
    let ?rest = "js_join [44] (map ?m ps) @ 125 # r"
    have j: "js_join [44] (map ?m (p # ps)) = json_quote k @ 58 # json_str v @ 44 # js_join [44] (map ?m ps)"
      using Cons p by simp
    have b: "2 * (length (json_str v) + Suc (length (js_join [44] (map ?m ps)))) + 1 \<le> m"
      using Cons.prems(3) n unfolding j by simp
    then have "parse_value m (json_str v @ 44 # ?rest) = Some (v, 44 # ?rest)"
      by (intro reads_backD kv) simp_all
    moreover have "skip ?rest = ?rest" using Cons by (cases q; cases qs) (simp_all add: json_quote_def)
    moreover have "parse_members m ?rest = Some (ps, r)"
      using Cons.IH [of m] Cons.prems(2) Cons b by simp
    ultimately show ?thesis using kv p unfolding j n by (simp add: pq parse_str_quoted skip_json)
  qed
qed simp

lemma parse_value_literals:
  "0 < n \<Longrightarrow> parse_value n (110 # 117 # 108 # 108 # r) = Some (JNull, r)"
  "0 < n \<Longrightarrow> parse_value n (116 # 114 # 117 # 101 # r) = Some (JBool True, r)"
  "0 < n \<Longrightarrow> parse_value n (102 # 97 # 108 # 115 # 101 # r) = Some (JBool False, r)"
  by (cases n; simp)+

lemma json_reads_back: "json_wf j \<Longrightarrow> reads_back j"
proof (induction j)
  case (JArr xs)
  show ?case unfolding reads_back_def
  proof (intro allI impI)
    fix n r assume n: "2 * length (json_str (JArr xs)) + 1 \<le> n"
    then obtain m where m: "n = Suc m" by (cases n) auto
    show "parse_value n (json_str (JArr xs) @ r) = Some (JArr xs, r)"
    proof (cases xs)
      case Nil
      then show ?thesis by (simp add: m)
    next
      case (Cons x ys)
      let ?body = "js_join [44] (map json_str xs) @ 93 # r"
      have wf: "\<forall>x \<in> set xs. json_wf x \<and> reads_back x" using JArr by auto
      then obtain c t where ct: "json_str x = c # t" "value_start c" using Cons json_str_start [of x] by auto
      obtain u where u: "?body = c # u" using Cons ct(1) by (cases ys) auto
      have "parse_elems m ?body = Some (xs, r)"
        by (rule parse_elems_print) (use Cons wf n m in auto)
      then show ?thesis
        using ct(2) value_start_props [OF ct(2)] by (simp add: m u skip_start)
    qed
  qed
next
  case (JObj ps)
  let ?m = "\<lambda>(k, v). json_quote k @ [58] @ json_str v"
  show ?case unfolding reads_back_def
  proof (intro allI impI)
    fix n r assume n: "2 * length (json_str (JObj ps)) + 1 \<le> n"
    then obtain m where m: "n = Suc m" by (cases n) auto
    show "parse_value n (json_str (JObj ps) @ r) = Some (JObj ps, r)"
    proof (cases ps)
      case Nil
      then show ?thesis by (simp add: m)
    next
      case (Cons p qs)
      let ?body = "js_join [44] (map ?m ps) @ 125 # r"
      have wf: "\<forall>(k, v) \<in> set ps. utf16 k \<and> json_wf v \<and> reads_back v"
        using JObj by fastforce
      obtain u where u: "?body = 34 # u" using Cons by (cases p; cases qs) (auto simp: json_quote_def)
      have "parse_members m ?body = Some (ps, r)"
        by (rule parse_members_print) (use Cons wf n m in auto)
      then show ?thesis using JObj.prems u by (simp add: m json_obj_def)
    qed
  qed
next
  case (JStr s)
  show ?case unfolding reads_back_def
  proof (intro allI impI)
    fix n r assume "2 * length (json_str (JStr s)) + 1 \<le> n"
    then show "parse_value n (json_str (JStr s) @ r) = Some (JStr s, r)"
      using JStr by (cases n) (simp_all add: json_quote_def parse_str_quoted)
  qed
next
  case (JNum x)
  show ?case unfolding reads_back_def
  proof (intro allI impI)
    fix n r assume "stops r" and "2 * length (json_str (JNum x)) + 1 \<le> n"
    then show "parse_value n (json_str (JNum x) @ r) = Some (JNum x, r)"
      using parse_value_number [of x r] JNum by (cases n) (simp_all del: parse_value.simps json_str.simps)
  qed
qed (auto simp: reads_back_def parse_value_literals)

text \<open>The main fact: printing and parsing round trip.\<close>

theorem json_roundtrip: "json_wf j \<Longrightarrow> json_parse (json_str j) = Some j"
proof -
  assume wf: "json_wf j"
  then have "parse_value (2 * length (json_str j) + 2) (json_str j @ []) = Some (j, [])"
    by (intro reads_backD json_reads_back) simp_all
  moreover have "skip (json_str j) = json_str j" using skip_json [OF wf, of "[]"] by simp
  ultimately show ?thesis by (simp add: json_parse_def del: parse_value.simps)
qed

interpretation json_text: text_codec json_str json_parse Some json_wf
  by unfold_locales (simp_all add: json_roundtrip)

section \<open>The fuel is enough\<close>

lemma length_skip: "length (skip s) \<le> length s"
  by (simp add: skip_def length_dropWhile_le)

lemma skip_Cons: "skip s = c # t \<Longrightarrow> length t < length s"
  using length_skip [of s] by simp

lemma parse_str_shorter: "parse_str s = Some (x, r) \<Longrightarrow> length r < length s"
proof (induction s arbitrary: x rule: measure_induct_rule [of length])
  case (less s)
  have IH: "length r < length t" if "parse_str t = Some (y, r)" "length t < length s" for t y
    using less.IH [OF that(2,1)] .
  show ?case
  proof (cases s)
    case Nil
    then show ?thesis using less.prems by (simp add: parse_str.simps [of "[]"])
  next
    case (Cons c t)
    have d: "length (drop 4 u) < length s \<and> length u < length s" if "t = e # u" for e u
      using Cons that by simp
    from less.prems consider "r = t" | y where "parse_str t = Some (y, r)"
      | e u y where "t = e # u" "parse_str u = Some (y, r)" | e u y where "t = e # u" "parse_str (drop 4 u) = Some (y, r)"
      unfolding Cons parse_str.simps [of "c # t"]
      by (auto split: if_splits list.splits option.splits)
    then show ?thesis
    proof cases
      case 2
      then show ?thesis using IH [OF 2] Cons by simp
    next
      case 3
      then show ?thesis using IH [OF 3(2)] d [OF 3(1)] by simp
    next
      case 4
      then show ?thesis using IH [OF 4(2)] d [OF 4(1)] by simp
    qed (simp add: Cons)
  qed
qed

lemma parse_number_shorter:
  assumes "parse_number s = Some (v, r)"
  shows "length r < length s"
proof -
  have "takeWhile is_num_char s \<noteq> []" and r: "r = dropWhile is_num_char s"
    using assms by (auto simp: parse_number_def Let_def json_decimal_def starts_def split: if_splits)
  moreover have "length s = length (takeWhile is_num_char s) + length (dropWhile is_num_char s)"
    by (metis length_append takeWhile_dropWhile_id)
  ultimately show ?thesis by simp
qed

lemma parse_value_step_shorter:
  assumes elems: "\<And>s vs r. parse_elems n s = Some (vs, r) \<Longrightarrow> length r < length s"
    and members: "\<And>s ps r. parse_members n s = Some (ps, r) \<Longrightarrow> length r < length s"
    and p: "parse_value (Suc n) s = Some (v, r)"
  shows "length r < length s"
proof (cases s)
  case (Cons c t)
  have "\<exists>x. parse_str t = Some (x, r)" if "c = 34" using p that Cons by auto
  then have str: ?thesis if "c = 34" using that parse_str_shorter Cons by fastforce
  have arr: ?thesis if c: "c = 91"
  proof (cases "skip t")
    case (Cons d u)
    then have "r = u \<or> (\<exists>vs. parse_elems n (d # u) = Some (vs, r))"
      using p c \<open>s = c # t\<close> by (auto split: if_splits)
    then show ?thesis using elems [of "d # u"] length_skip [of t] Cons \<open>s = c # t\<close> by fastforce
  qed (use p c \<open>s = c # t\<close> in simp)
  have obj: ?thesis if c: "c = 123"
  proof (cases "skip t")
    case (Cons d u)
    then have "r = u \<or> (\<exists>ps. parse_members n (d # u) = Some (ps, r))"
      using p c \<open>s = c # t\<close> by (auto split: if_splits)
    then show ?thesis using members [of "d # u"] length_skip [of t] Cons \<open>s = c # t\<close> by fastforce
  qed (use p c \<open>s = c # t\<close> in simp)
  have lit: ?thesis if "c \<noteq> 34" "c \<noteq> 91" "c \<noteq> 123"
    using p that Cons parse_number_shorter [of s v r] by (auto split: if_splits)
  show ?thesis using str arr obj lit by blast
qed (use p in simp)

lemma parse_elems_step_shorter:
  assumes "\<And>s v r. parse_value n s = Some (v, r) \<Longrightarrow> length r < length s"
    and "\<And>s vs r. parse_elems n s = Some (vs, r) \<Longrightarrow> length r < length s"
    and p: "parse_elems (Suc n) s = Some (vs, r)"
  shows "length r < length s"
proof -
  obtain v u where v: "parse_value n s = Some (v, u)" using p by (auto split: option.splits)
  then obtain c t where t: "skip u = c # t" using p by (cases "skip u") auto
  then have "r = t \<or> (\<exists>ws. parse_elems n (skip t) = Some (ws, r))"
    using p v by (auto split: if_splits)
  then show ?thesis
    using assms(1) [OF v] assms(2) [of "skip t"] length_skip [of t] skip_Cons [OF t] by fastforce
qed

lemma parse_members_step_shorter:
  assumes "\<And>s v r. parse_value n s = Some (v, r) \<Longrightarrow> length r < length s"
    and "\<And>s ps r. parse_members n s = Some (ps, r) \<Longrightarrow> length r < length s"
    and p: "parse_members (Suc n) s = Some (ps, r)"
  shows "length r < length s"
proof -
  obtain c t where s: "s = c # t" using p by (cases s) auto
  obtain k u where k: "parse_str t = Some (k, u)" using p s by (auto split: option.splits if_splits)
  then obtain d w where w: "skip u = d # w" using p s by (cases "skip u") (auto split: if_splits)
  then obtain v x where v: "parse_value n (skip w) = Some (v, x)"
    using p s k by (auto split: option.splits if_splits)
  then obtain e y where y: "skip x = e # y" using p s k w by (cases "skip x") (auto split: if_splits)
  have "r = y \<or> (\<exists>qs. parse_members n (skip y) = Some (qs, r))"
    using p s k w v y by (auto split: if_splits)
  moreover have "length y < length s"
    using parse_str_shorter [OF k] skip_Cons [OF w] assms(1) [OF v] length_skip [of w] skip_Cons [OF y] s by simp
  ultimately show ?thesis using assms(2) [of "skip y"] length_skip [of y] by fastforce
qed

lemma parse_shorter:
  "(\<forall>s v r. parse_value n s = Some (v, r) \<longrightarrow> length r < length s) \<and>
   (\<forall>s vs r. parse_elems n s = Some (vs, r) \<longrightarrow> length r < length s) \<and>
   (\<forall>s ps r. parse_members n s = Some (ps, r) \<longrightarrow> length r < length s)"
proof (induction n)
  case (Suc n)
  then show ?case
    using parse_value_step_shorter [of n] parse_elems_step_shorter [of n] parse_members_step_shorter [of n] by meson
qed simp

lemma parse_value_step_fuel:
  assumes "\<And>s. 2 * length s + 2 \<le> n \<Longrightarrow> parse_elems (Suc n) s = parse_elems n s"
    and "\<And>s. 2 * length s + 2 \<le> n \<Longrightarrow> parse_members (Suc n) s = parse_members n s"
    and n: "2 * length s + 1 \<le> Suc n"
  shows "parse_value (Suc (Suc n)) s = parse_value (Suc n) s"
proof (cases s)
  case (Cons c t)
  show ?thesis
  proof (cases "skip t")
    case Nil
    then show ?thesis using \<open>s = c # t\<close> by (simp only: parse_value.simps list.case)
  next
    case (Cons d u)
    then have "2 * length (d # u) + 2 \<le> n" using length_skip [of t] n \<open>s = c # t\<close> by simp
    then have "parse_elems (Suc n) (d # u) = parse_elems n (d # u)"
      "parse_members (Suc n) (d # u) = parse_members n (d # u)" using assms(1,2) by blast+
    then show ?thesis using \<open>s = c # t\<close> Cons by (simp only: parse_value.simps list.case)
  qed
qed (simp only: parse_value.simps list.case)

lemma parse_elems_step_fuel:
  assumes "\<And>s. 2 * length s + 1 \<le> n \<Longrightarrow> parse_value (Suc n) s = parse_value n s"
    and "\<And>s. 2 * length s + 2 \<le> n \<Longrightarrow> parse_elems (Suc n) s = parse_elems n s"
    and n: "2 * length s + 2 \<le> Suc n"
  shows "parse_elems (Suc (Suc n)) s = parse_elems (Suc n) s"
proof -
  have v: "parse_value (Suc n) s = parse_value n s" using assms(1) n by simp
  show ?thesis
  proof (cases "parse_value n s")
    case (Some vr)
    then obtain w r where vr: "parse_value n s = Some (w, r)" by (cases vr) auto
    then have r: "length r < length s" using parse_shorter [of n] by blast
    show ?thesis
    proof (cases "skip r")
      case (Cons c t)
      have "2 * length (skip t) + 2 \<le> n" using r skip_Cons [OF Cons] length_skip [of t] n by simp
      then show ?thesis using assms(2) v vr Cons by (simp only: parse_elems.simps option.case prod.case list.case)
    qed (use v vr in \<open>simp only: parse_elems.simps option.case prod.case list.case\<close>)
  qed (use v in \<open>simp only: parse_elems.simps option.case\<close>)
qed

lemma parse_members_step_fuel:
  assumes "\<And>s. 2 * length s + 1 \<le> n \<Longrightarrow> parse_value (Suc n) s = parse_value n s"
    and "\<And>s. 2 * length s + 2 \<le> n \<Longrightarrow> parse_members (Suc n) s = parse_members n s"
    and n: "2 * length s + 2 \<le> Suc n"
  shows "parse_members (Suc (Suc n)) s = parse_members (Suc n) s"
proof (cases s)
  case (Cons c t)
  note defs = parse_members.simps option.case prod.case list.case
  show ?thesis
  proof (cases "parse_str t")
    case (Some ku)
    then obtain k u where ku: "parse_str t = Some (k, u)" by (cases ku) auto
    have u: "length u < length t" using parse_str_shorter [OF ku] .
    show ?thesis
    proof (cases "skip u")
      case (Cons d w)
      have w: "length (skip w) < length t" using u skip_Cons [OF Cons] length_skip [of w] by simp
      then have v: "parse_value (Suc n) (skip w) = parse_value n (skip w)"
        using assms(1) n \<open>s = c # t\<close> by simp
      show ?thesis
      proof (cases "parse_value n (skip w)")
        case (Some vx)
        then obtain v' x where vx: "parse_value n (skip w) = Some (v', x)" by (cases vx) auto
        then have x: "length x < length (skip w)" using parse_shorter [of n] by blast
        show ?thesis
        proof (cases "skip x")
          case (Cons e y)
          have "2 * length (skip y) + 2 \<le> n"
            using x w skip_Cons [OF Cons] length_skip [of y] n \<open>s = c # t\<close> by simp
          then show ?thesis using assms(2) v vx Cons ku \<open>skip u = d # w\<close> \<open>s = c # t\<close> by (simp only: defs)
        qed (use v vx ku \<open>skip u = d # w\<close> \<open>s = c # t\<close> in \<open>simp only: defs\<close>)
      qed (use v ku \<open>skip u = d # w\<close> \<open>s = c # t\<close> in \<open>simp only: defs\<close>)
    qed (use ku \<open>s = c # t\<close> in \<open>simp only: defs\<close>)
  qed (use \<open>s = c # t\<close> in \<open>simp only: defs\<close>)
qed (simp only: parse_members.simps list.case)

lemma parse_fuel:
  "(\<forall>s. 2 * length s + 1 \<le> n \<longrightarrow> parse_value (Suc n) s = parse_value n s) \<and>
   (\<forall>s. 2 * length s + 2 \<le> n \<longrightarrow> parse_elems (Suc n) s = parse_elems n s) \<and>
   (\<forall>s. 2 * length s + 2 \<le> n \<longrightarrow> parse_members (Suc n) s = parse_members n s)"
proof (induction n)
  case (Suc n)
  then show ?case
    using parse_value_step_fuel [of n] parse_elems_step_fuel [of n] parse_members_step_fuel [of n] by meson
qed simp

text \<open>More fuel than \<open>json_parse\<close> uses changes nothing, so running out of fuel is never the reason
  for a refusal.\<close>

theorem parse_fuel_enough:
  "2 * length s + 1 \<le> n \<Longrightarrow> n \<le> m \<Longrightarrow> parse_value m s = parse_value n s"
proof (induction m)
  case (Suc m)
  show ?case
  proof (cases "n = Suc m")
    case False
    then have "n \<le> m" using Suc.prems(2) by simp
    then have "parse_value (Suc m) s = parse_value m s" using parse_fuel [of m] Suc.prems(1) by simp
    then show ?thesis using Suc.IH [OF Suc.prems(1) \<open>n \<le> m\<close>] by (simp only:)
  qed simp
qed simp

section \<open>Dynamic values\<close>

text \<open>The truth value of a parsed value.\<close>

fun json_truthy :: "json \<Rightarrow> bool" where
  "json_truthy JNull = False"
| "json_truthy (JBool b) = b"
| "json_truthy (JNum x) = num_truthy x"
| "json_truthy (JStr s) = (s \<noteq> [])"
| "json_truthy _ = True"

text \<open>\<^verbatim>\<open>String(v)\<close> and template literals.  An array joins its elements, with nothing for null.  An
  object with an own \<^verbatim>\<open>toString\<close> (which after parsing is not a function) cannot be converted: the
  conversion raises, here \<open>None\<close>.\<close>

fun join_opts :: "jstr option list \<Rightarrow> jstr option" where
  "join_opts [] = Some []"
| "join_opts [x] = x"
| "join_opts (x # y # xs) =
     (case x of None \<Rightarrow> None | Some a \<Rightarrow> map_option (\<lambda>b. a @ [44] @ b) (join_opts (y # xs)))"

fun json_string :: "json \<Rightarrow> jstr option" where
  "json_string JNull = Some (js ''null'')"
| "json_string (JBool b) = Some (if b then js ''true'' else js ''false'')"
| "json_string (JNum x) = Some (num_str x)"
| "json_string (JStr s) = Some s"
| "json_string (JArr xs) = join_opts (map (\<lambda>x. if x = JNull then Some [] else json_string x) xs)"
| "json_string (JObj ps) =
     (if js ''toString'' \<in> fst ` set ps then None else Some (js ''[object Object]''))"

text \<open>Reading a property: \<open>None\<close> is undefined.\<close>

definition oget :: "(jstr \<times> 'v) list \<Rightarrow> jstr \<Rightarrow> 'v option" where
  "oget ps k = map_of ps k"

section \<open>Objects as finite maps\<close>

lemma obj_insert_set [simp]: "set (obj_insert k v ps) = insert (k, v) (set ps)"
  by (induction ps) (auto split: if_splits)

lemma keys_obj_replace [simp]: "map fst (obj_replace k v ps) = map fst ps"
  by (induction k v ps rule: obj_replace.induct) auto

lemma key_set_obj_replace [simp]: "fst ` set (obj_replace k v ps) = fst ` set ps"
  by (metis keys_obj_replace list.set_map)

lemma obj_put_keys: "fst ` set (obj_put ps k v) = insert k (fst ` set ps)"
  by (auto simp: obj_put_def)

lemma distinct_obj_insert:
  "distinct (map fst ps) \<Longrightarrow> k \<notin> fst ` set ps \<Longrightarrow> distinct (map fst (obj_insert k v ps))"
proof (induction ps)
  case (Cons p ps)
  then show ?case by (cases p) (auto simp: image_iff)
qed simp

lemma distinct_obj_put [js_obj]: "distinct (map fst ps) \<Longrightarrow> distinct (map fst (obj_put ps k v))"
  by (simp add: obj_put_def distinct_obj_insert)

lemma oget_obj_insert: "k \<notin> fst ` set ps \<Longrightarrow> oget (obj_insert k v ps) k' = (if k' = k then Some v else oget ps k')"
  unfolding oget_def
proof (induction ps)
  case (Cons p ps)
  then show ?case by (cases p) auto
qed simp

lemma oget_obj_replace:
  "k \<in> fst ` set ps \<Longrightarrow> oget (obj_replace k v ps) k' = (if k' = k then Some v else oget ps k')"
  unfolding oget_def
proof (induction ps)
  case (Cons p ps)
  then show ?case by (cases p) force
qed simp

lemma oget_obj_put [js_obj]: "oget (obj_put ps k v) k' = (if k' = k then Some v else oget ps k')"
  by (simp add: obj_put_def oget_obj_insert oget_obj_replace)

lemma oget_eq_None [js_obj]: "oget ps k = None \<longleftrightarrow> k \<notin> fst ` set ps"
  by (simp add: oget_def map_of_eq_None_iff)

lemma oget_Nil [simp]: "oget [] k = None"
  by (simp add: oget_def)

lemma oget_Cons [simp]: "oget ((k', v) # ps) k = (if k = k' then Some v else oget ps k)"
  by (simp add: oget_def)

lemma distinct_obj_of: "distinct (map fst (obj_of ps))"
proof -
  have "distinct (map fst (foldl (\<lambda>acc (k, v). obj_put acc k v) acc ps))"
    if "distinct (map fst acc)" for acc :: "(jstr \<times> 'a) list"
    using that by (induction ps arbitrary: acc) (auto simp: distinct_obj_put)
  then show ?thesis by (simp add: obj_of_def)
qed

lemma set_obj_replace: "set (obj_replace k v ps) \<subseteq> insert (k, v) (set ps)"
  by (induction k v ps rule: obj_replace.induct) auto

lemma set_obj_put: "set (obj_put ps k v) \<subseteq> insert (k, v) (set ps)"
  using set_obj_replace [of k v ps] by (simp add: obj_put_def)

text \<open>Canonical indices are determined by their value.\<close>

lemma digits_val_pos: "list_all is_digit a \<Longrightarrow> a \<noteq> [] \<Longrightarrow> hd a \<noteq> 48 \<Longrightarrow> 0 < digits_val a"
proof (induction a rule: rev_induct)
  case (snoc d a)
  show ?case
  proof (cases "a = []")
    case True
    then show ?thesis using snoc.prems by (auto simp: digits_val_def is_digit_def)
  next
    case False
    then show ?thesis using snoc by (simp add: digits_val_snoc)
  qed
qed simp

lemma dec_digits_val:
  "list_all is_digit a \<Longrightarrow> a \<noteq> [] \<Longrightarrow> hd a \<noteq> 48 \<or> a = [48] \<Longrightarrow> dec (digits_val a) = a"
proof (induction a rule: rev_induct)
  case (snoc d a)
  obtain e where d: "d = 48 + e" "e < 10"
    using snoc.prems(1) by (auto simp: is_digit_def dest!: le_Suc_ex)
  show ?case
  proof (cases "a = []")
    case True
    then show ?thesis using d by (simp add: digits_val_def dec.simps)
  next
    case False
    then have hd: "hd a \<noteq> 48" using snoc.prems(3) by auto
    then have pos: "0 < digits_val a" using snoc.prems(1) False by (intro digits_val_pos) simp_all
    have IH: "dec (digits_val a) = a" using snoc False hd by simp
    have "dec (10 * digits_val a + e) = dec (digits_val a) @ [48 + e]"
      using pos d(2) by (subst dec.simps) simp
    then show ?thesis using IH d(1) by (simp add: digits_val_snoc)
  qed
qed simp

lemma dec_index: "is_index a \<Longrightarrow> dec (digits_val a) = a"
  unfolding is_index_def by (intro dec_digits_val) blast+

lemma index_inject: "is_index a \<Longrightarrow> is_index b \<Longrightarrow> digits_val a = digits_val b \<Longrightarrow> a = b"
  by (metis dec_index)

definition key_before :: "jstr \<Rightarrow> jstr \<Rightarrow> bool" where
  "key_before a b \<longleftrightarrow>
     is_index a \<and> (\<not> is_index b \<or> digits_val a < digits_val b) \<or> \<not> is_index a \<and> \<not> is_index b"

text \<open>The property lists that occur: distinct keys in enumeration order.\<close>

definition is_obj :: "(jstr \<times> 'v) list \<Rightarrow> bool" where
  "is_obj ps \<longleftrightarrow> distinct (map fst ps) \<and> sorted_wrt key_before (map fst ps)"

lemma is_obj_Nil [simp]: "is_obj []"
  by (simp add: is_obj_def)

lemma is_obj_insert:
  "is_obj ps \<Longrightarrow> k \<notin> fst ` set ps \<Longrightarrow> is_obj (obj_insert k v ps)"
proof (induction ps)
  case Nil
  then show ?case by (simp add: is_obj_def)
next
  case (Cons p ps)
  obtain k' v' where p: "p = (k', v')" by (cases p)
  have IH: "is_obj (obj_insert k v ps)" using Cons by (simp add: is_obj_def)
  have after: "\<forall>x \<in> fst ` set ps. key_before k' x" using Cons.prems(1) p by (simp add: is_obj_def)
  show ?case
  proof (cases "key_before k' k")
    case True
    then have "obj_insert k v (p # ps) = p # obj_insert k v ps" using p by (simp add: key_before_def)
    then show ?thesis using IH Cons.prems after True p by (auto simp: is_obj_def)
  next
    case False
    have "digits_val k' \<noteq> digits_val k" if "is_index k'" "is_index k"
      using index_inject [OF that] Cons.prems(2) p by auto
    then have kk: "key_before k k'" using False by (auto simp: key_before_def)
    then have "\<forall>x \<in> fst ` set ps. key_before k x" using after by (fastforce simp: key_before_def)
    moreover have "obj_insert k v (p # ps) = (k, v) # p # ps" using p False by (auto simp: key_before_def)
    ultimately show ?thesis using Cons.prems kk p by (auto simp: is_obj_def)
  qed
qed

lemma is_obj_put [js_obj]: "is_obj ps \<Longrightarrow> is_obj (obj_put ps k v)"
proof (cases "k \<in> fst ` set ps")
  case True
  assume "is_obj ps"
  with True show ?thesis by (simp add: obj_put_def is_obj_def)
qed (simp add: obj_put_def is_obj_insert)

lemma obj_insert_last: "\<forall>x \<in> fst ` set ps. key_before x k \<Longrightarrow> obj_insert k v ps = ps @ [(k, v)]"
proof (induction ps)
  case (Cons p ps)
  then show ?case by (cases p) (auto simp: key_before_def)
qed simp

lemma obj_of_is_obj: "is_obj ps \<Longrightarrow> obj_of ps = ps"
proof (induction ps rule: rev_induct)
  case (snoc p ps)
  obtain k v where p: "p = (k, v)" by (cases p)
  have "is_obj ps" using snoc.prems by (simp add: is_obj_def sorted_wrt_append)
  then have "obj_of (ps @ [p]) = obj_put ps k v" using p snoc.IH by (simp add: obj_of_def)
  moreover have "k \<notin> fst ` set ps" "\<forall>x \<in> fst ` set ps. key_before x k"
    using snoc.prems p by (auto simp: is_obj_def sorted_wrt_append)
  ultimately show ?case using p by (simp add: obj_put_def obj_insert_last)
qed (simp add: obj_of_def)

lemma is_obj_obj_of: "is_obj (obj_of ps)"
proof -
  have "is_obj (foldl (\<lambda>acc (k, v). obj_put acc k v) acc ps)" if "is_obj acc" for acc :: "(jstr \<times> 'a) list"
    using that by (induction ps arbitrary: acc) (auto simp: is_obj_put)
  then show ?thesis by (simp add: obj_of_def)
qed

lemma is_obj_map: "is_obj (map (apsnd f) ps) = is_obj ps"
proof -
  have "map fst (map (apsnd f) ps) = map fst ps" by simp
  then show ?thesis by (simp only: is_obj_def)
qed

text \<open>Adding keys that are not array indices appends them.\<close>

lemma obj_insert_append: "\<not> is_index k \<Longrightarrow> obj_insert k v ps = ps @ [(k, v)]"
  by (induction ps) auto

lemma obj_of_plain:
  "distinct (map fst ps) \<Longrightarrow> \<forall>k \<in> fst ` set ps. \<not> is_index k \<Longrightarrow> obj_of ps = ps"
proof (induction ps rule: rev_induct)
  case (snoc p ps)
  obtain k v where p: "p = (k, v)" by (cases p)
  have "obj_of (ps @ [p]) = obj_put (obj_of ps) k v" using p by (simp add: obj_of_def)
  then show ?case using snoc p by (simp add: obj_put_def obj_insert_append)
qed (simp add: obj_of_def)

section \<open>Reading and spreading parsed values\<close>

text \<open>The property \<^verbatim>\<open>k\<close> of a parsed object or array; the property names read here are not those of
  arrays.\<close>

fun jget :: "json \<Rightarrow> jstr \<Rightarrow> json option" where
  "jget (JObj ps) k = oget ps k"
| "jget _ k = None"

text \<open>\<^verbatim>\<open>Object.entries\<close> of a parsed value: it raises on null, and a string has one entry per
  code unit.\<close>

definition json_entries :: "json \<Rightarrow> (jstr \<times> json) list option" where
  "json_entries v =
     (case v of
        JNull \<Rightarrow> None
      | JObj ps \<Rightarrow> Some ps
      | JArr xs \<Rightarrow> Some (zip (map dec [0..<length xs]) xs)
      | JStr s \<Rightarrow> Some (zip (map dec [0..<length s]) (map (\<lambda>c. JStr [c]) s))
      | _ \<Rightarrow> Some [])"

text \<open>The properties \<^verbatim>\<open>{...v}\<close> copies: none for null.\<close>

definition spread_of :: "json \<Rightarrow> (jstr \<times> json) list" where
  "spread_of v = (case json_entries v of None \<Rightarrow> [] | Some es \<Rightarrow> es)"

definition spread_over :: "(jstr \<times> 'v) list \<Rightarrow> (jstr \<times> 'v) list \<Rightarrow> (jstr \<times> 'v) list" where
  "spread_over ps qs = foldl (\<lambda>m (k, v). obj_put m k v) ps qs"

lemma oget_foldl_put:
  "distinct (map fst ps) \<Longrightarrow>
   oget (foldl (\<lambda>m (k, v). obj_put m k v) m ps) k = (case oget ps k of Some v \<Rightarrow> Some v | None \<Rightarrow> oget m k)"
proof (induction ps arbitrary: m)
  case (Cons p ps)
  obtain k' v where p: "p = (k', v)" by (cases p)
  have "oget ps k' = None" using Cons.prems p by (simp add: oget_eq_None)
  then show ?case using Cons p by (auto simp: oget_obj_put split: option.split)
qed simp

lemma oget_map_apsnd: "oget (map (apsnd f) ps) k = map_option f (oget ps k)"
  by (induction ps) auto

lemma oget_in: "oget ps k = Some v \<Longrightarrow> (k, v) \<in> set ps"
  by (simp add: oget_def map_of_SomeD)

lemma obj_of_keys: "fst ` set (obj_of ps) = fst ` set ps"
proof -
  have "fst ` set (foldl (\<lambda>acc (k, v). obj_put acc k v) acc ps) = fst ` set acc \<union> fst ` set ps" for acc :: "(jstr \<times> 'a) list"
    by (induction ps arbitrary: acc) (simp_all add: obj_put_keys case_prod_beta)
  then show ?thesis by (simp add: obj_of_def)
qed

lemma is_obj_spread_over: "is_obj ps \<Longrightarrow> is_obj (spread_over ps qs)"
  unfolding spread_over_def by (induction qs arbitrary: ps) (auto simp: is_obj_put)

lemma json_parse_object: "json_parse s = Some (JObj ps) \<Longrightarrow> is_obj ps"
proof -
  have "is_obj ps" if "parse_value n t = Some (JObj ps, r)" for n t r
    using that is_obj_obj_of
    by (cases n) (auto simp: json_obj_def parse_number_def Let_def split: list.splits if_splits)
  then show "json_parse s = Some (JObj ps) \<Longrightarrow> is_obj ps"
    by (auto simp: json_parse_def simp del: parse_value.simps split: option.splits prod.splits if_splits)
qed

end
