(* ===== verification/Model_Mapping.thy ===== *)
theory Model_Mapping
  imports JSON
begin

text \<open>
  The model list and the model mapping of a channel:
  \<^verbatim>\<open>features/channels/lib/model-mapping-validation.ts\<close>.  A mapping is the text of a JSON object from
  the models a channel offers to the models it calls.
\<close>

section \<open>Model lists\<close>

definition parseModelsString :: "jstr \<Rightarrow> jstr list" where
  "parseModelsString modelsStr =
     (if modelsStr = [] then [] else filter (\<lambda>m. m \<noteq> []) (map js_trim (js_split 44 modelsStr)))"

definition formatModelsArray :: "jstr list \<Rightarrow> jstr" where
  "formatModelsArray models = js_join [44] (js_uniq models)"

definition normalizeModelName :: "jstr \<Rightarrow> jstr" where
  "normalizeModelName model = js_trim model"

section \<open>Reading a mapping\<close>

text \<open>What \<^verbatim>\<open>JSON.parse\<close> gives, if it is an object that is neither null nor an array.\<close>

definition parse_object :: "jstr \<Rightarrow> (jstr \<times> json) list option" where
  "parse_object s = (case json_parse s of Some (JObj ps) \<Rightarrow> Some ps | _ \<Rightarrow> None)"

definition extractMappingSourceModels :: "jstr \<Rightarrow> jstr list" where
  "extractMappingSourceModels modelMapping =
     (if js_trim modelMapping = [] then []
      else (case parse_object (js_trim modelMapping) of
         None \<Rightarrow> []
       | Some parsed \<Rightarrow> js_uniq (filter (\<lambda>key. key \<noteq> []) (map (\<lambda>(key, v). js_trim key) parsed))))"

definition redirectValue :: "json \<Rightarrow> jstr option" where
  "redirectValue v = (case v of JStr s \<Rightarrow> if js_trim s = [] then None else Some (js_trim s) | _ \<Rightarrow> None)"

definition extractRedirectModels :: "jstr \<Rightarrow> jstr list" where
  "extractRedirectModels modelMapping =
     (if js_trim modelMapping = [] then []
      else (case parse_object (js_trim modelMapping) of
         None \<Rightarrow> []
       | Some parsed \<Rightarrow> js_uniq (List.map_filter (\<lambda>(k, v). redirectValue v) parsed)))"

fun lists_differ :: "'a list \<Rightarrow> 'a list \<Rightarrow> bool" where
  "lists_differ (x # xs) (y # ys) = (if x \<noteq> y then True else lists_differ xs ys)"
| "lists_differ _ _ = False"

definition hasModelConfigChanged :: "jstr list \<Rightarrow> jstr \<Rightarrow> jstr list \<Rightarrow> jstr \<Rightarrow> bool" where
  "hasModelConfigChanged currentModels currentModelMapping initialModels initialModelMapping =
     (if length initialModels = 0 \<and> initialModelMapping = [] then True
      else if length currentModels \<noteq> length initialModels then True
      else if lists_differ currentModels initialModels then True
      else js_trim currentModelMapping \<noteq> js_trim initialModelMapping)"

definition findMissingModelsInMapping :: "jstr \<Rightarrow> jstr list \<Rightarrow> jstr list" where
  "findMissingModelsInMapping modelMapping currentModels =
     (if modelMapping = [] \<or> js_trim modelMapping = [] then []
      else (case parse_object modelMapping of
         None \<Rightarrow> []
       | Some parsedMapping \<Rightarrow>
           js_uniq (filter (\<lambda>key. key \<noteq> [] \<and> key \<notin> set (map normalizeModelName currentModels))
             (map (\<lambda>(key, v). normalizeModelName key) parsedMapping))))"

datatype validation = Valid | Invalid jstr

definition validateModelMappingJson :: "jstr \<Rightarrow> validation" where
  "validateModelMappingJson modelMapping =
     (if modelMapping = [] \<or> js_trim modelMapping = [] then Valid
      else (case json_parse modelMapping of
         None \<Rightarrow> Invalid (js ''Model mapping must be valid JSON format'')
       | Some (JObj ps) \<Rightarrow> Valid
       | Some _ \<Rightarrow> Invalid (js ''Model mapping must be a valid JSON object'')))"

definition findExposedTargetModels :: "jstr \<Rightarrow> jstr list \<Rightarrow> jstr list" where
  "findExposedTargetModels modelMapping currentModels =
     (if extractRedirectModels modelMapping = [] then []
      else filter (\<lambda>m. normalizeModelName m \<in> set (map normalizeModelName currentModels))
        (extractRedirectModels modelMapping))"

record Categories =
  normalizedCurrentModels :: "jstr list"
  normalizedRedirectModels :: "jstr list"
  classificationSet :: "jstr list"
  redirectOnlySet :: "jstr list"

text \<open>The non-empty normalised names, each once.\<close>

definition normalizedSet :: "jstr list \<Rightarrow> jstr list" where
  "normalizedSet models = js_uniq (filter (\<lambda>m. m \<noteq> []) (map normalizeModelName models))"

definition categorizeModelsWithRedirect :: "jstr list \<Rightarrow> jstr list \<Rightarrow> Categories" where
  "categorizeModelsWithRedirect currentModels redirectModels =
     (let current = normalizedSet currentModels; redirect = normalizedSet redirectModels in
      \<lparr>normalizedCurrentModels = current, normalizedRedirectModels = redirect,
       classificationSet = js_uniq (current @ redirect),
       redirectOnlySet = js_uniq (filter (\<lambda>m. m \<notin> set current) redirect)\<rparr>)"

section \<open>Model lists round trip\<close>

definition clean_model :: "jstr \<Rightarrow> bool" where
  "clean_model m \<longleftrightarrow> m \<noteq> [] \<and> trimmed m \<and> 44 \<notin> set m"

lemma parse_clean: "m \<in> set (parseModelsString s) \<Longrightarrow> clean_model m"
proof -
  assume "m \<in> set (parseModelsString s)"
  then obtain p where p: "p \<in> set (js_split 44 s)" "m = js_trim p" "m \<noteq> []"
    by (auto simp: parseModelsString_def split: if_splits)
  then have "44 \<notin> set m" using js_split_free set_js_trim by blast
  then show ?thesis using p by (simp add: clean_model_def)
qed

lemma parse_format_clean:
  assumes "\<forall>m \<in> set ms. clean_model m"
  shows "parseModelsString (formatModelsArray ms) = js_uniq ms"
proof (cases "ms = []")
  case True
  then show ?thesis by (simp add: parseModelsString_def formatModelsArray_def js_uniq_def)
next
  case False
  let ?u = "js_uniq ms"
  have u: "?u \<noteq> []" using False set_js_uniq [of ms] by (metis set_empty)
  have c: "\<forall>m \<in> set ?u. clean_model m" using assms by simp
  have ne: "js_join [44] ?u \<noteq> []"
    using u c by (cases ?u; cases "tl ?u") (auto simp: clean_model_def)
  have "js_split 44 (js_join [44] ?u) = ?u"
    using u c by (intro js_split_join) (auto simp: clean_model_def)
  moreover have "map js_trim ?u = ?u"
    using c by (intro map_idI) (simp add: js_trim_id clean_model_def)
  moreover have "filter (\<lambda>m. m \<noteq> []) ?u = ?u"
    using c by (intro filter_True) (simp add: clean_model_def)
  ultimately show ?thesis using ne by (simp add: parseModelsString_def formatModelsArray_def)
qed

text \<open>
  A model list survives the text field: whatever the text, parsing it, printing the list and
  parsing again gives the list without repetitions; and printing is a fixed point after that.
\<close>

theorem models_text_roundtrip:
  "parseModelsString (formatModelsArray (parseModelsString s)) = js_uniq (parseModelsString s) \<and>
   formatModelsArray (parseModelsString (formatModelsArray (parseModelsString s))) =
     formatModelsArray (parseModelsString s)"
  using parse_format_clean [of "parseModelsString s"] parse_clean
  by (simp add: formatModelsArray_def js_uniq_distinct)

section \<open>Missing and exposed models\<close>

text \<open>
  C28. The check for missing models is exact and can be discharged: for a mapping that is a JSON
  object it lists, without repetition, the non-blank names the mapping redirects that the channel
  does not offer (nothing for any other text), and once these names are added to the channel's list
  the check finds nothing.
\<close>

theorem missing_models_fixed:
  "set (findMissingModelsInMapping mapping models) =
     (case parse_object mapping of
        Some ps \<Rightarrow> if js_trim mapping = [] then {}
          else js_trim ` fst ` set ps - insert [] (js_trim ` set models)
      | None \<Rightarrow> {}) \<and>
   distinct (findMissingModelsInMapping mapping models) \<and>
   findMissingModelsInMapping mapping (models @ findMissingModelsInMapping mapping models) = []"
proof (intro conjI)
  let ?f = findMissingModelsInMapping
  have s: "set (?f mapping ms) =
     (case parse_object mapping of
        Some ps \<Rightarrow> if js_trim mapping = [] then {} else js_trim ` fst ` set ps - insert [] (js_trim ` set ms)
      | None \<Rightarrow> {})" for ms
    by (force simp: findMissingModelsInMapping_def normalizeModelName_def split: option.splits)
  then show "set (?f mapping models) =
     (case parse_object mapping of
        Some ps \<Rightarrow> if js_trim mapping = [] then {} else js_trim ` fst ` set ps - insert [] (js_trim ` set models)
      | None \<Rightarrow> {})" .
  show "distinct (?f mapping models)" by (simp add: findMissingModelsInMapping_def split: option.split)
  have "m = js_trim m" if "m \<in> set (?f mapping models)" for m
    using that by (auto simp: s split: option.splits if_splits)
  note fixed = this
  have "x \<notin> set (?f mapping (models @ ?f mapping models))" for x
  proof
    assume x: "x \<in> set (?f mapping (models @ ?f mapping models))"
    then have "x \<notin> js_trim ` set (?f mapping models)"
      unfolding s [of "models @ _"] by (auto split: option.splits if_splits)
    moreover have "x \<in> set (?f mapping models)"
      using x unfolding s by (auto split: option.splits if_splits)
    ultimately show False using fixed [of x] by blast
  qed
  then show "?f mapping (models @ ?f mapping models) = []" by (metis list.set_intros(1) neq_Nil_conv)
qed

lemma redirect_trimmed: "m \<in> set (extractRedirectModels mapping) \<Longrightarrow> js_trim m = m"
  by (auto simp: extractRedirectModels_def redirectValue_def map_filter_def
      split: if_splits option.splits json.splits)

lemma set_exposed:
  "set (findExposedTargetModels mapping models) = set (extractRedirectModels mapping) \<inter> js_trim ` set models"
  using redirect_trimmed [of _ mapping]
  by (auto simp: findExposedTargetModels_def normalizeModelName_def)

text \<open>
  Exposed targets are exactly the redirect targets still offered by the channel, and removing
  them from the channel's list leaves none exposed.
\<close>

theorem exposed_targets_removed:
  "set (findExposedTargetModels mapping models) =
     set (extractRedirectModels mapping) \<inter> js_trim ` set models \<and>
   findExposedTargetModels mapping
     (filter (\<lambda>m. normalizeModelName m \<notin> set (findExposedTargetModels mapping models)) models) = []"
proof (intro conjI set_exposed)
  let ?rest = "filter (\<lambda>m. normalizeModelName m \<notin> set (findExposedTargetModels mapping models)) models"
  have "set (findExposedTargetModels mapping ?rest) = {}"
    by (auto simp: set_exposed normalizeModelName_def)
  then show "findExposedTargetModels mapping ?rest = []" by simp
qed

text \<open>
  The categories partition the models: every model of the classification is either offered by
  the channel or only a redirect target, never both, and each is listed once.
\<close>

theorem categories_partition:
  "let c = categorizeModelsWithRedirect current redirect in
     set (classificationSet c) = set (normalizedCurrentModels c) \<union> set (redirectOnlySet c) \<and>
     set (normalizedCurrentModels c) \<inter> set (redirectOnlySet c) = {} \<and>
     distinct (classificationSet c) \<and>
     length (classificationSet c) = length (normalizedCurrentModels c) + length (redirectOnlySet c)"
proof -
  define a where "a = normalizedSet current"
  define b where "b = normalizedSet redirect"
  let ?only = "js_uniq (filter (\<lambda>m. m \<notin> set a) b)"
  have d: "distinct a" by (simp add: a_def normalizedSet_def)
  have "length (js_uniq (a @ b)) = card (set (a @ b))" by (metis distinct_card distinct_js_uniq set_js_uniq)
  also have "set (a @ b) = set a \<union> set ?only" by auto
  also have "card (set a \<union> set ?only) = card (set a) + card (set ?only)"
    by (rule card_Un_disjoint) auto
  also have "\<dots> = length a + length ?only"
    using distinct_card [OF d] distinct_card [OF distinct_js_uniq, of "filter (\<lambda>m. m \<notin> set a) b"] by simp
  finally have "length (js_uniq (a @ b)) = length a + length ?only" .
  then show ?thesis
    by (auto simp: categorizeModelsWithRedirect_def Let_def a_def [symmetric] b_def [symmetric])
qed

section \<open>Detecting a change\<close>

lemma lists_differ_iff: "length xs = length ys \<Longrightarrow> lists_differ xs ys \<longleftrightarrow> xs \<noteq> ys"
  by (induction xs ys rule: list_induct2) auto

text \<open>
  A stored configuration counts as changed exactly when the model list or the trimmed mapping
  differs from the initial one; a new channel always counts as changed.
\<close>

theorem config_changed_exact:
  "hasModelConfigChanged cur curMap ini iniMap =
     (if ini = [] \<and> iniMap = [] then True
      else \<not> (cur = ini \<and> js_trim curMap = js_trim iniMap))"
  using lists_differ_iff [of cur ini] by (auto simp: hasModelConfigChanged_def)

end
