(* ===== verification/Redirect_Guard.thy ===== *)
theory Redirect_Guard
  imports JSON
begin

text \<open>
  The guard for risky status-code redirects of a channel:
  \<^verbatim>\<open>features/channels/lib/status-code-risk-guard.ts\<close>.  A status-code mapping is the text of a JSON
  object; the guard reports malformed entries and redirects away from the codes that must not be
  redirected.  A string conversion that raises makes the whole function raise, here \<open>None\<close>.
\<close>

definition NON_REDIRECTABLE_STATUS_CODES :: "nat list" where
  "NON_REDIRECTABLE_STATUS_CODES = [504, 524]"

text \<open>The pattern \<^verbatim>\<open>/^[1-5]\d{2}$/\<close>.\<close>

definition is_code_text :: "jstr \<Rightarrow> bool" where
  "is_code_text s \<longleftrightarrow> length s = 3 \<and> 49 \<le> hd s \<and> hd s \<le> 53 \<and> list_all is_digit (tl s)"

definition parseStatusCodeKey :: "jstr \<Rightarrow> nat option" where
  "parseStatusCodeKey rawKey =
     (if \<not> is_code_text (js_trim rawKey) then None else Some (digits_val (js_trim rawKey)))"

definition integerCode :: "rat \<Rightarrow> nat option" where
  "integerCode q = (if 100 \<le> q \<and> q \<le> 599 then Some (nat \<lfloor>q\<rfloor>) else None)"

definition textCode :: "jstr \<Rightarrow> nat option" where
  "textCode normalized =
     (if \<not> is_code_text normalized then None
      else if 100 \<le> digits_val normalized \<and> digits_val normalized \<le> 599
      then Some (digits_val normalized) else None)"

definition parseStatusCodeMappingTarget :: "json \<Rightarrow> nat option" where
  "parseStatusCodeMappingTarget rawValue =
     (case rawValue of
        JNum (Fin q) \<Rightarrow> if of_int \<lfloor>q\<rfloor> = q then integerCode q else None
      | JStr s \<Rightarrow> textCode (js_trim s)
      | _ \<Rightarrow> None)"

text \<open>The entries of the mapping: none for a blank text, a text that does not parse, or a value that
  is not an object.\<close>

definition mappingEntries :: "jstr \<Rightarrow> (jstr \<times> json) list" where
  "mappingEntries s =
     (if js_trim s = [] then []
      else (case json_parse s of Some (JObj ps) \<Rightarrow> ps | _ \<Rightarrow> []))"

definition invalidEntry :: "jstr \<times> json \<Rightarrow> bool" where
  "invalidEntry e \<longleftrightarrow> parseStatusCodeKey (fst e) = None \<or> parseStatusCodeMappingTarget (snd e) = None"

definition entryText :: "jstr \<times> json \<Rightarrow> jstr option" where
  "entryText e = map_option (\<lambda>v. fst e @ [32, 8594, 32] @ v) (json_string (snd e))"

fun collectInvalidLoop :: "(jstr \<times> json) list \<Rightarrow> jstr list option" where
  "collectInvalidLoop [] = Some []"
| "collectInvalidLoop (e # es) =
     (if invalidEntry e
      then (case entryText e of
         None \<Rightarrow> None
       | Some t \<Rightarrow> map_option (Cons t) (collectInvalidLoop es))
      else collectInvalidLoop es)"

definition collectInvalidStatusCodeEntries :: "jstr \<Rightarrow> jstr list option" where
  "collectInvalidStatusCodeEntries statusCodeMappingStr = collectInvalidLoop (mappingEntries statusCodeMappingStr)"

definition redirectText :: "nat \<Rightarrow> nat \<Rightarrow> jstr" where
  "redirectText fromCode toCode = dec fromCode @ js '' -> '' @ dec toCode"

definition riskyMapping :: "jstr \<times> json \<Rightarrow> jstr option" where
  "riskyMapping e =
     (case (parseStatusCodeKey (fst e), parseStatusCodeMappingTarget (snd e)) of
        (Some fromCode, Some toCode) \<Rightarrow>
          if fromCode \<notin> set NON_REDIRECTABLE_STATUS_CODES then None
          else if fromCode = toCode then None
          else Some (redirectText fromCode toCode)
      | _ \<Rightarrow> None)"

definition collectDisallowedStatusCodeRedirects :: "jstr \<Rightarrow> jstr list" where
  "collectDisallowedStatusCodeRedirects statusCodeMappingStr =
     js_sort str_cmp (js_uniq (List.map_filter riskyMapping (mappingEntries statusCodeMappingStr)))"

definition collectNewDisallowedStatusCodeRedirects :: "jstr \<Rightarrow> jstr \<Rightarrow> jstr list" where
  "collectNewDisallowedStatusCodeRedirects originalStr currentStr =
     (if length (collectDisallowedStatusCodeRedirects currentStr) = 0 then []
      else filter (\<lambda>m. m \<notin> set (collectDisallowedStatusCodeRedirects originalStr))
        (collectDisallowedStatusCodeRedirects currentStr))"

section \<open>What the guard reports\<close>

lemma set_map_filter: "set (List.map_filter f xs) = {y. \<exists>x \<in> set xs. f x = Some y}"
  by (force simp: map_filter_def)

lemma code_text_bounds: "is_code_text s \<Longrightarrow> 100 \<le> digits_val s \<and> digits_val s \<le> 599"
proof -
  assume s: "is_code_text s"
  then obtain a b c where "s = [a, b, c]" by (auto simp: is_code_text_def length_Suc_conv numeral_3_eq_3)
  then show ?thesis using s by (auto simp: is_code_text_def digits_val_def is_digit_def)
qed

lemma target_bounds: "parseStatusCodeMappingTarget v = Some n \<Longrightarrow> 100 \<le> n \<and> n \<le> 599"
proof -
  assume t: "parseStatusCodeMappingTarget v = Some n"
  then consider q where "v = JNum (Fin q)" "integerCode q = Some n" | s where "v = JStr s" "textCode (js_trim s) = Some n"
    by (auto simp: parseStatusCodeMappingTarget_def split: json.splits jsnum.splits if_splits)
  then show ?thesis
  proof cases
    case 1
    then have q: "100 \<le> q" "q \<le> 599" "n = nat \<lfloor>q\<rfloor>" by (auto simp: integerCode_def split: if_splits)
    define z where "z = \<lfloor>q\<rfloor>"
    have "100 \<le> z" "z \<le> 599" using q by (auto simp: z_def le_floor_iff floor_le_iff)
    then show ?thesis using q(3) by (simp add: z_def [symmetric] nat_le_iff le_nat_iff)
  next
    case 2
    then show ?thesis by (auto simp: textCode_def split: if_splits)
  qed
qed

lemma key_bounds: "parseStatusCodeKey k = Some n \<Longrightarrow> 100 \<le> n \<and> n \<le> 599"
  using code_text_bounds by (auto simp: parseStatusCodeKey_def split: if_splits)

lemma set_disallowed:
  "set (collectDisallowedStatusCodeRedirects s) =
    {redirectText f t | f t. f \<in> {504, 524} \<and> f \<noteq> t \<and>
       (\<exists>(k, v) \<in> set (mappingEntries s). parseStatusCodeKey k = Some f \<and> parseStatusCodeMappingTarget v = Some t)}"
  (is "?l = ?r")
proof -
  have risky: "riskyMapping (k, v) = Some m \<longleftrightarrow> (\<exists>f t. m = redirectText f t \<and> f \<in> {504, 524} \<and> f \<noteq> t \<and>
      parseStatusCodeKey k = Some f \<and> parseStatusCodeMappingTarget v = Some t)" for k v m
    by (auto simp: riskyMapping_def NON_REDIRECTABLE_STATUS_CODES_def split: option.splits)
  have "?l = {m. \<exists>(k, v) \<in> set (mappingEntries s). riskyMapping (k, v) = Some m}"
    by (auto simp: collectDisallowedStatusCodeRedirects_def set_map_filter)
  also have "\<dots> = ?r" unfolding risky by blast
  finally show ?thesis .
qed

text \<open>
  C29. The guard is exact: it reports, in ascending order and once each, the redirects from a
  non-redirectable code (504 or 524) to another valid code that some entry of the mapping asks
  for, and nothing else; every reported target lies in 100..599.
\<close>

theorem disallowed_redirects_exact:
  "set (collectDisallowedStatusCodeRedirects s) =
    {redirectText f t | f t. f \<in> {504, 524} \<and> f \<noteq> t \<and> 100 \<le> t \<and> t \<le> 599 \<and>
       (\<exists>(k, v) \<in> set (mappingEntries s). parseStatusCodeKey k = Some f \<and> parseStatusCodeMappingTarget v = Some t)} \<and>
   distinct (collectDisallowedStatusCodeRedirects s) \<and>
   sorted_wrt (\<lambda>a b. str_cmp a b \<le> 0) (collectDisallowedStatusCodeRedirects s)"
proof (intro conjI)
  show "set (collectDisallowedStatusCodeRedirects s) =
    {redirectText f t | f t. f \<in> {504, 524} \<and> f \<noteq> t \<and> 100 \<le> t \<and> t \<le> 599 \<and>
       (\<exists>(k, v) \<in> set (mappingEntries s). parseStatusCodeKey k = Some f \<and> parseStatusCodeMappingTarget v = Some t)}"
    unfolding set_disallowed using target_bounds by blast
  show "distinct (collectDisallowedStatusCodeRedirects s)"
    unfolding collectDisallowedStatusCodeRedirects_def
    by (metis distinct_js_uniq mset_eq_imp_distinct_iff mset_js_sort)
  show "sorted_wrt (\<lambda>a b. str_cmp a b \<le> 0) (collectDisallowedStatusCodeRedirects s)"
    unfolding collectDisallowedStatusCodeRedirects_def by (rule str_order.sorted_js_sort)
qed

text \<open>
  Confirmation is asked exactly for the risky redirects an edit introduces: the new ones are
  those of the edited mapping that the original did not have, so an edit that introduces none asks
  for nothing, and no risky redirect enters a channel unreported.
\<close>

theorem new_disallowed_exact:
  "set (collectNewDisallowedStatusCodeRedirects orig cur) =
     set (collectDisallowedStatusCodeRedirects cur) - set (collectDisallowedStatusCodeRedirects orig) \<and>
   (collectNewDisallowedStatusCodeRedirects orig cur = [] \<longleftrightarrow>
     set (collectDisallowedStatusCodeRedirects cur) \<subseteq> set (collectDisallowedStatusCodeRedirects orig))"
proof -
  have s: "set (collectNewDisallowedStatusCodeRedirects orig cur) =
     set (collectDisallowedStatusCodeRedirects cur) - set (collectDisallowedStatusCodeRedirects orig)"
    by (auto simp: collectNewDisallowedStatusCodeRedirects_def)
  moreover have "collectNewDisallowedStatusCodeRedirects orig cur = [] \<longleftrightarrow>
      set (collectNewDisallowedStatusCodeRedirects orig cur) = {}" by simp
  ultimately show ?thesis by (simp add: Diff_eq_empty_iff)
qed

section \<open>Malformed entries\<close>

text \<open>What a well-formed entry is: the key is the decimal text of a code within 100..599, white space
  around it aside, and the target is such a text or the number itself.\<close>

definition status_text :: "jstr \<Rightarrow> bool" where
  "status_text s \<longleftrightarrow> (\<exists>n \<in> {100..599}. js_trim s = dec n)"

definition status_target :: "json \<Rightarrow> bool" where
  "status_target v \<longleftrightarrow> (\<exists>n \<in> {100..599::nat}. v = JNum (Fin (of_nat n))) \<or> (\<exists>s. v = JStr s \<and> status_text s)"

lemma dec_three:
  assumes "100 \<le> n" "n \<le> 999"
  shows "dec n = [48 + n div 100, 48 + n div 10 mod 10, 48 + n mod 10]"
proof -
  have "dec (n div 10 div 10) = [48 + n div 100]"
    using assms by (subst dec.simps) (simp add: div_mult2_eq [symmetric])
  moreover have "dec n = dec (n div 10 div 10) @ [48 + n div 10 mod 10, 48 + n mod 10]"
    using assms by (subst dec.simps, subst dec.simps) simp
  ultimately show ?thesis by simp
qed

lemma three_digits:
  fixes x y z :: nat
  assumes "y < 10" "z < 10"
  shows "(100 * x + 10 * y + z) div 100 = x" "(100 * x + 10 * y + z) div 10 mod 10 = y" "(100 * x + 10 * y + z) mod 10 = z"
proof -
  have "100 * x + 10 * y + z = z + (y + x * 10) * 10" "100 * x + 10 * y + z = (10 * y + z) + x * 100" by simp_all
  then show "(100 * x + 10 * y + z) div 100 = x" "(100 * x + 10 * y + z) div 10 mod 10 = y" "(100 * x + 10 * y + z) mod 10 = z"
    using assms by (simp_all only: div_mult_self1 mod_mult_self1) simp_all
qed

lemma code_text_dec: "is_code_text s \<longleftrightarrow> (\<exists>n \<in> {100..599}. s = dec n)"
proof
  assume s: "is_code_text s"
  then obtain a b c where abc: "s = [a, b, c]" by (auto simp: is_code_text_def length_Suc_conv numeral_3_eq_3)
  then have d: "49 \<le> a" "a \<le> 53" "48 \<le> b" "b \<le> 57" "48 \<le> c" "c \<le> 57"
    using s by (auto simp: is_code_text_def is_digit_def)
  define x y z where xyz: "x = a - 48" "y = b - 48" "z = c - 48"
  have s': "s = [48 + x, 48 + y, 48 + z]" using d by (simp add: abc xyz)
  have n: "digits_val s = 100 * x + 10 * y + z" by (simp add: s' digits_val_def)
  have "y < 10" "z < 10" using d by (auto simp: xyz)
  then have "(100 * x + 10 * y + z) div 100 = x" "(100 * x + 10 * y + z) div 10 mod 10 = y" "(100 * x + 10 * y + z) mod 10 = z"
    by (rule three_digits)+
  moreover have "100 \<le> 100 * x + 10 * y + z" "100 * x + 10 * y + z \<le> 999" using code_text_bounds [OF s] by (simp_all add: n)
  ultimately have "dec (100 * x + 10 * y + z) = s" by (simp only: dec_three s')
  then have "dec (digits_val s) = s" by (simp only: n)
  then show "\<exists>n \<in> {100..599}. s = dec n" using code_text_bounds [OF s] by (metis atLeastAtMost_iff)
next
  assume "\<exists>n \<in> {100..599}. s = dec n"
  then obtain n where n: "100 \<le> n" "n \<le> 599" "s = dec n" by auto
  then have "1 \<le> n div 100" "n div 100 \<le> 5" by auto
  moreover have "m mod 10 \<le> 9" for m :: nat using mod_less_divisor [of 10 m] by linarith
  ultimately show "is_code_text s" using n by (simp add: dec_three is_code_text_def is_digit_def)
qed

lemma integerCode_iff:
  "of_int \<lfloor>q\<rfloor> = q \<and> integerCode q \<noteq> None \<longleftrightarrow> (\<exists>n \<in> {100..599::nat}. q = of_nat n)"
proof
  assume q: "of_int \<lfloor>q\<rfloor> = q \<and> integerCode q \<noteq> None"
  then have b: "100 \<le> q" "q \<le> 599" by (auto simp: integerCode_def split: if_splits)
  obtain z where z: "q = of_int z" using q by metis
  have "100 \<le> z" "z \<le> 599" using b by (simp_all add: z)
  then show "\<exists>n \<in> {100..599::nat}. q = of_nat n"
    by (intro bexI [of _ "nat z"]) (auto simp: z)
next
  assume "\<exists>n \<in> {100..599::nat}. q = of_nat n"
  then obtain n where "100 \<le> n" "n \<le> 599" "q = of_nat n" by auto
  then show "of_int \<lfloor>q\<rfloor> = q \<and> integerCode q \<noteq> None" by (simp add: integerCode_def)
qed

lemma valid_entry: "\<not> invalidEntry (k, v) \<longleftrightarrow> status_text k \<and> status_target v"
proof -
  have key: "parseStatusCodeKey k \<noteq> None \<longleftrightarrow> status_text k"
    by (simp add: parseStatusCodeKey_def code_text_dec status_text_def)
  have target: "textCode s \<noteq> None \<longleftrightarrow> is_code_text s" for s
    using code_text_bounds [of s] by (simp add: textCode_def)
  have "parseStatusCodeMappingTarget v \<noteq> None \<longleftrightarrow> status_target v"
  proof (cases v)
    case (JNum x)
    then show ?thesis using integerCode_iff
      by (cases x) (auto simp: parseStatusCodeMappingTarget_def status_target_def)
  next
    case (JStr s)
    then show ?thesis using target [of "js_trim s"]
      by (simp add: parseStatusCodeMappingTarget_def status_target_def status_text_def code_text_dec)
  qed (simp_all add: parseStatusCodeMappingTarget_def status_target_def)
  with key show ?thesis by (simp add: invalidEntry_def)
qed

lemma collectInvalidLoop_exact:
  "collectInvalidLoop es =
     (let bad = filter invalidEntry es in
      if \<exists>e \<in> set bad. json_string (snd e) = None then None
      else Some (map (\<lambda>e. fst e @ [32, 8594, 32] @ the (json_string (snd e))) bad))"
proof (induction es)
  case (Cons e es)
  then show ?case by (cases "json_string (snd e)") (auto simp: entryText_def Let_def)
qed simp

text \<open>
  C30. The list of malformed entries is exact and in order.  An entry is well formed when its key is
  the decimal text of a code within 100..599 and its target is such a text or such a number (white
  space around a text aside).  The result lists exactly the other entries, each as its key, an arrow
  and its target converted to a text; it raises exactly when one of them has a target that cannot be
  converted.
\<close>

theorem invalid_entries_exact:
  "collectInvalidStatusCodeEntries s =
     (let bad = filter (\<lambda>(k, v). \<not> (status_text k \<and> status_target v)) (mappingEntries s) in
      if \<exists>e \<in> set bad. json_string (snd e) = None then None
      else Some (map (\<lambda>(k, v). k @ [32, 8594, 32] @ the (json_string v)) bad))"
proof -
  have "invalidEntry = (\<lambda>(k, v). \<not> (status_text k \<and> status_target v))"
    by (auto simp: fun_eq_iff valid_entry [symmetric])
  then show ?thesis
    unfolding collectInvalidStatusCodeEntries_def collectInvalidLoop_exact by (simp only: case_prod_beta')
qed

text \<open>
  A target that is an object with a property named \<^verbatim>\<open>toString\<close> makes the check for malformed
  entries raise instead of listing the entry, although the text is well-formed JSON.
\<close>

theorem invalid_entries_may_raise:
  "json_parse (js ''{\"500\":{\"toString\":\"\"}}'') \<noteq> None \<and>
   collectInvalidStatusCodeEntries (js ''{\"500\":{\"toString\":\"\"}}'') = None"
  by code_simp

end
