(* ===== verification/Header_Nav.thy ===== *)
theory Header_Nav
  imports JSON
begin

text \<open>
  The header navigation: the configuration of \<^verbatim>\<open>features/system-settings/maintenance/config.ts\<close>
  (\<^verbatim>\<open>parseHeaderNavModules\<close>, \<^verbatim>\<open>serializeHeaderNavModules\<close>) and the links
  \<^verbatim>\<open>hooks/use-top-nav-links.ts\<close> builds from it.  The platform's \<^verbatim>\<open>new URL\<close> is the argument
  \<open>protocol\<close>: the protocol of an absolute URL, \<open>None\<close> when the constructor raises.  The translation
  function is the argument \<open>t\<close>.
\<close>

section \<open>Types\<close>

record HeaderNavAccessConfig =
  acc_enabled :: bool
  acc_requireAuth :: bool

record HeaderNavCustomLinkConfig =
  cl_id :: jstr
  cl_title :: jstr
  cl_href :: jstr
  cl_enabled :: bool
  cl_external :: bool
  cl_requireAuth :: bool
  cl_position :: jstr
  cl_display :: jstr
  cl_icon :: "jstr option"

datatype NavValue = NavBool bool | NavAccess HeaderNavAccessConfig | NavLinks "HeaderNavCustomLinkConfig list"

type_synonym HeaderNavModulesConfig = "(jstr \<times> NavValue) list"

definition open_access :: HeaderNavAccessConfig where
  "open_access = \<lparr>acc_enabled = True, acc_requireAuth = False\<rparr>"

definition HEADER_NAV_DEFAULT :: HeaderNavModulesConfig where
  "HEADER_NAV_DEFAULT =
     [(js ''home'', NavBool True), (js ''console'', NavBool True), (js ''pricing'', NavAccess open_access),
      (js ''rankings'', NavAccess open_access), (js ''docs'', NavBool True), (js ''about'', NavBool True),
      (js ''customLinks'', NavLinks [])]"

section \<open>Reading values\<close>

definition lower_ascii :: "jstr \<Rightarrow> jstr" where
  "lower_ascii s = map (\<lambda>c. if 65 \<le> c \<and> c \<le> 90 then c + 32 else c) s"

text \<open>\<^verbatim>\<open>toBoolean\<close>; an absent property is \<open>None\<close>.  Only ASCII capitals are lower-cased to the letters
  of the literals it compares with.\<close>

definition toBoolean :: "json option \<Rightarrow> bool \<Rightarrow> bool" where
  "toBoolean v fallback =
     (case v of
        Some (JBool b) \<Rightarrow> b
      | Some (JNum x) \<Rightarrow> x = Fin 1
      | Some (JStr s) \<Rightarrow>
          if lower_ascii (js_trim s) = js ''true'' \<or> lower_ascii (js_trim s) = js ''1'' then True
          else if lower_ascii (js_trim s) = js ''false'' \<or> lower_ascii (js_trim s) = js ''0'' then False
          else fallback
      | _ \<Rightarrow> fallback)"

definition HEADER_NAV_CUSTOM_LINK_POSITIONS :: "jstr list" where
  "HEADER_NAV_CUSTOM_LINK_POSITIONS =
     map js [''after_console'', ''after_pricing'', ''after_rankings'', ''after_docs'', ''end'',
       ''before_search'', ''after_search'', ''before_notifications'', ''after_notifications'',
       ''before_theme'', ''after_theme'', ''before_language'', ''after_language'']"

definition HEADER_NAV_CUSTOM_LINK_DISPLAYS :: "jstr list" where
  "HEADER_NAV_CUSTOM_LINK_DISPLAYS = map js [''text'', ''icon'']"

definition cloneHeaderNavDefault :: HeaderNavModulesConfig where
  "cloneHeaderNavDefault = obj_put HEADER_NAV_DEFAULT (js ''customLinks'') (NavLinks [])"

definition isSafeHeaderNavUrl :: "(jstr \<Rightarrow> jstr option) \<Rightarrow> jstr \<Rightarrow> bool" where
  "isSafeHeaderNavUrl protocol href =
     (if prefix [47] href then \<not> prefix [47, 47] href
      else (case protocol href of
         None \<Rightarrow> False
       | Some p \<Rightarrow> p = js ''http:'' \<or> p = js ''https:''))"

definition parseAccessModule :: "json \<Rightarrow> HeaderNavAccessConfig \<Rightarrow> HeaderNavAccessConfig" where
  "parseAccessModule raw fallback =
     (case raw of
        JNull \<Rightarrow> fallback
      | JBool b \<Rightarrow> fallback\<lparr>acc_enabled := toBoolean (Some raw) (acc_enabled fallback)\<rparr>
      | JStr s \<Rightarrow> fallback\<lparr>acc_enabled := toBoolean (Some raw) (acc_enabled fallback)\<rparr>
      | JNum x \<Rightarrow> fallback\<lparr>acc_enabled := toBoolean (Some raw) (acc_enabled fallback)\<rparr>
      | _ \<Rightarrow> \<lparr>acc_enabled = toBoolean (jget raw (js ''enabled'')) (acc_enabled fallback),
             acc_requireAuth = toBoolean (jget raw (js ''requireAuth'')) (acc_requireAuth fallback)\<rparr>)"

definition normalizeCustomLinkPosition :: "json option \<Rightarrow> jstr" where
  "normalizeCustomLinkPosition v =
     (case v of
        Some (JStr s) \<Rightarrow> if s \<in> set HEADER_NAV_CUSTOM_LINK_POSITIONS then s else js ''end''
      | _ \<Rightarrow> js ''end'')"

definition normalizeCustomLinkDisplay :: "json option \<Rightarrow> jstr \<Rightarrow> jstr" where
  "normalizeCustomLinkDisplay v fallback =
     (case v of
        Some (JStr s) \<Rightarrow> if s \<in> set HEADER_NAV_CUSTOM_LINK_DISPLAYS then s else fallback
      | _ \<Rightarrow> fallback)"

text \<open>A trimmed string property; the empty string when it is missing or not a string.\<close>

definition trimmedProp :: "json \<Rightarrow> jstr \<Rightarrow> jstr" where
  "trimmedProp raw k = (case jget raw k of Some (JStr s) \<Rightarrow> js_trim s | _ \<Rightarrow> [])"

definition iconProp :: "json \<Rightarrow> jstr option" where
  "iconProp raw = (if trimmedProp raw (js ''icon'') = [] then None else Some (trimmedProp raw (js ''icon'')))"

definition is_object :: "json \<Rightarrow> bool" where
  "is_object raw = (case raw of JObj ps \<Rightarrow> True | JArr xs \<Rightarrow> True | _ \<Rightarrow> False)"

definition normalizeCustomLink :: "(jstr \<Rightarrow> jstr option) \<Rightarrow> json \<Rightarrow> nat \<Rightarrow> HeaderNavCustomLinkConfig option" where
  "normalizeCustomLink protocol raw index =
     (if \<not> is_object raw then None
      else (let title = trimmedProp raw (js ''title''); href = trimmedProp raw (js ''href'');
                icon = iconProp raw in
        if title = [] \<or> href = [] \<or> \<not> isSafeHeaderNavUrl protocol href then None
        else Some
          \<lparr>cl_id = (if trimmedProp raw (js ''id'') \<noteq> [] then trimmedProp raw (js ''id'')
                     else js ''custom-link-'' @ dec (index + 1)),
           cl_title = title, cl_href = href,
           cl_enabled = toBoolean (jget raw (js ''enabled'')) True,
           cl_external = toBoolean (jget raw (js ''external'')) (\<not> prefix [47] href),
           cl_requireAuth = toBoolean (jget raw (js ''requireAuth'')) False,
           cl_position = normalizeCustomLinkPosition (jget raw (js ''position'')),
           cl_display = normalizeCustomLinkDisplay (jget raw (js ''display''))
             (if icon \<noteq> None then js ''icon'' else js ''text''),
           cl_icon = icon\<rparr>))"

definition parseCustomLinks :: "(jstr \<Rightarrow> jstr option) \<Rightarrow> json \<Rightarrow> HeaderNavCustomLinkConfig list" where
  "parseCustomLinks protocol raw =
     (case raw of
        JArr xs \<Rightarrow> List.map_filter (\<lambda>(item, index). normalizeCustomLink protocol item index)
          (zip xs [0..<length xs])
      | _ \<Rightarrow> [])"

section \<open>The configuration\<close>

text \<open>Names every object inherits; reading them gives a truthy value.\<close>

definition inherited_names :: "jstr list" where
  "inherited_names =
     map js [''constructor'', ''hasOwnProperty'', ''isPrototypeOf'', ''propertyIsEnumerable'',
       ''toLocaleString'', ''toString'', ''valueOf'', ''__proto__'', ''__defineGetter__'',
       ''__defineSetter__'', ''__lookupGetter__'', ''__lookupSetter__'']"

text \<open>\<^verbatim>\<open>Boolean(base[key])\<close> for a key other than the structured ones.\<close>

definition baseFlag :: "HeaderNavModulesConfig \<Rightarrow> jstr \<Rightarrow> bool" where
  "baseFlag base key =
     (case oget base key of
        Some (NavBool b) \<Rightarrow> b
      | Some _ \<Rightarrow> True
      | None \<Rightarrow> key \<in> set inherited_names)"

text \<open>\<^verbatim>\<open>result[key] = flag\<close>: the setter of \<^verbatim>\<open>__proto__\<close> ignores a boolean.\<close>

definition putFlag :: "HeaderNavModulesConfig \<Rightarrow> jstr \<Rightarrow> bool \<Rightarrow> HeaderNavModulesConfig" where
  "putFlag result key flag = (if key = js ''__proto__'' then result else obj_put result key (NavBool flag))"

definition accessOf :: "HeaderNavModulesConfig \<Rightarrow> jstr \<Rightarrow> HeaderNavAccessConfig" where
  "accessOf base key = (case oget base key of Some (NavAccess a) \<Rightarrow> a | _ \<Rightarrow> open_access)"

definition navEntry ::
  "(jstr \<Rightarrow> jstr option) \<Rightarrow> HeaderNavModulesConfig \<Rightarrow> HeaderNavModulesConfig \<Rightarrow> jstr \<times> json \<Rightarrow> HeaderNavModulesConfig" where
  "navEntry protocol base result e =
     (case e of (key, raw) \<Rightarrow>
        if key = js ''pricing'' then
          obj_put result key (NavAccess (parseAccessModule raw (accessOf base key)))
        else if key = js ''rankings'' then
          obj_put result key (NavAccess (parseAccessModule raw (accessOf base key)))
        else if key = js ''customLinks'' then
          obj_put result key (NavLinks (parseCustomLinks protocol raw))
        else (case raw of
           JBool b \<Rightarrow> putFlag result key b
         | JStr s \<Rightarrow> putFlag result key (toBoolean (Some raw) (baseFlag base key))
         | JNum x \<Rightarrow> putFlag result key (toBoolean (Some raw) (baseFlag base key))
         | _ \<Rightarrow> result))"

text \<open>The text is \<open>[]\<close> for null, undefined and the empty string.\<close>

definition parseHeaderNavModules :: "(jstr \<Rightarrow> jstr option) \<Rightarrow> jstr \<Rightarrow> HeaderNavModulesConfig" where
  "parseHeaderNavModules protocol s =
     (if s = [] then cloneHeaderNavDefault
      else (case json_parse s of
         None \<Rightarrow> cloneHeaderNavDefault
       | Some parsed \<Rightarrow>
           (case json_entries parsed of
              None \<Rightarrow> cloneHeaderNavDefault
            | Some entries \<Rightarrow>
                foldl (navEntry protocol cloneHeaderNavDefault) cloneHeaderNavDefault entries)))"

definition accessJson :: "HeaderNavAccessConfig \<Rightarrow> json" where
  "accessJson a = JObj [(js ''enabled'', JBool (acc_enabled a)), (js ''requireAuth'', JBool (acc_requireAuth a))]"

definition linkJson :: "HeaderNavCustomLinkConfig \<Rightarrow> json" where
  "linkJson l =
     JObj ([(js ''id'', JStr (cl_id l)), (js ''title'', JStr (cl_title l)), (js ''href'', JStr (cl_href l)),
       (js ''enabled'', JBool (cl_enabled l)), (js ''external'', JBool (cl_external l)),
       (js ''requireAuth'', JBool (cl_requireAuth l)), (js ''position'', JStr (cl_position l)),
       (js ''display'', JStr (cl_display l))]
       @ (case cl_icon l of None \<Rightarrow> [] | Some i \<Rightarrow> [(js ''icon'', JStr i)]))"

fun navJson :: "NavValue \<Rightarrow> json" where
  "navJson (NavBool b) = JBool b"
| "navJson (NavAccess a) = accessJson a"
| "navJson (NavLinks ls) = JArr (map linkJson ls)"

definition serializeHeaderNavModules :: "HeaderNavModulesConfig \<Rightarrow> jstr" where
  "serializeHeaderNavModules config = json_str (JObj (map (apsnd navJson) config))"

section \<open>The links\<close>

record TopNavLink =
  tn_title :: jstr
  tn_href :: jstr
  tn_disabled :: "bool option"
  tn_external :: "bool option"
  tn_display :: "jstr option"
  tn_icon :: "jstr option"

text \<open>A link given by its title and target only.\<close>

definition plainLink :: "jstr \<Rightarrow> jstr \<Rightarrow> TopNavLink" where
  "plainLink title href =
     \<lparr>tn_title = title, tn_href = href, tn_disabled = None, tn_external = None, tn_display = None, tn_icon = None\<rparr>"

definition HEADER_NAV_UTILITY_CUSTOM_LINK_POSITIONS :: "jstr list" where
  "HEADER_NAV_UTILITY_CUSTOM_LINK_POSITIONS =
     map js [''before_search'', ''after_search'', ''before_notifications'', ''after_notifications'',
       ''before_theme'', ''after_theme'', ''before_language'', ''after_language'']"

definition customLinkToTopNavLink :: "bool \<Rightarrow> HeaderNavCustomLinkConfig \<Rightarrow> TopNavLink" where
  "customLinkToTopNavLink isAuthed link =
     \<lparr>tn_title = cl_title link, tn_href = cl_href link,
      tn_disabled = Some (cl_requireAuth link \<and> \<not> isAuthed), tn_external = Some (cl_external link),
      tn_display = Some (cl_display link), tn_icon = cl_icon link\<rparr>"

definition appendCustomLinks ::
  "TopNavLink list \<Rightarrow> HeaderNavCustomLinkConfig list \<Rightarrow> jstr \<Rightarrow> bool \<Rightarrow> TopNavLink list" where
  "appendCustomLinks links customLinks position isAuthed =
     links @ map (customLinkToTopNavLink isAuthed)
       (filter (\<lambda>link. cl_enabled link \<and> cl_position link = position) customLinks)"

definition customLinksOf :: "HeaderNavModulesConfig \<Rightarrow> HeaderNavCustomLinkConfig list" where
  "customLinksOf modules = (case oget modules (js ''customLinks'') of Some (NavLinks ls) \<Rightarrow> ls | _ \<Rightarrow> [])"

text \<open>\<^verbatim>\<open>modules?.key !== false\<close>.\<close>

definition notFalse :: "HeaderNavModulesConfig \<Rightarrow> jstr \<Rightarrow> bool" where
  "notFalse modules key \<longleftrightarrow> oget modules key \<noteq> Some (NavBool False)"

definition flagLinks :: "HeaderNavModulesConfig \<Rightarrow> jstr \<Rightarrow> TopNavLink \<Rightarrow> TopNavLink list" where
  "flagLinks modules key link = (if notFalse modules key then [link] else [])"

definition accessLinks :: "HeaderNavModulesConfig \<Rightarrow> jstr \<Rightarrow> bool \<Rightarrow> TopNavLink \<Rightarrow> TopNavLink list" where
  "accessLinks modules key isAuthed link =
     (case oget modules key of
        Some (NavAccess a) \<Rightarrow>
          if acc_enabled a then [link\<lparr>tn_disabled := Some (acc_requireAuth a \<and> \<not> isAuthed)\<rparr>] else []
      | _ \<Rightarrow> [])"

definition docsLinks :: "(jstr \<Rightarrow> jstr) \<Rightarrow> jstr \<Rightarrow> TopNavLink" where
  "docsLinks t docsLink =
     (if docsLink \<noteq> [] then (plainLink (t (js ''Docs'')) docsLink)\<lparr>tn_external := Some True\<rparr>
      else plainLink (t (js ''Docs'')) (js ''/docs''))"

definition buildTopNavLinks ::
  "(jstr \<Rightarrow> jstr) \<Rightarrow> HeaderNavModulesConfig \<Rightarrow> jstr \<Rightarrow> bool \<Rightarrow> TopNavLink list" where
  "buildTopNavLinks t modules docsLink isAuthed =
     (let customLinks = customLinksOf modules;
          links = flagLinks modules (js ''home'') (plainLink (t (js ''Home'')) (js ''/''))
            @ flagLinks modules (js ''console'') (plainLink (t (js ''Console'')) (js ''/dashboard''));
          links = appendCustomLinks links customLinks (js ''after_console'') isAuthed;
          links = links @ accessLinks modules (js ''pricing'') isAuthed
            (plainLink (t (js ''Model Square'')) (js ''/pricing''));
          links = appendCustomLinks links customLinks (js ''after_pricing'') isAuthed;
          links = links @ accessLinks modules (js ''rankings'') isAuthed
            (plainLink (t (js ''Rankings'')) (js ''/rankings''));
          links = appendCustomLinks links customLinks (js ''after_rankings'') isAuthed;
          links = links @ flagLinks modules (js ''docs'') (docsLinks t docsLink);
          links = appendCustomLinks links customLinks (js ''after_docs'') isAuthed;
          links = links @ flagLinks modules (js ''about'') (plainLink (t (js ''About'')) (js ''/about''))
      in appendCustomLinks links customLinks (js ''end'') isAuthed)"

definition createEmptyTopNavLinkSlots :: "(jstr \<times> TopNavLink list) list" where
  "createEmptyTopNavLinkSlots =
     (js ''primary'', []) # map (\<lambda>p. (p, [])) HEADER_NAV_UTILITY_CUSTOM_LINK_POSITIONS"

definition addUtilityCustomLinks ::
  "(jstr \<times> TopNavLink list) list \<Rightarrow> HeaderNavCustomLinkConfig list \<Rightarrow> bool \<Rightarrow> (jstr \<times> TopNavLink list) list" where
  "addUtilityCustomLinks slots customLinks isAuthed =
     map (\<lambda>(slot, links).
       (slot, if slot \<in> set HEADER_NAV_UTILITY_CUSTOM_LINK_POSITIONS
              then appendCustomLinks links customLinks slot isAuthed else links)) slots"

definition buildTopNavLinkSlots ::
  "(jstr \<Rightarrow> jstr) \<Rightarrow> HeaderNavModulesConfig \<Rightarrow> jstr \<Rightarrow> bool \<Rightarrow> (jstr \<times> TopNavLink list) list" where
  "buildTopNavLinkSlots t modules docsLink isAuthed =
     addUtilityCustomLinks
       (obj_put createEmptyTopNavLinkSlots (js ''primary'') (buildTopNavLinks t modules docsLink isAuthed))
       (customLinksOf modules) isAuthed"

section \<open>Every configuration read is well formed\<close>

definition valid_link :: "(jstr \<Rightarrow> jstr option) \<Rightarrow> HeaderNavCustomLinkConfig \<Rightarrow> bool" where
  "valid_link protocol l \<longleftrightarrow>
     cl_id l \<noteq> [] \<and> trimmed (cl_id l) \<and> cl_title l \<noteq> [] \<and> trimmed (cl_title l) \<and>
     cl_href l \<noteq> [] \<and> trimmed (cl_href l) \<and> isSafeHeaderNavUrl protocol (cl_href l) \<and>
     cl_position l \<in> set HEADER_NAV_CUSTOM_LINK_POSITIONS \<and>
     cl_display l \<in> set HEADER_NAV_CUSTOM_LINK_DISPLAYS \<and>
     (case cl_icon l of None \<Rightarrow> True | Some i \<Rightarrow> i \<noteq> [] \<and> trimmed i)"

fun valid_value :: "(jstr \<Rightarrow> jstr option) \<Rightarrow> jstr \<Rightarrow> NavValue \<Rightarrow> bool" where
  "valid_value protocol k (NavBool b) \<longleftrightarrow>
     k \<notin> {js ''pricing'', js ''rankings'', js ''customLinks'', js ''__proto__''}"
| "valid_value protocol k (NavAccess a) \<longleftrightarrow> k \<in> {js ''pricing'', js ''rankings''}"
| "valid_value protocol k (NavLinks ls) \<longleftrightarrow> k = js ''customLinks'' \<and> list_all (valid_link protocol) ls"

definition nav_wf :: "(jstr \<Rightarrow> jstr option) \<Rightarrow> HeaderNavModulesConfig \<Rightarrow> bool" where
  "nav_wf protocol m \<longleftrightarrow> is_obj m \<and> fst ` set HEADER_NAV_DEFAULT \<subseteq> fst ` set m \<and>
     list_all (\<lambda>(k, v). valid_value protocol k v) m"

lemma nav_wf_put: "nav_wf protocol m \<Longrightarrow> valid_value protocol k v \<Longrightarrow> nav_wf protocol (obj_put m k v)"
  using set_obj_put [of m k v]
  by (auto simp: nav_wf_def is_obj_put obj_put_keys list_all_iff)

lemma nav_wf_default: "nav_wf protocol cloneHeaderNavDefault"
proof -
  have "cloneHeaderNavDefault = HEADER_NAV_DEFAULT" by (simp add: cloneHeaderNavDefault_def HEADER_NAV_DEFAULT_def obj_put_def)
  moreover have "is_obj HEADER_NAV_DEFAULT"
    by (simp add: is_obj_def HEADER_NAV_DEFAULT_def key_before_def is_index_def is_digit_def)
  moreover have "list_all (\<lambda>(k, v). valid_value protocol k v) HEADER_NAV_DEFAULT"
    by (simp add: HEADER_NAV_DEFAULT_def)
  ultimately show ?thesis by (simp add: nav_wf_def)
qed

lemma trimmedProp_trimmed: "trimmed (trimmedProp raw k)"
  by (auto simp: trimmedProp_def trimmed_def [of "[]"] split: option.splits json.splits)

lemma trimmed_generated_id: "trimmed (js ''custom-link-'' @ dec n)"
  using dec_all_digits(2) [of n] is_digit_not_ws by (simp add: trimmed_def is_ws_def)

lemma normalized_position: "normalizeCustomLinkPosition v \<in> set HEADER_NAV_CUSTOM_LINK_POSITIONS"
  by (auto simp: normalizeCustomLinkPosition_def HEADER_NAV_CUSTOM_LINK_POSITIONS_def split: option.splits json.splits)

lemma normalized_display:
  "d \<in> set HEADER_NAV_CUSTOM_LINK_DISPLAYS \<Longrightarrow> normalizeCustomLinkDisplay v d \<in> set HEADER_NAV_CUSTOM_LINK_DISPLAYS"
  by (auto simp: normalizeCustomLinkDisplay_def split: option.splits json.splits)

lemma normalizeCustomLink_valid:
  assumes "normalizeCustomLink protocol raw i = Some l"
  shows "valid_link protocol l"
proof -
  let ?id = "trimmedProp raw (js ''id'')"
  have "valid_link protocol l \<longleftrightarrow> True"
    if "l = \<lparr>cl_id = (if ?id \<noteq> [] then ?id else js ''custom-link-'' @ dec (i + 1)),
         cl_title = trimmedProp raw (js ''title''), cl_href = trimmedProp raw (js ''href''),
         cl_enabled = e, cl_external = x, cl_requireAuth = r, cl_position = normalizeCustomLinkPosition p,
         cl_display = normalizeCustomLinkDisplay d (if iconProp raw \<noteq> None then js ''icon'' else js ''text''),
         cl_icon = iconProp raw\<rparr>"
      and "trimmedProp raw (js ''title'') \<noteq> []" "trimmedProp raw (js ''href'') \<noteq> []"
        "isSafeHeaderNavUrl protocol (trimmedProp raw (js ''href''))" for e x r p d
    using that trimmedProp_trimmed [of raw] trimmed_generated_id [of "i + 1"] normalized_position [of p]
      normalized_display [of "if iconProp raw \<noteq> None then js ''icon'' else js ''text''" d]
    by (simp add: valid_link_def iconProp_def HEADER_NAV_CUSTOM_LINK_DISPLAYS_def del: js_Cons)
  then show ?thesis
    using assms unfolding normalizeCustomLink_def Let_def by (auto simp del: js_Cons split: if_split_asm)
qed

lemma parseCustomLinks_valid: "list_all (valid_link protocol) (parseCustomLinks protocol raw)"
  using normalizeCustomLink_valid
  by (auto simp: list_all_iff parseCustomLinks_def map_filter_def split: json.splits)

lemma nav_wf_putFlag:
  "nav_wf protocol m \<Longrightarrow> k \<notin> {js ''pricing'', js ''rankings'', js ''customLinks''} \<Longrightarrow> nav_wf protocol (putFlag m k b)"
  unfolding putFlag_def by (auto simp del: js_Cons intro!: nav_wf_put)

lemma navEntry_wf: "nav_wf protocol m \<Longrightarrow> nav_wf protocol (navEntry protocol base m e)"
proof -
  assume m: "nav_wf protocol m"
  obtain k raw where e: "e = (k, raw)" by (cases e)
  consider "k = js ''pricing'' \<or> k = js ''rankings''" | "k = js ''customLinks''"
    | "k \<notin> {js ''pricing'', js ''rankings'', js ''customLinks''}" by blast
  then show ?thesis
  proof cases
    case 1
    then have "navEntry protocol base m e = obj_put m k (NavAccess (parseAccessModule raw (accessOf base k)))"
      by (auto simp: navEntry_def e simp del: js_Cons)
    then show ?thesis using nav_wf_put [OF m] 1 by (simp del: js_Cons)
  next
    case 2
    then have "navEntry protocol base m e = obj_put m k (NavLinks (parseCustomLinks protocol raw))"
      by (simp add: navEntry_def e)
    then show ?thesis using nav_wf_put [OF m] parseCustomLinks_valid 2 by (simp del: js_Cons)
  next
    case 3
    then show ?thesis
      using nav_wf_putFlag [OF m 3] m by (auto simp: navEntry_def e simp del: js_Cons split: json.split)
  qed
qed

lemma customLinksOf_valid: "nav_wf protocol m \<Longrightarrow> l \<in> set (customLinksOf m) \<Longrightarrow> valid_link protocol l"
proof -
  assume m: "nav_wf protocol m" and l: "l \<in> set (customLinksOf m)"
  show ?thesis
  proof (cases "oget m (js ''customLinks'')")
    case (Some v)
    then have "(js ''customLinks'', v) \<in> set m" by (simp add: oget_def map_of_SomeD del: js_Cons)
    then show ?thesis using m l Some
      by (cases v) (auto simp: nav_wf_def customLinksOf_def list_all_iff simp del: js_Cons)
  qed (use l in \<open>simp add: customLinksOf_def del: js_Cons\<close>)
qed

lemma parsed_nav_wf: "nav_wf protocol (parseHeaderNavModules protocol s)"
proof -
  have "nav_wf protocol (foldl (navEntry protocol base) m es)" if "nav_wf protocol m" for base m es
    using that by (induction es arbitrary: m) (simp_all add: navEntry_wf)
  then show ?thesis
    using nav_wf_default by (auto simp: parseHeaderNavModules_def split: option.split)
qed

text \<open>
  C24. Whatever text the backend holds, the configuration read from it is well formed: every built-in
  module is present with a value of its type, the two access-controlled modules carry an access
  record, and every custom link has a non-blank trimmed title, identifier and target, a known
  position and display mode, and a target that passed the URL check.
\<close>

theorem header_nav_well_formed:
  "let m = parseHeaderNavModules protocol s in
   nav_wf protocol m \<and> fst ` set HEADER_NAV_DEFAULT \<subseteq> dom (oget m) \<and>
   set (customLinksOf m) \<subseteq> {l. valid_link protocol l}"
proof -
  define m where "m = parseHeaderNavModules protocol s"
  have m: "nav_wf protocol m" by (simp add: m_def parsed_nav_wf)
  have "dom (oget m) = fst ` set m"
    by (metis (no_types, lifting) domIff oget_eq_None subsetI subset_antisym)
  then show ?thesis
    using m customLinksOf_valid [OF m] by (auto simp: Let_def m_def [symmetric] nav_wf_def)
qed

section \<open>Reading back what was written\<close>

lemma toBoolean_JBool [simp]: "toBoolean (Some (JBool b)) f = b"
  by (simp add: toBoolean_def)

lemma parse_accessJson: "parseAccessModule (accessJson a) fallback = a"
  by (simp add: parseAccessModule_def accessJson_def)

lemma normalize_linkJson:
  assumes "valid_link protocol l"
  shows "normalizeCustomLink protocol (linkJson l) i = Some l"
proof -
  note v = assms [unfolded valid_link_def]
  have id: "trimmedProp (linkJson l) (js ''id'') = cl_id l"
    and title: "trimmedProp (linkJson l) (js ''title'') = cl_title l"
    and href: "trimmedProp (linkJson l) (js ''href'') = cl_href l"
    using v by (simp_all add: trimmedProp_def linkJson_def js_trim_id)
  have icon: "iconProp (linkJson l) = cl_icon l"
    using v by (cases "cl_icon l") (simp_all add: iconProp_def trimmedProp_def linkJson_def js_trim_id)
  have pos: "normalizeCustomLinkPosition (jget (linkJson l) (js ''position'')) = cl_position l"
    using v by (simp add: linkJson_def normalizeCustomLinkPosition_def)
  have disp: "normalizeCustomLinkDisplay (jget (linkJson l) (js ''display'')) d = cl_display l" for d
    using v by (simp add: linkJson_def normalizeCustomLinkDisplay_def)
  have flags: "jget (linkJson l) (js ''enabled'') = Some (JBool (cl_enabled l))"
    "jget (linkJson l) (js ''external'') = Some (JBool (cl_external l))"
    "jget (linkJson l) (js ''requireAuth'') = Some (JBool (cl_requireAuth l))"
    by (simp_all add: linkJson_def)
  have "is_object (linkJson l)" by (simp add: linkJson_def is_object_def)
  then show ?thesis using v
    by (simp add: normalizeCustomLink_def Let_def id title href icon pos disp flags del: js_Cons)
qed

lemma map_filter_zip_id:
  "length is = length ls \<Longrightarrow> (\<And>l i. l \<in> set ls \<Longrightarrow> f (g l, i) = Some l) \<Longrightarrow> List.map_filter f (zip (map g ls) is) = ls"
proof (induction ls arbitrary: "is")
  case (Cons l ls)
  then show ?case by (cases "is") (auto simp: map_filter_def)
qed (simp add: map_filter_def)

lemma parse_links: "list_all (valid_link protocol) ls \<Longrightarrow> parseCustomLinks protocol (JArr (map linkJson ls)) = ls"
  unfolding parseCustomLinks_def
  by (simp add: map_filter_zip_id normalize_linkJson list_all_iff)

lemma navEntry_navJson:
  assumes "valid_value protocol k v"
  shows "navEntry protocol base m (k, navJson v) = obj_put m k v"
proof (cases v)
  case (NavBool b)
  then show ?thesis using assms by (simp add: navEntry_def putFlag_def del: js_Cons)
next
  case (NavAccess a)
  then show ?thesis using assms parse_accessJson by (auto simp: navEntry_def simp del: js_Cons)
next
  case (NavLinks ls)
  then show ?thesis using assms parse_links by (simp add: navEntry_def)
qed

lemma foldl_navEntry:
  "list_all (\<lambda>(k, v). valid_value protocol k v) ps \<Longrightarrow>
   foldl (navEntry protocol base) m (map (apsnd navJson) ps) = foldl (\<lambda>m (k, v). obj_put m k v) m ps"
  by (induction ps arbitrary: m) (auto simp: navEntry_navJson)

definition nav_text_ok :: "HeaderNavModulesConfig \<Rightarrow> bool" where
  "nav_text_ok m \<longleftrightarrow> (\<forall>(k, v) \<in> set m. utf16 k \<and>
     (case v of NavLinks ls \<Rightarrow> \<forall>l \<in> set ls. utf16 (cl_id l) \<and> utf16 (cl_title l) \<and> utf16 (cl_href l) \<and>
          utf16 (cl_position l) \<and> utf16 (cl_display l) \<and> (\<forall>i. cl_icon l = Some i \<longrightarrow> utf16 i)
      | _ \<Rightarrow> True))"

lemma wf_accessJson: "json_wf (accessJson a)"
proof -
  have "obj_of [(js ''enabled'', JBool x), (js ''requireAuth'', JBool y)] =
      [(js ''enabled'', JBool x), (js ''requireAuth'', JBool y)]" for x y
    by (rule obj_of_plain) (simp_all add: is_index_def is_digit_def)
  then show ?thesis by (simp add: accessJson_def)
qed

lemma wf_linkJson:
  assumes "utf16 (cl_id l)" "utf16 (cl_title l)" "utf16 (cl_href l)" "utf16 (cl_position l)"
    "utf16 (cl_display l)" "\<forall>i. cl_icon l = Some i \<longrightarrow> utf16 i"
  shows "json_wf (linkJson l)"
proof -
  obtain ps where ps: "linkJson l = JObj ps" by (simp add: linkJson_def)
  have "obj_of ps = ps"
    by (rule obj_of_plain) (use ps in \<open>auto simp: linkJson_def is_index_def is_digit_def split: option.splits\<close>)
  then show ?thesis using assms ps by (auto simp: linkJson_def split: option.splits)
qed

lemma wf_navJson:
  assumes "nav_text_ok m" and "(k, v) \<in> set m"
  shows "json_wf (navJson v)"
proof (cases v)
  case (NavLinks ls)
  have "\<forall>l \<in> set ls. json_wf (linkJson l)"
    using assms NavLinks wf_linkJson by (fastforce simp: nav_text_ok_def)
  then show ?thesis using NavLinks by simp
qed (simp_all add: wf_accessJson)

text \<open>
  C25. Saving and loading the header configuration loses nothing: for every well-formed
  configuration, reading the text that was written gives a configuration with the same value for
  every key, custom links included.
\<close>

theorem header_nav_roundtrip:
  assumes "nav_wf protocol m" and "nav_text_ok m"
  shows "oget (parseHeaderNavModules protocol (serializeHeaderNavModules m)) k = oget m k"
proof -
  let ?j = "JObj (map (apsnd navJson) m)"
  have "obj_of (map (apsnd navJson) m) = map (apsnd navJson) m"
    using assms(1) by (intro obj_of_is_obj) (simp add: is_obj_map nav_wf_def)
  moreover have "\<forall>(k', w) \<in> set (map (apsnd navJson) m). utf16 k' \<and> json_wf w"
    using assms(2) wf_navJson [OF assms(2)] by (auto simp: nav_text_ok_def)
  ultimately have "json_wf ?j" by (simp del: set_map)
  then have p: "json_parse (serializeHeaderNavModules m) = Some ?j"
    unfolding serializeHeaderNavModules_def by (rule json_roundtrip)
  have ne: "serializeHeaderNavModules m \<noteq> []" by (simp add: serializeHeaderNavModules_def)
  have d: "distinct (map fst m)" "list_all (\<lambda>(k, v). valid_value protocol k v) m"
    "fst ` set HEADER_NAV_DEFAULT \<subseteq> fst ` set m"
    using assms(1) by (simp_all add: nav_wf_def is_obj_def)
  have "parseHeaderNavModules protocol (serializeHeaderNavModules m) =
      foldl (\<lambda>m (k, v). obj_put m k v) cloneHeaderNavDefault m"
    using ne by (simp add: parseHeaderNavModules_def p json_entries_def foldl_navEntry [OF d(2)])
  moreover have "oget cloneHeaderNavDefault k = None" if "oget m k = None"
    using that d(3) nav_wf_default [of protocol]
    by (auto simp: oget_eq_None cloneHeaderNavDefault_def obj_put_keys HEADER_NAV_DEFAULT_def)
  ultimately show ?thesis using oget_foldl_put [OF d(1)] by (auto split: option.split)
qed

definition demo_link :: HeaderNavCustomLinkConfig where
  "demo_link = \<lparr>cl_id = js ''s'', cl_title = js ''Status'', cl_href = js ''/status'', cl_enabled = True,
     cl_external = False, cl_requireAuth = True, cl_position = js ''after_docs'', cl_display = js ''icon'',
     cl_icon = Some (js ''pulse'')\<rparr>"

definition demo_nav :: HeaderNavModulesConfig where
  "demo_nav = obj_put (obj_put HEADER_NAV_DEFAULT (js ''customLinks'') (NavLinks [demo_link])) (js ''blog'') (NavBool False)"

lemma demo_nav_ok: "nav_wf (\<lambda>_. None) demo_nav" "nav_text_ok demo_nav"
proof -
  have "HEADER_NAV_DEFAULT = cloneHeaderNavDefault"
    by (simp add: cloneHeaderNavDefault_def HEADER_NAV_DEFAULT_def obj_put_def)
  moreover have "valid_link (\<lambda>_. None) demo_link" by code_simp
  ultimately show "nav_wf (\<lambda>_. None) demo_nav"
    unfolding demo_nav_def by (auto intro!: nav_wf_put simp: nav_wf_default)
  have d: "demo_nav = [(js ''home'', NavBool True), (js ''console'', NavBool True), (js ''pricing'', NavAccess open_access),
      (js ''rankings'', NavAccess open_access), (js ''docs'', NavBool True), (js ''about'', NavBool True),
      (js ''customLinks'', NavLinks [demo_link]), (js ''blog'', NavBool False)]" by code_simp
  show "nav_text_ok demo_nav" unfolding nav_text_ok_def d by (simp add: demo_link_def)
qed

theorem header_nav_roundtrip_witness:
  "oget (parseHeaderNavModules (\<lambda>_. None) (serializeHeaderNavModules demo_nav)) (js ''customLinks'')
     = Some (NavLinks [demo_link])"
  using header_nav_roundtrip [OF demo_nav_ok, of "js ''customLinks''"]
  by (simp add: demo_nav_def oget_obj_put)

section \<open>The links shown\<close>

lemma positions_distinct: "distinct HEADER_NAV_CUSTOM_LINK_POSITIONS"
  by code_simp

lemma positions_split:
  "HEADER_NAV_CUSTOM_LINK_POSITIONS =
     map js [''after_console'', ''after_pricing'', ''after_rankings'', ''after_docs'', ''end'']
     @ HEADER_NAV_UTILITY_CUSTOM_LINK_POSITIONS"
  by code_simp

lemma sum_list_one:
  fixes c :: "'a multiset"
  shows "distinct ps \<Longrightarrow> q \<in> set ps \<Longrightarrow> (\<Sum>p \<leftarrow> ps. f p + (if p = q then c else {#})) = (\<Sum>p \<leftarrow> ps. f p) + c"
proof (induction ps)
  case (Cons p ps)
  have absent: "(\<Sum>p \<leftarrow> ps. f p + (if p = q then c else {#})) = (\<Sum>p \<leftarrow> ps. f p)" if "q \<notin> set ps"
    using that by (induction ps) auto
  show ?case using Cons absent by (cases "p = q") (auto simp: add_ac)
qed simp

lemma partition_by_key:
  assumes "distinct ps"
  shows "\<forall>l \<in> set ls. key l \<in> set ps \<Longrightarrow>
    (\<Sum>p \<leftarrow> ps. mset (filter (\<lambda>l. P l \<and> key l = p) ls)) = mset (filter P ls)"
proof (induction ls)
  case Nil
  have "(\<Sum>p \<leftarrow> qs. {#}) = {#}" for qs :: "'c list" by (induction qs) auto
  then show ?case by simp
next
  case (Cons l ls)
  show ?case
  proof (cases "P l")
    case True
    have "(\<Sum>p \<leftarrow> ps. mset (filter (\<lambda>l. P l \<and> key l = p) (l # ls))) =
        (\<Sum>p \<leftarrow> ps. mset (filter (\<lambda>l. P l \<and> key l = p) ls) + (if p = key l then {#l#} else {#}))"
      using True by (intro arg_cong [of _ _ sum_list] map_cong) auto
    also have "\<dots> = (\<Sum>p \<leftarrow> ps. mset (filter (\<lambda>l. P l \<and> key l = p) ls)) + {#l#}"
      by (rule sum_list_one [OF assms]) (use Cons.prems in simp)
    also have "\<dots> = mset (filter P ls) + {#l#}" using Cons by simp
    finally show ?thesis using True by simp
  qed (use Cons in simp)
qed

definition custom_at :: "HeaderNavModulesConfig \<Rightarrow> bool \<Rightarrow> jstr \<Rightarrow> TopNavLink list" where
  "custom_at m isAuthed position =
     map (customLinkToTopNavLink isAuthed) (filter (\<lambda>l. cl_enabled l \<and> cl_position l = position) (customLinksOf m))"

definition allLinks :: "(jstr \<times> TopNavLink list) list \<Rightarrow> TopNavLink list" where
  "allLinks slots = concat (map snd slots)"

lemma slots_links:
  "allLinks (buildTopNavLinkSlots t m docs isAuthed) =
     buildTopNavLinks t m docs isAuthed @ concat (map (custom_at m isAuthed) HEADER_NAV_UTILITY_CUSTOM_LINK_POSITIONS)"
  by (simp add: allLinks_def buildTopNavLinkSlots_def addUtilityCustomLinks_def createEmptyTopNavLinkSlots_def
      HEADER_NAV_UTILITY_CUSTOM_LINK_POSITIONS_def obj_put_def custom_at_def appendCustomLinks_def)

lemma build_links:
  "mset (buildTopNavLinks t m docs isAuthed) =
     mset (buildTopNavLinks t (obj_put m (js ''customLinks'') (NavLinks [])) docs isAuthed) +
     (\<Sum>p \<leftarrow> map js [''after_console'', ''after_pricing'', ''after_rankings'', ''after_docs'', ''end''].
        mset (custom_at m isAuthed p))"
proof -
  have f: "flagLinks (obj_put m (js ''customLinks'') v) k l = flagLinks m k l"
    and a: "accessLinks (obj_put m (js ''customLinks'') v) k b l = accessLinks m k b l"
    if "k \<noteq> js ''customLinks''" for v k l b
    using that by (simp_all add: flagLinks_def accessLinks_def notFalse_def oget_obj_put del: js_Cons)
  have "customLinksOf (obj_put m (js ''customLinks'') (NavLinks [])) = []"
    by (simp add: customLinksOf_def oget_obj_put del: js_Cons)
  moreover have "js ''home'' \<noteq> js ''customLinks''" "js ''console'' \<noteq> js ''customLinks''"
    "js ''pricing'' \<noteq> js ''customLinks''" "js ''rankings'' \<noteq> js ''customLinks''"
    "js ''docs'' \<noteq> js ''customLinks''" "js ''about'' \<noteq> js ''customLinks''" by simp_all
  ultimately show ?thesis
    by (simp add: buildTopNavLinks_def Let_def appendCustomLinks_def custom_at_def f a add_ac del: js_Cons)
qed

text \<open>
  C26. Every enabled custom link is shown exactly once: over all slots of the header, the links are
  the built-in ones of the configuration together with one link per enabled custom link, whatever
  text the configuration came from.
\<close>

theorem custom_links_shown_once:
  "let m = parseHeaderNavModules protocol s in
   mset (allLinks (buildTopNavLinkSlots t m docs isAuthed)) =
     mset (buildTopNavLinks t (obj_put m (js ''customLinks'') (NavLinks [])) docs isAuthed) +
     mset (map (customLinkToTopNavLink isAuthed) (filter cl_enabled (customLinksOf m)))"
proof -
  define m where "m = parseHeaderNavModules protocol s"
  let ?at = "\<lambda>p. mset (custom_at m isAuthed p)"
  have util: "mset (concat (map (custom_at m isAuthed) ps)) = (\<Sum>p \<leftarrow> ps. ?at p)" for ps
    by (induction ps) auto
  have keys: "\<forall>l \<in> set (customLinksOf m). cl_position l \<in> set HEADER_NAV_CUSTOM_LINK_POSITIONS"
    using customLinksOf_valid [of protocol m] parsed_nav_wf [of protocol s]
    by (auto simp: m_def valid_link_def)
  have at: "?at p = image_mset (customLinkToTopNavLink isAuthed)
      (mset (filter (\<lambda>l. cl_enabled l \<and> cl_position l = p) (customLinksOf m)))" for p
    by (simp add: custom_at_def)
  have img: "(\<Sum>p \<leftarrow> ps. image_mset g (h p)) = image_mset g (\<Sum>p \<leftarrow> ps. h p)" for g h and ps :: "jstr list"
    by (induction ps) auto
  have "(\<Sum>p \<leftarrow> HEADER_NAV_CUSTOM_LINK_POSITIONS. ?at p) =
      mset (map (customLinkToTopNavLink isAuthed) (filter cl_enabled (customLinksOf m)))"
    unfolding at img partition_by_key [OF positions_distinct keys] by simp
  moreover have "(\<Sum>p \<leftarrow> HEADER_NAV_CUSTOM_LINK_POSITIONS. ?at p) =
      (\<Sum>p \<leftarrow> map js [''after_console'', ''after_pricing'', ''after_rankings'', ''after_docs'', ''end'']. ?at p) +
      (\<Sum>p \<leftarrow> HEADER_NAV_UTILITY_CUSTOM_LINK_POSITIONS. ?at p)"
    by (simp only: positions_split map_append sum_list_append)
  ultimately show ?thesis
    unfolding Let_def m_def [symmetric] slots_links mset_append build_links [of t m] util
    by (simp only: add.assoc)
qed

section \<open>Which targets reach the header\<close>

text \<open>A path of this site (one slash in front), and an address the URL parser gives the protocol http or
  https.\<close>

definition site_path :: "jstr \<Rightarrow> bool" where
  "site_path h \<longleftrightarrow> h = [47] \<or> (\<exists>c r. h = 47 # c # r \<and> c \<noteq> 47)"

definition web_address :: "(jstr \<Rightarrow> jstr option) \<Rightarrow> jstr \<Rightarrow> bool" where
  "web_address protocol h \<longleftrightarrow> (\<nexists>r. h = 47 # r) \<and> protocol h \<in> {Some (js ''http:''), Some (js ''https:'')}"

text \<open>The title and target of an entry that describes a link: both are texts that are not blank, and
  the target is a path or a web address.\<close>

definition described :: "(jstr \<Rightarrow> jstr option) \<Rightarrow> json \<Rightarrow> (jstr \<times> jstr) option" where
  "described protocol item =
     (case (jget item (js ''title''), jget item (js ''href'')) of
        (Some (JStr t), Some (JStr h)) \<Rightarrow>
          if js_trim t \<noteq> [] \<and> js_trim h \<noteq> [] \<and> (site_path (js_trim h) \<or> web_address protocol (js_trim h))
          then Some (js_trim t, js_trim h) else None
      | _ \<Rightarrow> None)"

lemma safe_url: "h \<noteq> [] \<Longrightarrow> isSafeHeaderNavUrl protocol h \<longleftrightarrow> site_path h \<or> web_address protocol h"
  by (cases h; cases "tl h") (auto simp: isSafeHeaderNavUrl_def site_path_def web_address_def split: option.split)

lemma normalizeCustomLink_described:
  "map_option (\<lambda>l. (cl_title l, cl_href l)) (normalizeCustomLink protocol item n) = described protocol item"
proof -
  have "trimmedProp item k = (case jget item k of Some (JStr s) \<Rightarrow> js_trim s | _ \<Rightarrow> [])" for k by (simp add: trimmedProp_def)
  then show ?thesis
    using safe_url [of "trimmedProp item (js ''href'')" protocol]
    by (cases item) (auto simp: normalizeCustomLink_def is_object_def described_def Let_def simp del: js_Cons
        split: option.splits json.splits)
qed

lemma map_filter_map_option:
  "length ns = length xs \<Longrightarrow> (\<And>x n. map_option g (f x n) = h x) \<Longrightarrow>
   map g (List.map_filter (\<lambda>(x, n). f x n) (zip xs ns)) = List.map_filter h xs"
proof (induction xs arbitrary: ns)
  case (Cons x xs)
  obtain n ms where ns: "ns = n # ms" "length ms = length xs" using Cons.prems(1) by (cases ns) auto
  have "map g (List.map_filter (\<lambda>(x, n). f x n) (zip xs ms)) = List.map_filter h xs"
    using Cons.IH [OF ns(2) Cons.prems(2)] .
  moreover have "h x = map_option g (f x n)" using Cons.prems(2) by simp
  ultimately show ?case by (simp add: ns map_filter_simps split: option.split)
qed (simp add: map_filter_simps)

lemma parseCustomLinks_described:
  "map (\<lambda>l. (cl_title l, cl_href l)) (parseCustomLinks protocol (JArr xs)) = List.map_filter (described protocol) xs"
  by (simp add: parseCustomLinks_def map_filter_map_option [OF _ normalizeCustomLink_described])

lemma navEntry_customLinks:
  "oget (navEntry protocol base m (k, raw)) (js ''customLinks'') =
     (if k = js ''customLinks'' then Some (NavLinks (parseCustomLinks protocol raw)) else oget m (js ''customLinks''))"
proof -
  have "js ''customLinks'' \<noteq> js ''pricing''" "js ''customLinks'' \<noteq> js ''rankings''" "js ''pricing'' \<noteq> js ''rankings''"
    "js ''rankings'' \<noteq> js ''customLinks''" "js ''pricing'' \<noteq> js ''customLinks''" by simp_all
  then show ?thesis
    by (cases "k = js ''customLinks''"; cases "k = js ''pricing''"; cases "k = js ''rankings''")
      (simp_all add: navEntry_def oget_obj_put putFlag_def del: js_Cons split: json.split)
qed

lemma customLinks_read:
  assumes "json_parse s = Some (JObj ps)" "oget ps (js ''customLinks'') = Some raw"
  shows "customLinksOf (parseHeaderNavModules protocol s) = parseCustomLinks protocol raw"
proof -
  have "s \<noteq> []" using assms(1) by (auto simp: json_parse_def)
  moreover have "oget (foldl (navEntry protocol b) m es) (js ''customLinks'') =
      (case oget es (js ''customLinks'') of Some r \<Rightarrow> Some (NavLinks (parseCustomLinks protocol r)) | None \<Rightarrow> oget m (js ''customLinks''))"
    if "distinct (map fst es)" for b m es
    using that
  proof (induction es arbitrary: m)
    case (Cons e es)
    obtain k r where e: "e = (k, r)" by (cases e)
    have "oget es k = None" using Cons.prems e by (simp add: oget_eq_None)
    then show ?case using Cons e by (auto simp: navEntry_customLinks simp del: js_Cons split: option.split)
  qed simp
  moreover have "distinct (map fst ps)" using json_parse_object [OF assms(1)] by (simp add: is_obj_def)
  ultimately show ?thesis
    using assms by (simp add: parseHeaderNavModules_def customLinksOf_def json_entries_def del: js_Cons)
qed

lemma shown_targets:
  "tn_href ` set (allLinks (buildTopNavLinkSlots t m docs isAuthed)) \<subseteq>
     js ` {''/'', ''/dashboard'', ''/pricing'', ''/rankings'', ''/docs'', ''/about''} \<union> {docs} \<union>
     cl_href ` set (customLinksOf m)"
proof -
  have custom: "tn_href ` set (custom_at m isAuthed p) \<subseteq> cl_href ` set (customLinksOf m)" for p
    by (auto simp: custom_at_def customLinkToTopNavLink_def)
  have flags: "tn_href ` set (flagLinks m k l) \<subseteq> {tn_href l}" for k l by (auto simp: flagLinks_def)
  have access: "tn_href ` set (accessLinks m k b l) \<subseteq> {tn_href l}" for k b l
    by (auto simp: accessLinks_def split: option.splits NavValue.splits)
  have append: "appendCustomLinks ls (customLinksOf m) p isAuthed = ls @ custom_at m isAuthed p" for ls p
    by (simp add: appendCustomLinks_def custom_at_def)
  have docsL: "tn_href (docsLinks t docs) \<in> {js ''/docs'', docs}"
    by (simp add: docsLinks_def plainLink_def del: js_Cons)
  have plain: "tn_href (plainLink a h) = h" for a h by (simp add: plainLink_def)
  have "tn_href ` set (buildTopNavLinks t m docs isAuthed) \<subseteq>
      js ` {''/'', ''/dashboard'', ''/pricing'', ''/rankings'', ''/docs'', ''/about''} \<union> {docs} \<union>
      cl_href ` set (customLinksOf m)"
    unfolding buildTopNavLinks_def Let_def append set_append image_Un Un_subset_iff
    by (intro conjI; (rule order_trans [OF flags] order_trans [OF access] order_trans [OF custom])?)
      (use docsL in \<open>auto simp: plain simp del: js_Cons\<close>)
  moreover have "tn_href ` set (concat (map (custom_at m isAuthed) qs)) \<subseteq> cl_href ` set (customLinksOf m)" for qs
    using custom by (fastforce simp: image_subset_iff)
  ultimately show ?thesis unfolding slots_links set_append image_Un by blast
qed

text \<open>
  C27. The custom links read from a configuration text are exactly its entries, in order, whose title
  and target are non-blank texts and whose target is a path with a single slash in front or an
  address of protocol http or https according to the URL parser; every other entry is dropped.  The
  header then leads only to its fixed pages, the configured documentation link and those targets.
\<close>

theorem header_link_targets:
  assumes "json_parse s = Some (JObj ps)" and "oget ps (js ''customLinks'') = Some (JArr xs)"
  shows "map (\<lambda>l. (cl_title l, cl_href l)) (customLinksOf (parseHeaderNavModules protocol s)) =
      List.map_filter (described protocol) xs \<and>
    tn_href ` set (allLinks (buildTopNavLinkSlots t (parseHeaderNavModules protocol s) docs isAuthed)) \<subseteq>
      js ` {''/'', ''/dashboard'', ''/pricing'', ''/rankings'', ''/docs'', ''/about''} \<union> {docs} \<union>
      snd ` set (List.map_filter (described protocol) xs)"
proof -
  have read: "map (\<lambda>l. (cl_title l, cl_href l)) (customLinksOf (parseHeaderNavModules protocol s)) =
      List.map_filter (described protocol) xs"
    by (simp only: customLinks_read [OF assms] parseCustomLinks_described)
  have "cl_href ` set (customLinksOf (parseHeaderNavModules protocol s)) = snd ` set (List.map_filter (described protocol) xs)"
    unfolding read [symmetric] by (simp add: image_image)
  then show ?thesis using read shown_targets [of t "parseHeaderNavModules protocol s" docs isAuthed] by simp
qed

theorem header_link_targets_witness:
  "map (\<lambda>l. (cl_title l, cl_href l)) (customLinksOf (parseHeaderNavModules (\<lambda>_. Some (js ''ftp:''))
     (js ''{\"customLinks\":[{\"title\":\"A\",\"href\":\" /a \"},{\"title\":\"B\",\"href\":\"//b\"},{\"title\":\"C\",\"href\":\"ftp://c\"}]}''))) =
   [(js ''A'', js ''/a'')]"
proof -
  let ?s = "js ''{\"customLinks\":[{\"title\":\"A\",\"href\":\" /a \"},{\"title\":\"B\",\"href\":\"//b\"},{\"title\":\"C\",\"href\":\"ftp://c\"}]}''"
  let ?e = "\<lambda>t h. JObj [(js ''title'', JStr (js t)), (js ''href'', JStr (js h))]"
  let ?xs = "[?e ''A'' '' /a '', ?e ''B'' ''//b'', ?e ''C'' ''ftp://c'']"
  have p: "json_parse ?s = Some (JObj [(js ''customLinks'', JArr ?xs)])" by code_simp
  moreover have "oget [(js ''customLinks'', JArr ?xs)] (js ''customLinks'') = Some (JArr ?xs)" by simp
  moreover have "List.map_filter (described (\<lambda>_. Some (js ''ftp:''))) ?xs = [(js ''A'', js ''/a'')]"
    by (simp add: described_def map_filter_simps site_path_def web_address_def js_trim_def is_ws_def oget_def)
  ultimately show ?thesis
    using conjunct1 [OF header_link_targets [of ?s, OF p, of ?xs "\<lambda>_. Some (js ''ftp:'')" t "[]" True]] by (simp del: js_Cons)
qed

text \<open>
  The test for same-site targets looks only for a second slash: a target that starts with a
  slash and a backslash is accepted without consulting the URL parser, and a configured link to
  \<^verbatim>\<open>/\evil.example\<close> is read as an internal link (browsers resolve it to another host).
\<close>

theorem backslash_target_accepted:
  "isSafeHeaderNavUrl protocol (47 # 92 # rest) \<and>
   map_option (\<lambda>l. (cl_href l, cl_external l)) (normalizeCustomLink protocol
      (JObj [(js ''title'', JStr (js ''x'')), (js ''href'', JStr ([47, 92] @ js ''evil.example''))]) 0) =
     Some ([47, 92] @ js ''evil.example'', False)"
  by (simp add: isSafeHeaderNavUrl_def normalizeCustomLink_def trimmedProp_def js_trim_def
      is_object_def toBoolean_def Let_def oget_def is_ws_def)

end
