(* ===== verification/Sidebar.thy ===== *)
theory Sidebar
  imports Header_Nav "HOL-Library.Sublist"
begin

text \<open>
  The sidebar: the administrator's module settings as the settings page reads and writes them
  (\<^verbatim>\<open>parseSidebarModulesAdmin\<close> and \<^verbatim>\<open>serializeSidebarModulesAdmin\<close> of
  \<^verbatim>\<open>features/system-settings/maintenance/config.ts\<close>) and the filter of \<^verbatim>\<open>hooks/use-sidebar-config.ts\<close>
  that shows the navigation entries both the administrator and the user allow.
\<close>

section \<open>The settings page\<close>

type_synonym SidebarSectionConfig = "(jstr \<times> bool) list"
type_synonym SidebarModulesAdminConfig = "(jstr \<times> SidebarSectionConfig) list"

definition all_on :: "string list \<Rightarrow> SidebarSectionConfig" where
  "all_on names = map (\<lambda>n. (js n, True)) names"

definition SIDEBAR_MODULES_DEFAULT :: SidebarModulesAdminConfig where
  "SIDEBAR_MODULES_DEFAULT =
     [(js ''chat'', all_on [''enabled'', ''playground'', ''chat'']),
      (js ''console'', all_on [''enabled'', ''detail'', ''token'', ''log'', ''midjourney'', ''task'']),
      (js ''personal'', all_on [''enabled'', ''topup'', ''personal'']),
      (js ''admin'', all_on [''enabled'', ''channel'', ''models'', ''redemption'', ''user'', ''setting'', ''subscription''])]"

definition cloneSidebarDefault :: SidebarModulesAdminConfig where
  "cloneSidebarDefault = foldl (\<lambda>acc (section, config). obj_put acc section (obj_of config)) [] SIDEBAR_MODULES_DEFAULT"

definition flag_or_true :: "SidebarSectionConfig \<Rightarrow> jstr \<Rightarrow> bool" where
  "flag_or_true section key = (case oget section key of Some b \<Rightarrow> b | None \<Rightarrow> True)"

text \<open>One section of the parsed settings.  Section and module names that every object inherits
  (\<^const>\<open>inherited_names\<close>) are outside the model: for them the assignments and look-ups of the code
  reach the prototype.\<close>

definition sectionOf :: "SidebarSectionConfig \<Rightarrow> json \<Rightarrow> (jstr \<times> json) list \<Rightarrow> SidebarSectionConfig" where
  "sectionOf defaultSection raw entries =
     foldl (\<lambda>sectionConfig (moduleKey, moduleValue).
         if moduleKey = js ''enabled'' then sectionConfig
         else obj_put sectionConfig moduleKey (toBoolean (Some moduleValue) (flag_or_true defaultSection moduleKey)))
       [(js ''enabled'', toBoolean (jget raw (js ''enabled'')) (flag_or_true defaultSection (js ''enabled'')))] entries"

definition sidebarEntry :: "SidebarModulesAdminConfig \<Rightarrow> SidebarModulesAdminConfig \<Rightarrow> jstr \<times> json \<Rightarrow> SidebarModulesAdminConfig" where
  "sidebarEntry defaults result e =
     (case e of (sectionKey, raw) \<Rightarrow>
        if \<not> is_object raw then result
        else (case json_entries raw of
           None \<Rightarrow> result
         | Some entries \<Rightarrow>
             obj_put result sectionKey
               (sectionOf (case oget defaults sectionKey of Some d \<Rightarrow> d | None \<Rightarrow> [(js ''enabled'', True)]) raw entries)))"

definition addMissing :: "SidebarSectionConfig \<Rightarrow> jstr \<times> bool \<Rightarrow> SidebarSectionConfig" where
  "addMissing section e =
     (case e of (moduleKey, moduleValue) \<Rightarrow>
        if oget section moduleKey = None then obj_put section moduleKey moduleValue else section)"

definition mergeDefault :: "SidebarModulesAdminConfig \<Rightarrow> jstr \<times> SidebarSectionConfig \<Rightarrow> SidebarModulesAdminConfig" where
  "mergeDefault result e =
     (case e of (sectionKey, config) \<Rightarrow>
        (case oget result sectionKey of
           None \<Rightarrow> obj_put result sectionKey (obj_of config)
         | Some section \<Rightarrow> obj_put result sectionKey (foldl addMissing section config)))"

definition parseSidebarModulesAdmin :: "jstr \<Rightarrow> SidebarModulesAdminConfig" where
  "parseSidebarModulesAdmin s =
     (if js_trim s = [] then cloneSidebarDefault
      else (case Option.bind (json_parse s) json_entries of
         None \<Rightarrow> cloneSidebarDefault
       | Some entries \<Rightarrow>
           foldl mergeDefault (foldl (sidebarEntry cloneSidebarDefault) [] entries) cloneSidebarDefault))"

definition sectionJson :: "SidebarSectionConfig \<Rightarrow> json" where
  "sectionJson section = JObj (map (apsnd JBool) section)"

definition serializeSidebarModulesAdmin :: "SidebarModulesAdminConfig \<Rightarrow> jstr" where
  "serializeSidebarModulesAdmin config = json_str (JObj (map (apsnd sectionJson) config))"

section \<open>The filter\<close>

text \<open>The configuration the sidebar works with: sections are JSON values as parsed.\<close>

type_synonym SidebarConfig = "(jstr \<times> json) list"

definition default_section :: "string list \<Rightarrow> json" where
  "default_section names = JObj (map (\<lambda>n. (js n, JBool True)) names)"

definition DEFAULT_SIDEBAR_MODULES :: SidebarConfig where
  "DEFAULT_SIDEBAR_MODULES =
     [(js ''chat'', default_section [''enabled'', ''playground'', ''chat'']),
      (js ''console'', default_section [''enabled'', ''detail'', ''token'', ''log'', ''midjourney'', ''task'']),
      (js ''personal'', default_section [''enabled'', ''topup'', ''personal'']),
      (js ''admin'', default_section [''enabled'', ''channel'', ''models'', ''redemption'', ''user'', ''setting'', ''subscription''])]"

definition fillModule :: "(jstr \<times> json) list \<Rightarrow> jstr \<times> json \<Rightarrow> (jstr \<times> json) list" where
  "fillModule section e =
     (case e of (moduleKey, v) \<Rightarrow> if oget section moduleKey = None then obj_put section moduleKey v else section)"

definition mergeSection :: "SidebarConfig \<Rightarrow> jstr \<times> json \<Rightarrow> SidebarConfig" where
  "mergeSection merged e =
     (case e of (sectionKey, defaultSection) \<Rightarrow>
        (case oget merged sectionKey of
           None \<Rightarrow> obj_put merged sectionKey (JObj (obj_of (spread_of defaultSection)))
         | Some existing \<Rightarrow>
             if \<not> json_truthy existing then obj_put merged sectionKey (JObj (obj_of (spread_of defaultSection)))
             else obj_put merged sectionKey
               (JObj (foldl fillModule (spread_over (obj_of (spread_of defaultSection)) (spread_of existing))
                  (spread_of defaultSection)))))"

definition mergeWithDefaultSidebarModules :: "json \<Rightarrow> SidebarConfig" where
  "mergeWithDefaultSidebarModules config = foldl mergeSection (obj_of (spread_of config)) DEFAULT_SIDEBAR_MODULES"

definition at_section :: "string \<Rightarrow> string \<Rightarrow> string \<Rightarrow> jstr \<times> jstr \<times> jstr" where
  "at_section url section module_name = (js url, js section, js module_name)"

definition URL_TO_CONFIG_MAP :: "(jstr \<times> jstr \<times> jstr) list" where
  "URL_TO_CONFIG_MAP =
     [at_section ''/playground'' ''chat'' ''playground'',
      at_section ''/dashboard'' ''console'' ''detail'',
      at_section ''/dashboard/overview'' ''console'' ''detail'',
      at_section ''/dashboard/models'' ''console'' ''detail'',
      at_section ''/dashboard/users'' ''console'' ''detail'',
      at_section ''/keys'' ''console'' ''token'',
      at_section ''/usage-logs'' ''console'' ''log'',
      at_section ''/usage-logs/common'' ''console'' ''log'',
      at_section ''/usage-logs/drawing'' ''console'' ''midjourney'',
      at_section ''/usage-logs/task'' ''console'' ''task'',
      at_section ''/wallet'' ''personal'' ''topup'',
      at_section ''/profile'' ''personal'' ''personal'',
      at_section ''/channels'' ''admin'' ''channel'',
      at_section ''/models'' ''admin'' ''models'',
      at_section ''/models/metadata'' ''admin'' ''models'',
      at_section ''/models/deployments'' ''admin'' ''models'',
      at_section ''/users'' ''admin'' ''user'',
      at_section ''/redemption-codes'' ''admin'' ''redemption'',
      at_section ''/subscriptions'' ''admin'' ''subscription'',
      at_section ''/system-settings'' ''admin'' ''setting'',
      at_section ''/system-settings/site'' ''admin'' ''setting'']"

text \<open>The look-up by address: an inherited name gives a value without \<^verbatim>\<open>section\<close> and \<^verbatim>\<open>module\<close>.\<close>

definition urlMapping :: "jstr \<Rightarrow> (jstr \<times> jstr) option" where
  "urlMapping url =
     (case oget URL_TO_CONFIG_MAP url of
        Some m \<Rightarrow> Some m
      | None \<Rightarrow> if url \<in> set inherited_names then Some (js ''undefined'', js ''undefined'') else None)"

definition parseSidebarConfig :: "jstr \<Rightarrow> SidebarConfig" where
  "parseSidebarConfig s =
     (if js_trim s = [] then DEFAULT_SIDEBAR_MODULES
      else (case json_parse s of
         None \<Rightarrow> DEFAULT_SIDEBAR_MODULES
       | Some parsed \<Rightarrow> mergeWithDefaultSidebarModules parsed))"

definition parseUserSidebarConfig :: "jstr \<Rightarrow> json option" where
  "parseUserSidebarConfig s =
     (if js_trim s = [] then None
      else (case json_parse s of
         None \<Rightarrow> None
       | Some parsed \<Rightarrow> if is_object parsed then Some parsed else None))"

definition truthy :: "json option \<Rightarrow> bool" where
  "truthy v = (case v of None \<Rightarrow> False | Some j \<Rightarrow> json_truthy j)"

definition prop_of :: "json option \<Rightarrow> jstr \<Rightarrow> json option" where
  "prop_of v k = Option.bind v (\<lambda>j. jget j k)"

definition moduleVisible :: "SidebarConfig \<Rightarrow> json option \<Rightarrow> jstr \<Rightarrow> jstr \<Rightarrow> bool" where
  "moduleVisible adminConfig userConfig section module_name =
     (let adminSection = oget adminConfig section in
      if \<not> (truthy adminSection \<and> truthy (prop_of adminSection (js ''enabled'')) \<and>
             prop_of adminSection module_name = Some (JBool True)) then False
      else (case userConfig of
         None \<Rightarrow> True
       | Some u \<Rightarrow>
           let userSection = jget u section in
           if \<not> truthy userSection then True
           else if prop_of userSection (js ''enabled'') = Some (JBool False) then False
           else prop_of userSection module_name \<noteq> Some (JBool False)))"

definition isModuleEnabled :: "jstr \<Rightarrow> SidebarConfig \<Rightarrow> json option \<Rightarrow> bool" where
  "isModuleEnabled url adminConfig userConfig =
     (case urlMapping url of
        None \<Rightarrow> True
      | Some (section, module_name) \<Rightarrow> moduleVisible adminConfig userConfig section module_name)"

record 'icon BaseNavItem =
  title :: jstr
  badge :: "jstr option"
  icon :: "'icon option"
  activeUrls :: "jstr list option"
  configUrls :: "jstr list option"

datatype 'icon NavItem =
    NavLink "'icon BaseNavItem" jstr
  | NavCollapsible "'icon BaseNavItem" "('icon BaseNavItem \<times> jstr) list"
  | NavChatPresets "'icon BaseNavItem"

record 'icon NavGroup =
  ng_id :: "jstr option"
  ng_title :: jstr
  ng_items :: "'icon NavItem list"

fun isNavItemVisible :: "SidebarConfig \<Rightarrow> json option \<Rightarrow> 'icon NavItem \<Rightarrow> bool" where
  "isNavItemVisible adminConfig userConfig (NavChatPresets b) =
     moduleVisible adminConfig userConfig (js ''chat'') (js ''chat'')"
| "isNavItemVisible adminConfig userConfig (NavLink b url) =
     (if url = [] then True
      else list_ex (\<lambda>u. isModuleEnabled u adminConfig userConfig)
        (case configUrls b of Some us \<Rightarrow> us | None \<Rightarrow> [url]))"
| "isNavItemVisible adminConfig userConfig (NavCollapsible b items) =
     list_ex (\<lambda>(_, url). isModuleEnabled url adminConfig userConfig) items"

fun filterSubItems :: "SidebarConfig \<Rightarrow> json option \<Rightarrow> 'icon NavItem \<Rightarrow> 'icon NavItem" where
  "filterSubItems adminConfig userConfig (NavCollapsible b items) =
     NavCollapsible b (filter (\<lambda>(_, url). isModuleEnabled url adminConfig userConfig) items)"
| "filterSubItems adminConfig userConfig item = item"

definition filterNavItems :: "SidebarConfig \<Rightarrow> json option \<Rightarrow> 'icon NavItem list \<Rightarrow> 'icon NavItem list" where
  "filterNavItems adminConfig userConfig items =
     filter (isNavItemVisible adminConfig userConfig) (map (filterSubItems adminConfig userConfig) items)"

text \<open>The hook as a function of the status field, the user's permission to change the sidebar
  (absent unless the backend sends it) and the user's own setting; absent texts are empty.\<close>

definition useSidebarConfig :: "jstr \<Rightarrow> bool option \<Rightarrow> jstr \<Rightarrow> 'icon NavGroup list \<Rightarrow> 'icon NavGroup list" where
  "useSidebarConfig adminText sidebar_settings userText navGroups =
     (let adminConfig = parseSidebarConfig adminText;
          userConfig = (if sidebar_settings = Some False then None else parseUserSidebarConfig userText)
      in filter (\<lambda>group. ng_items group \<noteq> [])
           (map (\<lambda>group. group\<lparr>ng_items := filterNavItems adminConfig userConfig (ng_items group)\<rparr>) navGroups))"

section \<open>The user's setting only narrows\<close>

fun itemEntries :: "'icon NavItem \<Rightarrow> ('icon BaseNavItem \<times> jstr option) list" where
  "itemEntries (NavLink b url) = [(b, Some url)]"
| "itemEntries (NavCollapsible b items) = (b, None) # map (apsnd Some) items"
| "itemEntries (NavChatPresets b) = [(b, None)]"

definition entries :: "'icon NavGroup list \<Rightarrow> ('icon BaseNavItem \<times> jstr option) list" where
  "entries gs = concat (map (\<lambda>g. concat (map itemEntries (ng_items g))) gs)"

definition shownEntries :: "SidebarConfig \<Rightarrow> json option \<Rightarrow> 'icon NavItem \<Rightarrow> ('icon BaseNavItem \<times> jstr option) list" where
  "shownEntries A U item =
     (if isNavItemVisible A U (filterSubItems A U item) then itemEntries (filterSubItems A U item) else [])"

lemma entries_filterNavItems:
  "concat (map itemEntries (filterNavItems A U items)) = concat (map (shownEntries A U) items)"
  by (induction items) (simp_all add: filterNavItems_def shownEntries_def)

lemma entries_shown:
  "entries (useSidebarConfig a p u gs) =
     concat (map (\<lambda>g. concat (map (shownEntries (parseSidebarConfig a)
       (if p = Some False then None else parseUserSidebarConfig u)) (ng_items g))) gs)"
  by (induction gs) (auto simp: useSidebarConfig_def entries_def Let_def simp flip: entries_filterNavItems)

lemma subseq_concat_map: "(\<And>x. subseq (f x) (g x)) \<Longrightarrow> subseq (concat (map f xs)) (concat (map g xs))"
  by (induction xs) (auto intro: list_emb_append_mono)

lemma moduleVisible_mono: "moduleVisible A U s m \<Longrightarrow> moduleVisible A None s m"
  by (simp add: moduleVisible_def Let_def split: if_splits)

lemma isModuleEnabled_mono: "isModuleEnabled url A U \<Longrightarrow> isModuleEnabled url A None"
  by (auto simp: isModuleEnabled_def intro: moduleVisible_mono split: option.splits)

lemma subseq_filter_mono: "(\<And>x. P x \<Longrightarrow> Q x) \<Longrightarrow> subseq (filter P xs) (filter Q xs)"
  by (induction xs) auto

lemma shownEntries_mono: "subseq (shownEntries A U item) (shownEntries A None item)"
proof (cases item)
  case (NavLink b url)
  then show ?thesis
    using isModuleEnabled_mono [of _ A U]
    by (auto simp: shownEntries_def list_ex_iff)
next
  case (NavCollapsible b items)
  let ?f = "\<lambda>U. filter (\<lambda>(_, url). isModuleEnabled url A U) items"
  have sub: "subseq (?f U) (?f None)"
    by (rule subseq_filter_mono) (auto intro: isModuleEnabled_mono)
  then have "subseq ((b, None) # map (apsnd Some) (?f U)) ((b, None) # map (apsnd Some) (?f None))"
    by (simp add: subseq_map)
  moreover have "list_ex (\<lambda>(_, url). isModuleEnabled url A None) (?f None)"
    if "list_ex (\<lambda>(_, url). isModuleEnabled url A U) (?f U)"
    using that isModuleEnabled_mono [of _ A U] by (fastforce simp: list_ex_iff)
  ultimately show ?thesis using NavCollapsible by (auto simp: shownEntries_def)
next
  case (NavChatPresets b)
  then show ?thesis using moduleVisible_mono [of A U] by (auto simp: shownEntries_def)
qed

lemma shownEntries_sub: "subseq (shownEntries A U item) (itemEntries item)"
  by (cases item) (auto simp: shownEntries_def intro: subseq_map)

text \<open>
  C31. The user's own setting can only hide entries: whatever text is stored for the user, the
  entries shown are, in order, among those shown without it, and these are among the entries of the
  program; for a user who may not configure the sidebar the stored text has no effect.
\<close>

theorem user_setting_only_narrows:
  "subseq (entries (useSidebarConfig adminText p userText gs)) (entries (useSidebarConfig adminText p [] gs)) \<and>
   subseq (entries (useSidebarConfig adminText p userText gs)) (entries gs) \<and>
   useSidebarConfig adminText (Some False) userText gs = useSidebarConfig adminText p [] gs"
proof -
  have empty: "parseUserSidebarConfig [] = None" by (simp add: parseUserSidebarConfig_def js_trim_def)
  have "subseq (entries (useSidebarConfig adminText p userText gs)) (entries (useSidebarConfig adminText p [] gs))"
    unfolding entries_shown empty if_cancel
    by (intro subseq_concat_map shownEntries_mono)
  moreover have "subseq (entries (useSidebarConfig adminText p userText gs)) (entries gs)"
    unfolding entries_shown by (simp add: entries_def subseq_concat_map shownEntries_sub)
  moreover have "useSidebarConfig adminText (Some False) userText gs = useSidebarConfig adminText p [] gs"
    by (simp add: useSidebarConfig_def empty)
  ultimately show ?thesis by blast
qed

section \<open>What the administrator saves\<close>

definition flag :: "SidebarModulesAdminConfig \<Rightarrow> jstr \<Rightarrow> jstr \<Rightarrow> bool option" where
  "flag c section module_name = Option.bind (oget c section) (\<lambda>sec. oget sec module_name)"

definition section_wf :: "SidebarSectionConfig \<Rightarrow> bool" where
  "section_wf sec \<longleftrightarrow> is_obj sec \<and> oget sec (js ''enabled'') \<noteq> None \<and>
     list_all (\<lambda>(m, b). utf16 m \<and> m \<notin> set inherited_names) sec"

definition sidebar_wf :: "SidebarModulesAdminConfig \<Rightarrow> bool" where
  "sidebar_wf c \<longleftrightarrow> is_obj c \<and>
     list_all (\<lambda>(k, sec). utf16 k \<and> k \<notin> set inherited_names \<and> section_wf sec) c \<and>
     list_all (\<lambda>(k, d). list_all (\<lambda>(m, b). flag c k m \<noteq> None) d) SIDEBAR_MODULES_DEFAULT"

lemma section_wf_of: "sidebar_wf c \<Longrightarrow> oget c k = Some sec \<Longrightarrow> section_wf sec"
  by (auto simp: sidebar_wf_def list_all_iff dest!: oget_in)

lemma serialized_parse:
  assumes "sidebar_wf c"
  shows "json_parse (serializeSidebarModulesAdmin c) = Some (JObj (map (apsnd sectionJson) c))"
proof -
  have sec: "json_wf (sectionJson sec)" if "section_wf sec" for sec
    using that by (auto simp: sectionJson_def section_wf_def list_all_iff is_obj_map intro!: obj_of_is_obj)
  have "obj_of (map (apsnd sectionJson) c) = map (apsnd sectionJson) c"
    using assms by (intro obj_of_is_obj) (simp add: is_obj_map sidebar_wf_def)
  then have "json_wf (JObj (map (apsnd sectionJson) c))"
    using assms sec by (auto simp: sidebar_wf_def list_all_iff)
  then show ?thesis unfolding serializeSidebarModulesAdmin_def by (rule json_roundtrip)
qed

lemma serialized_nonblank: "js_trim (serializeSidebarModulesAdmin c) \<noteq> []"
proof -
  have "\<exists>r. serializeSidebarModulesAdmin c = 123 # r" by (simp add: serializeSidebarModulesAdmin_def)
  then show ?thesis by (auto simp: js_trim_def is_ws_def dropWhile_eq_Nil_conv)
qed

text \<open>A parsed configuration that holds the flags of \<open>c\<close>.\<close>

definition holds_flags :: "SidebarModulesAdminConfig \<Rightarrow> SidebarConfig \<Rightarrow> bool" where
  "holds_flags c A \<longleftrightarrow> (\<forall>k. case oget c k of
      None \<Rightarrow> oget A k = None
    | Some sec \<Rightarrow> \<exists>qs. oget A k = Some (JObj qs) \<and> is_obj qs \<and> (\<forall>m. oget qs m = map_option JBool (oget sec m)))"

lemma fillModule_id: "\<forall>(m, v) \<in> set d. oget sec m \<noteq> None \<Longrightarrow> foldl fillModule sec d = sec"
  by (induction d) (auto simp: fillModule_def)

lemma mergeSection_holds:
  assumes "holds_flags c A" and sec: "oget c k = Some sec" and d: "\<forall>(m, v) \<in> set d. oget sec m \<noteq> None"
  shows "holds_flags c (mergeSection A (k, JObj d))"
proof -
  obtain qs where qs: "oget A k = Some (JObj qs)" "is_obj qs" "\<forall>m. oget qs m = map_option JBool (oget sec m)"
    using assms(1) [unfolded holds_flags_def, rule_format, of k] sec by auto
  let ?new = "spread_over (obj_of d) qs"
  have get: "oget ?new m = map_option JBool (oget sec m)" for m
  proof -
    have "oget (obj_of d) m = None" if "oget sec m = None"
    proof -
      have "m \<notin> fst ` set d" using that d by auto
      then show ?thesis by (simp add: oget_eq_None obj_of_keys)
    qed
    then show ?thesis
      using qs by (auto simp: spread_over_def is_obj_def oget_foldl_put split: option.split)
  qed
  have "foldl fillModule ?new d = ?new" using d get by (intro fillModule_id) auto
  then have "mergeSection A (k, JObj d) = obj_put A k (JObj ?new)"
    using qs(1) by (simp add: mergeSection_def spread_of_def json_entries_def)
  moreover have "is_obj ?new" by (simp add: is_obj_spread_over is_obj_obj_of)
  ultimately show ?thesis
    unfolding holds_flags_def
  proof (intro allI)
    fix k' assume "mergeSection A (k, JObj d) = obj_put A k (JObj ?new)" "is_obj ?new"
    then show "case oget c k' of None \<Rightarrow> oget (mergeSection A (k, JObj d)) k' = None
      | Some sec \<Rightarrow> \<exists>qs. oget (mergeSection A (k, JObj d)) k' = Some (JObj qs) \<and> is_obj qs \<and>
          (\<forall>m. oget qs m = map_option JBool (oget sec m))"
      using assms(1) [unfolded holds_flags_def, rule_format, of k'] sec get
      by (cases "k' = k"; cases "oget c k'") (simp_all add: oget_obj_put)
  qed
qed

lemma defaults_agree: "DEFAULT_SIDEBAR_MODULES = map (apsnd sectionJson) SIDEBAR_MODULES_DEFAULT"
  by (simp add: DEFAULT_SIDEBAR_MODULES_def SIDEBAR_MODULES_DEFAULT_def default_section_def sectionJson_def
      all_on_def del: js_Cons)

lemma default_present:
  assumes "sidebar_wf c" "(k, d) \<in> set SIDEBAR_MODULES_DEFAULT"
  obtains sec where "oget c k = Some sec" "\<forall>(m, v) \<in> set d. oget sec m \<noteq> None"
proof -
  have f: "\<forall>(m, v) \<in> set d. flag c k m \<noteq> None"
    using assms by (auto simp: sidebar_wf_def list_all_iff)
  have "d \<noteq> []" using assms(2) by (auto simp: SIDEBAR_MODULES_DEFAULT_def all_on_def)
  then obtain sec where "oget c k = Some sec"
    using f by (cases "oget c k"; cases d) (auto simp: flag_def)
  then show ?thesis using f that by (auto simp: flag_def)
qed

lemma saved_holds_flags:
  assumes "sidebar_wf c"
  shows "holds_flags c (parseSidebarConfig (serializeSidebarModulesAdmin c))"
proof -
  let ?A = "map (apsnd sectionJson) c"
  have "holds_flags c ?A"
    unfolding holds_flags_def
  proof
    fix k
    show "case oget c k of None \<Rightarrow> oget ?A k = None
      | Some sec \<Rightarrow> \<exists>qs. oget ?A k = Some (JObj qs) \<and> is_obj qs \<and> (\<forall>m. oget qs m = map_option JBool (oget sec m))"
      using section_wf_of [OF assms, of k]
      by (auto simp: oget_map_apsnd sectionJson_def section_wf_def is_obj_map split: option.split)
  qed
  moreover have "holds_flags c (foldl mergeSection A (map (apsnd sectionJson) ds))"
    if "set ds \<subseteq> set SIDEBAR_MODULES_DEFAULT" "holds_flags c A" for ds A
    using that
  proof (induction ds arbitrary: A)
    case (Cons e ds)
    obtain k d where e: "e = (k, d)" by (cases e)
    obtain sec where "oget c k = Some sec" "\<forall>(m, v) \<in> set d. oget sec m \<noteq> None"
      using Cons.prems(1) e by (auto elim!: default_present [OF assms])
    then have "holds_flags c (mergeSection A (k, JObj (map (apsnd JBool) d)))"
      using Cons.prems(2) by (intro mergeSection_holds) auto
    then show ?case using Cons e by (simp add: sectionJson_def)
  qed simp
  moreover have "obj_of ?A = ?A" using assms by (intro obj_of_is_obj) (simp add: is_obj_map sidebar_wf_def)
  ultimately show ?thesis
    using serialized_nonblank [of c]
    by (simp add: parseSidebarConfig_def serialized_parse [OF assms] mergeWithDefaultSidebarModules_def
        spread_of_def json_entries_def defaults_agree)
qed

text \<open>What the user has hidden: a section switched off, or the module itself.\<close>

definition user_hides :: "json option \<Rightarrow> jstr \<Rightarrow> jstr \<Rightarrow> bool" where
  "user_hides userConfig section module_name \<longleftrightarrow>
     (\<exists>u ps. userConfig = Some u \<and> jget u section = Some (JObj ps) \<and>
        (oget ps (js ''enabled'') = Some (JBool False) \<or> oget ps module_name = Some (JBool False)))"

lemma overlay:
  "moduleVisible A userConfig sec m \<longleftrightarrow> moduleVisible A None sec m \<and> \<not> user_hides userConfig sec m"
proof (cases userConfig)
  case (Some u)
  show ?thesis
  proof (cases "jget u sec")
    case None
    then show ?thesis by (simp add: moduleVisible_def user_hides_def truthy_def Some)
  next
    case (Some v)
    then show ?thesis using \<open>userConfig = Some u\<close>
      by (cases v) (auto simp: moduleVisible_def user_hides_def truthy_def prop_of_def Let_def simp del: js_Cons)
  qed
qed (simp add: moduleVisible_def user_hides_def)

text \<open>
  C32. What the administrator saves is what the sidebar obeys: after the settings page has written a
  well-formed configuration, an address governed by a module is shown exactly when the section and
  the module are both switched on in what was saved and the user's own setting (if there is one) has
  switched off neither; every other address is shown.
\<close>

theorem saved_settings_obeyed:
  assumes "sidebar_wf c"
  shows "isModuleEnabled url (parseSidebarConfig (serializeSidebarModulesAdmin c)) userConfig \<longleftrightarrow>
    (case urlMapping url of
       None \<Rightarrow> True
     | Some (section, module_name) \<Rightarrow>
         flag c section (js ''enabled'') = Some True \<and> flag c section module_name = Some True \<and>
         \<not> user_hides userConfig section module_name)"
proof -
  let ?A = "parseSidebarConfig (serializeSidebarModulesAdmin c)"
  have "moduleVisible ?A None s m \<longleftrightarrow> flag c s (js ''enabled'') = Some True \<and> flag c s m = Some True" for s m
  proof (cases "oget c s")
    case None
    then have "oget ?A s = None"
      using saved_holds_flags [OF assms, unfolded holds_flags_def, rule_format, of s] by simp
    then show ?thesis using None by (simp add: moduleVisible_def truthy_def flag_def)
  next
    case (Some sec)
    then obtain qs where "oget ?A s = Some (JObj qs)" "\<forall>m. oget qs m = map_option JBool (oget sec m)"
      using saved_holds_flags [OF assms, unfolded holds_flags_def, rule_format, of s] by auto
    then show ?thesis using Some
      by (auto simp: moduleVisible_def truthy_def flag_def prop_of_def simp del: js_Cons split: option.splits)
  qed
  then show ?thesis by (auto simp: isModuleEnabled_def overlay [of ?A userConfig] split: option.split)
qed

definition demo_sidebar :: SidebarModulesAdminConfig where
  "demo_sidebar = obj_put SIDEBAR_MODULES_DEFAULT (js ''chat'')
     [(js ''enabled'', True), (js ''playground'', False), (js ''chat'', True)]"

lemma demo_sidebar_wf: "sidebar_wf demo_sidebar"
  by code_simp

theorem saved_settings_obeyed_witness:
  "\<not> isModuleEnabled (js ''/playground'') (parseSidebarConfig (serializeSidebarModulesAdmin demo_sidebar)) None \<and>
   isModuleEnabled (js ''/keys'') (parseSidebarConfig (serializeSidebarModulesAdmin demo_sidebar)) None \<and>
   \<not> isModuleEnabled (js ''/keys'') (parseSidebarConfig (serializeSidebarModulesAdmin demo_sidebar))
       (Some (JObj [(js ''console'', JObj [(js ''token'', JBool False)])]))"
proof -
  have "urlMapping (js ''/playground'') = Some (js ''chat'', js ''playground'')"
    "urlMapping (js ''/keys'') = Some (js ''console'', js ''token'')"
    "flag demo_sidebar (js ''chat'') (js ''playground'') = Some False"
    "flag demo_sidebar (js ''console'') (js ''enabled'') = Some True"
    "flag demo_sidebar (js ''console'') (js ''token'') = Some True"
    by code_simp+
  moreover have "user_hides (Some (JObj [(js ''console'', JObj [(js ''token'', JBool False)])])) (js ''console'') (js ''token'')"
    by (simp add: user_hides_def del: js_Cons)
  moreover have "\<not> user_hides None s m" for s m by (simp add: user_hides_def)
  ultimately show ?thesis
    using saved_settings_obeyed [OF demo_sidebar_wf, of "js ''/playground''" None]
      saved_settings_obeyed [OF demo_sidebar_wf, of "js ''/keys''" None]
      saved_settings_obeyed [OF demo_sidebar_wf, of "js ''/keys''" "Some (JObj [(js ''console'', JObj [(js ''token'', JBool False)])])"]
    by (simp del: js_Cons)
qed

section \<open>The settings page reads back what it wrote\<close>

lemma sectionOf_get:
  assumes "section_wf sec"
  shows "oget (sectionOf d (sectionJson sec) (map (apsnd JBool) sec)) m = oget sec m"
proof -
  obtain b where b: "oget sec (js ''enabled'') = Some b"
    using assms by (auto simp: section_wf_def simp del: js_Cons)
  let ?step = "\<lambda>sc (k, v). if k = js ''enabled'' then sc
      else obj_put sc k (toBoolean (Some v) (flag_or_true d k))"
  have step: "oget (foldl ?step acc (map (apsnd JBool) ps)) m =
      (case oget ps m of Some v \<Rightarrow> if m = js ''enabled'' then oget acc m else Some v | None \<Rightarrow> oget acc m)"
    if "distinct (map fst ps)" for acc ps
    using that
  proof (induction ps arbitrary: acc)
    case (Cons p ps)
    obtain k v where p: "p = (k, v)" by (cases p)
    have "oget ps k = None" using Cons.prems p by (simp add: oget_eq_None)
    then show ?case using Cons p
      by (cases "k = js ''enabled''") (auto simp: oget_obj_put toBoolean_def simp del: js_Cons split: option.split)
  qed simp
  have "jget (sectionJson sec) (js ''enabled'') = Some (JBool b)"
    using b by (simp add: sectionJson_def oget_map_apsnd del: js_Cons)
  then show ?thesis
    using assms b step [of sec]
    by (auto simp: sectionOf_def section_wf_def is_obj_def toBoolean_def simp del: js_Cons split: option.split)
qed

lemma addMissing_id: "\<forall>(m, v) \<in> set d. oget sec m \<noteq> None \<Longrightarrow> foldl addMissing sec d = sec"
  by (induction d) (auto simp: addMissing_def)

text \<open>A typed configuration with the same flags.\<close>

definition same_flags :: "SidebarModulesAdminConfig \<Rightarrow> SidebarModulesAdminConfig \<Rightarrow> bool" where
  "same_flags c r \<longleftrightarrow> (\<forall>k. rel_option (\<lambda>sec' sec. oget sec' = oget sec) (oget r k) (oget c k))"

lemma same_flags_read:
  assumes "sidebar_wf c"
  shows "same_flags c (foldl (sidebarEntry ds) [] (map (apsnd sectionJson) c))"
proof -
  define new where "new k sec = sectionOf (case oget ds k of Some d \<Rightarrow> d | None \<Rightarrow> [(js ''enabled'', True)])
      (sectionJson sec) (map (apsnd JBool) sec)" for k sec
  have entry: "sidebarEntry ds r (k, sectionJson sec) = obj_put r k (new k sec)" for r k sec
    by (simp add: sidebarEntry_def sectionJson_def is_object_def json_entries_def new_def)
  have get: "oget (foldl (sidebarEntry ds) r (map (apsnd sectionJson) ps)) k =
      (case oget ps k of Some sec \<Rightarrow> Some (new k sec) | None \<Rightarrow> oget r k)" if "distinct (map fst ps)" for r ps k
    using that
  proof (induction ps arbitrary: r)
    case (Cons p ps)
    obtain k' v where p: "p = (k', v)" by (cases p)
    have "oget ps k' = None" using Cons.prems p by (simp add: oget_eq_None)
    then show ?case using Cons p by (auto simp: entry oget_obj_put split: option.split)
  qed simp
  have "distinct (map fst c)" using assms by (simp add: sidebar_wf_def is_obj_def)
  moreover have "oget (new k sec) = oget sec" if "oget c k = Some sec" for k sec
    using section_wf_of [OF assms that] by (auto simp: new_def sectionOf_get simp del: js_Cons)
  ultimately show ?thesis
    unfolding same_flags_def by (simp add: get split: option.split)
qed

lemma same_flags_merge:
  assumes "sidebar_wf c"
  shows "set ds \<subseteq> set SIDEBAR_MODULES_DEFAULT \<Longrightarrow> same_flags c r \<Longrightarrow> same_flags c (foldl mergeDefault r ds)"
proof (induction ds arbitrary: r)
  case (Cons e ds)
  obtain k d where e: "e = (k, d)" by (cases e)
  have "(k, d) \<in> set SIDEBAR_MODULES_DEFAULT" using Cons.prems(1) e by simp
  then obtain sec where sec: "oget c k = Some sec" "\<forall>(m, v) \<in> set d. oget sec m \<noteq> None"
    by (rule default_present [OF assms])
  have "rel_option (\<lambda>sec' sec. oget sec' = oget sec) (oget r k) (Some sec)"
    using Cons.prems(2) sec(1) unfolding same_flags_def by metis
  then obtain sec' where sec': "oget r k = Some sec'" "oget sec' = oget sec"
    by (auto simp: option_rel_Some2)
  then have "foldl addMissing sec' d = sec'" using sec(2) by (intro addMissing_id) simp
  then have "mergeDefault r e = obj_put r k sec'" using e sec'(1) by (simp add: mergeDefault_def)
  then have "same_flags c (mergeDefault r e)"
    using Cons.prems(2) sec(1) sec'(2) by (simp add: same_flags_def oget_obj_put)
  then show ?case using Cons by simp
qed simp

text \<open>
  The settings page reads back what it wrote: for every well-formed configuration each flag of
  each section is the same after saving and loading, and no section or module appears or disappears.
\<close>

theorem sidebar_settings_roundtrip:
  assumes "sidebar_wf c"
  shows "flag (parseSidebarModulesAdmin (serializeSidebarModulesAdmin c)) section module_name = flag c section module_name \<and>
    (oget (parseSidebarModulesAdmin (serializeSidebarModulesAdmin c)) section = None \<longleftrightarrow> oget c section = None)"
proof -
  have clone: "cloneSidebarDefault = SIDEBAR_MODULES_DEFAULT" by code_simp
  have "same_flags c (parseSidebarModulesAdmin (serializeSidebarModulesAdmin c))"
    using same_flags_merge [OF assms _ same_flags_read [OF assms], of SIDEBAR_MODULES_DEFAULT SIDEBAR_MODULES_DEFAULT]
      serialized_nonblank [of c]
    by (simp add: parseSidebarModulesAdmin_def serialized_parse [OF assms] json_entries_def clone)
  then have "rel_option (\<lambda>sec' sec. oget sec' = oget sec)
      (oget (parseSidebarModulesAdmin (serializeSidebarModulesAdmin c)) section) (oget c section)"
    by (simp add: same_flags_def)
  then show ?thesis by (cases rule: option.rel_cases) (simp_all add: flag_def)
qed

theorem sidebar_settings_roundtrip_witness:
  "flag (parseSidebarModulesAdmin (serializeSidebarModulesAdmin demo_sidebar)) (js ''chat'') (js ''playground'') = Some False"
proof -
  have "flag demo_sidebar (js ''chat'') (js ''playground'') = Some False" by code_simp
  then show ?thesis using sidebar_settings_roundtrip [OF demo_sidebar_wf, of "js ''chat''" "js ''playground''"] by simp
qed

text \<open>
  The settings page and the sidebar read the same text differently: a module written as the text
  \<^verbatim>\<open>"true"\<close> is shown as switched on in the settings page, while the sidebar hides its entry.
\<close>

theorem settings_page_and_sidebar_differ:
  "flag (parseSidebarModulesAdmin (js ''{\"chat\":{\"playground\":\"true\"}}'')) (js ''chat'') (js ''playground'') = Some True \<and>
   \<not> isModuleEnabled (js ''/playground'') (parseSidebarConfig (js ''{\"chat\":{\"playground\":\"true\"}}'')) None"
  by code_simp

end
