(* ===== verification/Attribution.thy ===== *)
theory Attribution
  imports JSON
begin

text \<open>
  First-touch attribution of registrations: \<^verbatim>\<open>lib/first-touch-attribution.ts\<close> with the cookie name
  of \<^verbatim>\<open>lib/google-analytics-config.ts\<close>.  The page and the browser's storage are explicit state; the
  URL parser, the query parser and printer and \<^verbatim>\<open>decodeURIComponent\<close> of the platform are the
  fields of a \<open>Platform\<close>.
\<close>

section \<open>The environment\<close>

record Platform =
  url_of :: "jstr \<Rightarrow> (jstr \<times> jstr \<times> (jstr \<times> jstr) list) option"
  query_of :: "jstr \<Rightarrow> (jstr \<times> jstr) list"
  query_text :: "(jstr \<times> jstr) list \<Rightarrow> jstr"
  decode_uri :: "jstr \<Rightarrow> jstr option"

text \<open>What a visit sees: the window and the document exist together; \<open>runtimeId\<close> and \<open>buildId\<close> are
  the measurement identifiers, empty when undefined.\<close>

record Page =
  href :: jstr
  search :: jstr
  cookie :: jstr
  referrer :: jstr
  runtimeId :: jstr
  now :: jstr

text \<open>The local storage: the item, and whether reading and writing raise.\<close>

record Storage =
  item :: "jstr option"
  readable :: bool
  writable :: bool

type_synonym FirstTouchAttribution = "(jstr \<times> jstr) list"

datatype stored = Undefined | Null | Stored FirstTouchAttribution

definition CLICK_ID_PARAMS :: "jstr list" where
  "CLICK_ID_PARAMS = map js [''gclid'', ''fbclid'', ''ttclid'', ''yclid'']"

definition UTM_PARAMS :: "jstr list" where
  "UTM_PARAMS = map js [''utm_source'', ''utm_medium'', ''utm_campaign'', ''utm_term'', ''utm_content'']"

definition SAFE_URL_PARAMS :: "jstr list" where
  "SAFE_URL_PARAMS = UTM_PARAMS @ CLICK_ID_PARAMS @ [js ''aff'']"

definition ATTRIBUTION_FIELDS :: "jstr list" where
  "ATTRIBUTION_FIELDS =
     map js [''client_id'', ''session_id'', ''page_location'', ''page_referrer'', ''source'', ''medium'',
       ''campaign'', ''term'', ''content'', ''gclid'', ''fbclid'', ''ttclid'', ''yclid'', ''first_visit_at'']"

section \<open>Reading the cookies\<close>

definition all_digits :: "jstr \<Rightarrow> bool" where
  "all_digits s \<longleftrightarrow> s \<noteq> [] \<and> list_all is_digit s"

definition safeDecodeURIComponent :: "Platform \<Rightarrow> jstr \<Rightarrow> jstr" where
  "safeDecodeURIComponent P v = (case decode_uri P v of Some s \<Rightarrow> s | None \<Rightarrow> [])"

text \<open>The pattern \<^verbatim>\<open>/(?:^|;\s*)_ga=([^;]+)/\<close>: the leftmost match, at the start or after a semicolon.\<close>

definition ga_here :: "jstr \<Rightarrow> jstr option" where
  "ga_here s =
     (if prefix (js ''_ga='') s \<and> takeWhile (\<lambda>c. c \<noteq> 59) (drop 4 s) \<noteq> []
      then Some (takeWhile (\<lambda>c. c \<noteq> 59) (drop 4 s)) else None)"

fun ga_scan :: "jstr \<Rightarrow> jstr option" where
  "ga_scan [] = None"
| "ga_scan (c # cs) =
     (if c = 59 then (case ga_here (dropWhile is_ws cs) of Some v \<Rightarrow> Some v | None \<Rightarrow> ga_scan cs)
      else ga_scan cs)"

definition ga_match :: "jstr \<Rightarrow> jstr option" where
  "ga_match s = (case ga_here s of Some v \<Rightarrow> Some v | None \<Rightarrow> ga_scan s)"

definition readGAClientID :: "Platform \<Rightarrow> jstr \<Rightarrow> jstr" where
  "readGAClientID P cookies =
     (case ga_match cookies of
        None \<Rightarrow> []
      | Some m \<Rightarrow>
          (let parts = js_split 46 (safeDecodeURIComponent P m) in
           if length parts < 4 then []
           else (let first = parts ! (length parts - 2); second = parts ! (length parts - 1) in
             if \<not> all_digits first \<or> \<not> all_digits second then [] else first @ [46] @ second)))"

definition getGoogleAnalyticsMeasurementId :: "jstr \<Rightarrow> jstr \<Rightarrow> jstr" where
  "getGoogleAnalyticsMeasurementId runtime build = js_trim (if runtime \<noteq> [] then runtime else build)"

definition is_alnum :: "nat \<Rightarrow> bool" where
  "is_alnum c \<longleftrightarrow> is_digit c \<or> 97 \<le> c \<and> c \<le> 122 \<or> 65 \<le> c \<and> c \<le> 90"

definition getGoogleAnalyticsSessionCookieName :: "jstr \<Rightarrow> jstr \<Rightarrow> jstr" where
  "getGoogleAnalyticsSessionCookieName runtime build =
     (case getGoogleAnalyticsMeasurementId runtime build of
        g # d # rest \<Rightarrow>
          if (g = 71 \<or> g = 103) \<and> d = 45 \<and> rest \<noteq> [] \<and> list_all is_alnum rest then js ''_ga_'' @ rest else []
      | _ \<Rightarrow> [])"

text \<open>The first part of the form \<^verbatim>\<open>s123\<close>.\<close>

fun session_part :: "jstr list \<Rightarrow> jstr option" where
  "session_part [] = None"
| "session_part (p # ps) =
     (if p \<noteq> [] \<and> hd p = 115 \<and> all_digits (tl p) then Some (tl p) else session_part ps)"

definition gs2_parts :: "jstr \<Rightarrow> jstr list" where
  "gs2_parts v = js_split 46 (map (\<lambda>c. if c = 36 then 46 else c) v)"

text \<open>What one cookie of the right name yields; \<open>None\<close> lets the loop go on.\<close>

definition session_value :: "jstr \<Rightarrow> jstr option" where
  "session_value v =
     (case (if prefix (js ''GS2.'') v then session_part (gs2_parts v) else None) of
        Some s \<Rightarrow> Some s
      | None \<Rightarrow>
          (let parts = js_split 46 v; third = (if length parts > 2 then parts ! 2 else []) in
           if prefix (js ''GS'') (hd parts) \<and> all_digits (drop 2 (hd parts)) \<and> all_digits third
           then Some third else None))"

fun session_loop :: "Platform \<Rightarrow> jstr \<Rightarrow> jstr list \<Rightarrow> jstr" where
  "session_loop P name [] = []"
| "session_loop P name (i # is) =
     (case js_index_of (js_trim i) [61] 0 of
        None \<Rightarrow> session_loop P name is
      | Some separator \<Rightarrow>
          if separator = 0 \<or> take separator (js_trim i) \<noteq> name then session_loop P name is
          else (case session_value (safeDecodeURIComponent P (drop (separator + 1) (js_trim i))) of
             Some s \<Rightarrow> s
           | None \<Rightarrow> session_loop P name is))"

definition readGASessionID :: "Platform \<Rightarrow> jstr \<Rightarrow> jstr \<Rightarrow> jstr" where
  "readGASessionID P sessionCookieName cookies =
     (if sessionCookieName = [] then [] else session_loop P sessionCookieName (js_split 59 cookies))"

section \<open>The stored attribution\<close>

text \<open>The loop over the fields; \<open>None\<close> is a field that is not a string.\<close>

fun readFields :: "(jstr \<times> json) list \<Rightarrow> jstr list \<Rightarrow> FirstTouchAttribution \<Rightarrow> FirstTouchAttribution option" where
  "readFields parsed [] attribution = Some attribution"
| "readFields parsed (field # names) attribution =
     (case oget parsed field of
        None \<Rightarrow> readFields parsed names attribution
      | Some (JStr s) \<Rightarrow> readFields parsed names (obj_put attribution field s)
      | Some _ \<Rightarrow> None)"

definition readStoredAttribution :: "Storage option \<Rightarrow> stored" where
  "readStoredAttribution st =
     (case st of
        None \<Rightarrow> Undefined
      | Some s \<Rightarrow>
          if \<not> readable s then Null
          else (case item s of
             None \<Rightarrow> Undefined
           | Some raw \<Rightarrow>
               (case json_parse raw of
                  Some (JObj parsed) \<Rightarrow>
                    (case readFields parsed ATTRIBUTION_FIELDS [] of
                       None \<Rightarrow> Null
                     | Some attribution \<Rightarrow> if attribution \<noteq> [] then Stored attribution else Null)
                | _ \<Rightarrow> Null)))"

definition attributionJson :: "FirstTouchAttribution \<Rightarrow> json" where
  "attributionJson a = JObj (map (apsnd JStr) a)"

definition writeStoredAttribution :: "FirstTouchAttribution \<Rightarrow> Storage option \<Rightarrow> Storage option" where
  "writeStoredAttribution attribution st =
     map_option (\<lambda>s. if writable s then s\<lparr>item := Some (json_str (attributionJson attribution))\<rparr> else s) st"

definition safe_params :: "(jstr \<times> jstr) list \<Rightarrow> (jstr \<times> jstr) list" where
  "safe_params ps =
     concat (map (\<lambda>key. map (\<lambda>(k, v). (k, js_trim v)) (filter (\<lambda>(k, v). k = key \<and> js_trim v \<noteq> []) ps)) SAFE_URL_PARAMS)"

definition sanitizeAttributionURL :: "Platform \<Rightarrow> jstr \<Rightarrow> jstr option" where
  "sanitizeAttributionURL P raw =
     (case url_of P raw of
        None \<Rightarrow> None
      | Some (origin, pathname, params) \<Rightarrow>
          (let query = query_text P (safe_params params) in
           Some (origin @ pathname @ (if query \<noteq> [] then 63 # query else []))))"

definition putSome :: "FirstTouchAttribution \<Rightarrow> jstr \<Rightarrow> jstr option \<Rightarrow> FirstTouchAttribution" where
  "putSome a key v = (case v of None \<Rightarrow> a | Some s \<Rightarrow> if s = [] then a else obj_put a key s)"

definition utmMap :: "(jstr \<times> jstr) list" where
  "utmMap = map (\<lambda>(k, f). (js k, js f))
     [(''utm_source'', ''source''), (''utm_medium'', ''medium''), (''utm_campaign'', ''campaign''),
      (''utm_term'', ''term''), (''utm_content'', ''content'')]"

definition trimmedParam :: "(jstr \<times> jstr) list \<Rightarrow> jstr \<Rightarrow> jstr option" where
  "trimmedParam params key = map_option js_trim (oget params key)"

text \<open>The attribution of a first visit; the fields that are undefined are left out of the text that
  is stored.\<close>

definition firstAttribution :: "Platform \<Rightarrow> Page \<Rightarrow> jstr \<Rightarrow> jstr \<Rightarrow> FirstTouchAttribution" where
  "firstAttribution P w clientID sessionID =
     (let params = query_of P (search w);
          a = (case sanitizeAttributionURL P (href w) of None \<Rightarrow> [] | Some u \<Rightarrow> [(js ''page_location'', u)]);
          a = (case (if referrer w \<noteq> [] then sanitizeAttributionURL P (referrer w) else None) of
                 None \<Rightarrow> a | Some u \<Rightarrow> obj_put a (js ''page_referrer'') u);
          a = obj_put a (js ''first_visit_at'') (now w);
          a = putSome a (js ''client_id'') (Some clientID);
          a = putSome a (js ''session_id'') (Some sessionID);
          a = foldl (\<lambda>a (key, field). putSome a field (trimmedParam params key)) a utmMap
      in foldl (\<lambda>a key. putSome a key (trimmedParam params key)) a CLICK_ID_PARAMS)"

text \<open>A later visit: the client identifier is filled in when missing, the session follows the cookie.\<close>

definition refreshAttribution :: "FirstTouchAttribution \<Rightarrow> jstr \<Rightarrow> jstr \<Rightarrow> FirstTouchAttribution \<times> bool" where
  "refreshAttribution existing clientID sessionID =
     (let noClient = (case oget existing (js ''client_id'') of None \<Rightarrow> True | Some c \<Rightarrow> c = []);
          setClient = (noClient \<and> clientID \<noteq> []);
          refreshed = (if setClient then obj_put existing (js ''client_id'') clientID else existing);
          setSession = (sessionID \<noteq> [] \<and> oget refreshed (js ''session_id'') \<noteq> Some sessionID)
      in (if setSession then obj_put refreshed (js ''session_id'') sessionID else refreshed, setClient \<or> setSession))"

definition initializeFirstTouchAttribution :: "Platform \<Rightarrow> jstr \<Rightarrow> Page option \<Rightarrow> Storage option \<Rightarrow> Storage option" where
  "initializeFirstTouchAttribution P build page st =
     (case page of
        None \<Rightarrow> st
      | Some w \<Rightarrow>
          (let clientID = readGAClientID P (cookie w);
               sessionID = readGASessionID P (getGoogleAnalyticsSessionCookieName (runtimeId w) build) (cookie w)
           in case readStoredAttribution st of
                Null \<Rightarrow> st
              | Stored existing \<Rightarrow>
                  (case refreshAttribution existing clientID sessionID of (refreshed, changed) \<Rightarrow>
                     if changed then writeStoredAttribution refreshed st else st)
              | Undefined \<Rightarrow> writeStoredAttribution (firstAttribution P w clientID sessionID) st))"

definition getFirstTouchAttribution :: "Platform \<Rightarrow> jstr \<Rightarrow> Page option \<Rightarrow> Storage option \<Rightarrow> FirstTouchAttribution option \<times> Storage option" where
  "getFirstTouchAttribution P build page st =
     (let st' = initializeFirstTouchAttribution P build page st
      in (case readStoredAttribution st' of Stored a \<Rightarrow> Some a | _ \<Rightarrow> None, st'))"

definition withFirstTouchAttribution ::
  "Platform \<Rightarrow> jstr \<Rightarrow> Page option \<Rightarrow> Storage option \<Rightarrow> (jstr \<times> json) list \<Rightarrow> (jstr \<times> json) list \<times> Storage option" where
  "withFirstTouchAttribution P build page st request =
     (case getFirstTouchAttribution P build page st of
        (Some a, st') \<Rightarrow> (obj_put request (js ''attribution'') (attributionJson a), st')
      | (None, st') \<Rightarrow> (request, st'))"

section \<open>Stored attributions are read back\<close>

definition attribution_ok :: "FirstTouchAttribution \<Rightarrow> bool" where
  "attribution_ok a \<longleftrightarrow> a \<noteq> [] \<and> is_obj a \<and> fst ` set a \<subseteq> set ATTRIBUTION_FIELDS \<and> (\<forall>v \<in> snd ` set a. utf16 v)"

lemma readFields_strings:
  "\<exists>r. readFields (map (apsnd JStr) a) fs acc = Some r \<and>
     (\<forall>k. oget r k = (if k \<in> set fs then (case oget a k of Some v \<Rightarrow> Some v | None \<Rightarrow> oget acc k) else oget acc k))"
proof (induction fs arbitrary: acc)
  case (Cons f fs)
  have get: "oget (map (apsnd JStr) a) f = map_option JStr (oget a f)" by (induction a) auto
  show ?case
  proof (cases "oget a f")
    case None
    then show ?thesis using get Cons [of acc] by auto
  next
    case (Some v)
    then show ?thesis using get Cons [of "obj_put acc f v"] by (fastforce simp: oget_obj_put split: option.split)
  qed
qed simp

lemma readFields_shape:
  "readFields parsed fs acc = Some r \<Longrightarrow> is_obj acc \<Longrightarrow> fst ` set acc \<subseteq> F \<Longrightarrow> set fs \<subseteq> F \<Longrightarrow>
   is_obj r \<and> fst ` set r \<subseteq> F"
  by (induction parsed fs acc rule: readFields.induct)
    (auto simp: is_obj_put obj_put_keys split: option.splits json.splits)

lemma stored_shape:
  assumes "readStoredAttribution st = Stored a"
  shows "a \<noteq> []" "is_obj a" "fst ` set a \<subseteq> set ATTRIBUTION_FIELDS"
proof -
  obtain parsed where "readFields parsed ATTRIBUTION_FIELDS [] = Some a" "a \<noteq> []"
    using assms by (auto simp: readStoredAttribution_def split: option.splits json.splits if_splits)
  then show "a \<noteq> []" "is_obj a" "fst ` set a \<subseteq> set ATTRIBUTION_FIELDS"
    using readFields_shape [of parsed ATTRIBUTION_FIELDS "[]" a "set ATTRIBUTION_FIELDS"] by auto
qed

lemma fields_utf16: "f \<in> set ATTRIBUTION_FIELDS \<Longrightarrow> utf16 f"
  by (auto simp: ATTRIBUTION_FIELDS_def)

lemma oget_Some_in: "oget ps k = Some v \<Longrightarrow> v \<in> snd ` set ps"
  by (force simp: oget_def dest: map_of_SomeD)

lemma in_oget: "is_obj ps \<Longrightarrow> v \<in> snd ` set ps \<Longrightarrow> \<exists>k. oget ps k = Some v"
  by (auto simp: oget_def is_obj_def)

lemma store_read:
  assumes "attribution_ok a" "readable s"
  obtains a' where "readStoredAttribution (Some (s\<lparr>item := Some (json_str (attributionJson a))\<rparr>)) = Stored a'"
    "oget a' = oget a" "attribution_ok a'"
proof -
  have "json_wf (attributionJson a)"
    using assms(1) fields_utf16
    by (auto simp: attributionJson_def attribution_ok_def is_obj_map intro!: obj_of_is_obj)
  then have p: "json_parse (json_str (attributionJson a)) = Some (JObj (map (apsnd JStr) a))"
    unfolding attributionJson_def by (rule json_roundtrip)
  obtain r where r: "readFields (map (apsnd JStr) a) ATTRIBUTION_FIELDS [] = Some r"
    "oget r k = (if k \<in> set ATTRIBUTION_FIELDS then oget a k else None)" for k
    using readFields_strings [of a ATTRIBUTION_FIELDS "[]"] by (fastforce split: option.splits)
  have out: "oget a k = None" if "k \<notin> set ATTRIBUTION_FIELDS" for k
    using assms(1) that by (auto simp: attribution_ok_def oget_eq_None)
  have get: "oget r = oget a"
  proof
    fix k show "oget r k = oget a k" using r(2) [of k] out [of k] by simp
  qed
  obtain k v a0 where "a = (k, v) # a0" using assms(1) by (cases a) (auto simp: attribution_ok_def)
  then have "oget r k = Some v" using get by simp
  then have "r \<noteq> []" by auto
  then have st: "readStoredAttribution (Some (s\<lparr>item := Some (json_str (attributionJson a))\<rparr>)) = Stored r"
    using assms(2) p r(1) by (simp add: readStoredAttribution_def)
  have "utf16 v" if "v \<in> snd ` set r" for v
    using in_oget [OF stored_shape(2) [OF st] that] oget_Some_in [of a] assms(1)
    by (auto simp: get attribution_ok_def simp del: image_iff)
  then have "attribution_ok r" using stored_shape [OF st] by (simp add: attribution_ok_def)
  then show ?thesis using that st get by blast
qed

section \<open>Identifiers are plain text\<close>

lemma utf16_digits: "all_digits s \<Longrightarrow> utf16 s"
  by (auto simp: all_digits_def utf16_def is_digit_def list_all_iff)

lemma client_utf16: "utf16 (readGAClientID P c)"
  by (auto simp: readGAClientID_def Let_def utf16_digits split: option.split)

lemma session_part_digits: "session_part ps = Some s \<Longrightarrow> all_digits s"
  by (induction ps) (auto split: if_splits)

lemma session_value_digits: "session_value v = Some s \<Longrightarrow> all_digits s"
  by (auto simp: session_value_def Let_def session_part_digits split: option.splits if_splits)

lemma session_loop_utf16: "utf16 (session_loop P name is)"
  by (induction P name "is" rule: session_loop.induct)
    (auto dest: session_value_digits intro: utf16_digits split: option.split)

lemma session_utf16: "utf16 (readGASessionID P name c)"
  by (simp add: readGASessionID_def session_loop_utf16)

section \<open>The first touch is kept\<close>

definition client_id :: jstr where "client_id = js ''client_id''"
definition session_id :: jstr where "session_id = js ''session_id''"

text \<open>What a later attribution keeps of an earlier one.\<close>

definition keeps :: "FirstTouchAttribution \<Rightarrow> FirstTouchAttribution \<Rightarrow> bool" where
  "keeps a b \<longleftrightarrow> (\<forall>f. f \<noteq> client_id \<and> f \<noteq> session_id \<longrightarrow> oget b f = oget a f) \<and>
     (\<forall>c. oget a client_id = Some c \<and> c \<noteq> [] \<longrightarrow> oget b client_id = Some c)"

lemma keeps_trans: "keeps a b \<Longrightarrow> keeps b c \<Longrightarrow> keeps a c"
  unfolding keeps_def by metis

lemma keeps_get: "oget b = oget a \<Longrightarrow> keeps a b"
  by (simp add: keeps_def)

lemma ok_put:
  "attribution_ok a \<Longrightarrow> f \<in> set ATTRIBUTION_FIELDS \<Longrightarrow> utf16 v \<Longrightarrow> attribution_ok (obj_put a f v)"
proof -
  assume a: "attribution_ok a" "f \<in> set ATTRIBUTION_FIELDS" "utf16 v"
  have "obj_put a f v \<noteq> []"
    using oget_obj_put [of a f v f] by auto
  then show ?thesis
    using a set_obj_put [of a f v] by (auto simp: attribution_ok_def is_obj_put obj_put_keys)
qed

lemma id_fields: "client_id \<in> set ATTRIBUTION_FIELDS" "session_id \<in> set ATTRIBUTION_FIELDS" "client_id \<noteq> session_id"
  by (simp_all add: ATTRIBUTION_FIELDS_def client_id_def session_id_def del: js_Cons) simp

lemma refresh_keeps:
  assumes "refreshAttribution a c s = (b, changed)" "attribution_ok a" "utf16 c" "utf16 s"
  shows "keeps a b \<and> attribution_ok b"
proof -
  let ?setC = "(case oget a client_id of None \<Rightarrow> True | Some c \<Rightarrow> c = []) \<and> c \<noteq> []"
  define m where "m = (if ?setC then obj_put a client_id c else a)"
  have m: "keeps a m" "attribution_ok m"
    using assms ok_put [OF _ id_fields(1)]
    by (auto simp: m_def keeps_def oget_obj_put split: option.splits)
  have b: "b = (if s \<noteq> [] \<and> oget m session_id \<noteq> Some s then obj_put m session_id s else m)"
    using assms(1) by (simp only: refreshAttribution_def Let_def m_def client_id_def session_id_def prod.inject)
  have "keeps m b" unfolding b using id_fields(3) by (simp add: keeps_def oget_obj_put)
  moreover have "attribution_ok b" unfolding b using m(2) ok_put [OF m(2) id_fields(2) assms(4)] by simp
  ultimately show ?thesis using keeps_trans [OF m(1)] by blast
qed

lemma visit_keeps:
  assumes "readStoredAttribution st = Stored a" "attribution_ok a"
  obtains a' where "readStoredAttribution (initializeFirstTouchAttribution P build page st) = Stored a'"
    "keeps a a'" "attribution_ok a'"
proof (cases page)
  case None
  then show ?thesis using that [of a] assms keeps_get [of a a] by (simp add: initializeFirstTouchAttribution_def)
next
  case (Some w)
  define c where "c = readGAClientID P (cookie w)"
  define d where "d = readGASessionID P (getGoogleAnalyticsSessionCookieName (runtimeId w) build) (cookie w)"
  obtain b changed where b: "refreshAttribution a c d = (b, changed)" by fastforce
  have new: "initializeFirstTouchAttribution P build page st = (if changed then writeStoredAttribution b st else st)"
    using Some assms(1) b by (simp add: initializeFirstTouchAttribution_def Let_def c_def d_def)
  obtain s where s: "st = Some s" "readable s"
    using assms(1) by (auto simp: readStoredAttribution_def split: option.splits if_splits)
  show ?thesis
  proof (cases "changed \<and> writable s")
    case True
    have kb: "keeps a b" "attribution_ok b"
      using refresh_keeps [OF b assms(2)] by (simp_all add: c_def d_def client_utf16 session_utf16)
    from store_read [OF kb(2) s(2)] obtain a' where
      "readStoredAttribution (Some (s\<lparr>item := Some (json_str (attributionJson b))\<rparr>)) = Stored a'"
      "oget a' = oget b" "attribution_ok a'" .
    then show ?thesis
      using that new True s(1) keeps_trans [OF kb(1) keeps_get] by (simp add: writeStoredAttribution_def)
  next
    case False
    then have "initializeFirstTouchAttribution P build page st = st"
      using new s(1) by (auto simp: writeStoredAttribution_def)
    then show ?thesis using that [of a] assms keeps_get [of a a] by simp
  qed
qed

text \<open>
  C33. The first touch wins: once an attribution is stored, no sequence of later visits, whatever
  their addresses, referrers and cookies, changes anything of it but the session identifier and a
  client identifier that was missing.
\<close>

theorem first_touch_kept:
  assumes "readStoredAttribution st = Stored a" and "\<forall>v \<in> snd ` set a. utf16 v"
  shows "\<exists>b. readStoredAttribution (foldl (\<lambda>st page. initializeFirstTouchAttribution P build page st) st visits) = Stored b \<and>
    (\<forall>f. f \<noteq> js ''client_id'' \<and> f \<noteq> js ''session_id'' \<longrightarrow> oget b f = oget a f) \<and>
    (\<forall>c. oget a (js ''client_id'') = Some c \<and> c \<noteq> [] \<longrightarrow> oget b (js ''client_id'') = Some c)"
proof -
  have ok: "attribution_ok a" using stored_shape [OF assms(1)] assms(2) by (simp add: attribution_ok_def)
  have "\<exists>b. readStoredAttribution (foldl (\<lambda>st page. initializeFirstTouchAttribution P build page st) st visits) = Stored b \<and> keeps a b"
    using assms(1) ok
  proof (induction visits arbitrary: st a)
    case Nil
    then show ?case using keeps_get [of a a] by simp
  next
    case (Cons v vs)
    from visit_keeps [OF Cons.prems, of P build v] obtain a' where
      "readStoredAttribution (initializeFirstTouchAttribution P build v st) = Stored a'" "keeps a a'" "attribution_ok a'" .
    then show ?case using Cons.IH keeps_trans by (simp) blast
  qed
  then show ?thesis unfolding keeps_def client_id_def session_id_def .
qed

definition demo_platform :: Platform where
  "demo_platform = \<lparr>url_of = \<lambda>_. None, query_of = \<lambda>_. [(js ''utm_source'', js ''mail'')], query_text = \<lambda>_. [], decode_uri = Some\<rparr>"

definition demo_page :: Page where
  "demo_page = \<lparr>href = js ''https://a.b/'', search = [], cookie = js ''x=1; _ga=GA1.1.12.34'', referrer = [], runtimeId = [], now = js ''2025''\<rparr>"

definition demo_storage :: "Storage option" where
  "demo_storage = Some \<lparr>item = Some (json_str (attributionJson [(js ''source'', js ''ad'')])), readable = True, writable = True\<rparr>"

lemma demo_stored: "readStoredAttribution demo_storage = Stored [(js ''source'', js ''ad'')]"
  by code_simp

theorem first_touch_kept_witness:
  "\<exists>b. readStoredAttribution (foldl (\<lambda>st page. initializeFirstTouchAttribution demo_platform [] page st)
       demo_storage [Some demo_page, None]) = Stored b \<and> oget b (js ''source'') = Some (js ''ad'')"
  using first_touch_kept [OF demo_stored, of demo_platform "[]" "[Some demo_page, None]"]
  by (fastforce simp: utf16_def)

text \<open>What makes a stored text an attribution: it is a JSON object with at least one of the known
  fields, and every known field it has is a text.\<close>

definition holds_attribution :: "jstr \<Rightarrow> bool" where
  "holds_attribution raw \<longleftrightarrow> (\<exists>ps. json_parse raw = Some (JObj ps) \<and>
     (\<forall>f \<in> set ATTRIBUTION_FIELDS. \<forall>v. oget ps f = Some v \<longrightarrow> (\<exists>t. v = JStr t)) \<and>
     (\<exists>f \<in> set ATTRIBUTION_FIELDS. oget ps f \<noteq> None))"

lemma readFields_exact:
  "readFields ps fs acc = None \<longleftrightarrow> (\<exists>f \<in> set fs. \<exists>v. oget ps f = Some v \<and> (\<nexists>t. v = JStr t))"
  by (induction ps fs acc rule: readFields.induct) (auto split: option.splits json.splits)

lemma readFields_empty:
  "readFields ps fs acc = Some r \<Longrightarrow> r = [] \<longleftrightarrow> acc = [] \<and> (\<forall>f \<in> set fs. oget ps f = None)"
proof (induction ps fs acc rule: readFields.induct)
  case (2 ps f fs acc)
  have "obj_put acc f t \<noteq> []" for t using oget_obj_put [of acc f t f] by auto
  then show ?case using 2 by (auto split: option.splits json.splits)
qed simp

lemma stored_iff:
  assumes "readable s" "item s = Some raw"
  shows "readStoredAttribution (Some s) = Null \<longleftrightarrow> \<not> holds_attribution raw"
proof (cases "\<exists>ps. json_parse raw = Some (JObj ps)")
  case True
  then obtain ps where ps: "json_parse raw = Some (JObj ps)" by blast
  show ?thesis
  proof (cases "readFields ps ATTRIBUTION_FIELDS []")
    case None
    then show ?thesis using assms ps readFields_exact [of ps ATTRIBUTION_FIELDS "[]"]
      by (auto simp: readStoredAttribution_def holds_attribution_def)
  next
    case (Some r)
    then show ?thesis
      using assms ps readFields_exact [of ps ATTRIBUTION_FIELDS "[]"] readFields_empty [OF Some]
      by (auto simp: readStoredAttribution_def holds_attribution_def)
  qed
next
  case False
  then show ?thesis using assms
    by (auto simp: readStoredAttribution_def holds_attribution_def split: option.split json.split)
qed

text \<open>
  C35. A stored text is taken for an attribution exactly when it is a JSON object with at least one of
  the known fields whose known fields are all texts.  Any other text is left alone and never sent: a
  visit keeps the storage as it is, and a registration request goes out unchanged.
\<close>

theorem malformed_left_alone:
  assumes "readable s" and "item s = Some raw"
  shows "((\<exists>a. readStoredAttribution (Some s) = Stored a) \<longleftrightarrow> holds_attribution raw) \<and>
    (holds_attribution raw \<or>
      initializeFirstTouchAttribution P build page (Some s) = Some s \<and>
      withFirstTouchAttribution P build page (Some s) request = (request, Some s))"
proof -
  have "readStoredAttribution (Some s) \<noteq> Undefined"
    using assms by (auto simp: readStoredAttribution_def split: option.split json.split)
  then have "(\<exists>a. readStoredAttribution (Some s) = Stored a) \<longleftrightarrow> readStoredAttribution (Some s) \<noteq> Null"
    by (cases "readStoredAttribution (Some s)") auto
  moreover have "initializeFirstTouchAttribution P build page (Some s) = Some s \<and>
      withFirstTouchAttribution P build page (Some s) request = (request, Some s)"
    if "readStoredAttribution (Some s) = Null"
    using that
    by (auto simp: withFirstTouchAttribution_def getFirstTouchAttribution_def initializeFirstTouchAttribution_def Let_def
        split: option.split)
  ultimately show ?thesis using stored_iff [OF assms] by blast
qed

theorem malformed_left_alone_witness:
  "let st = Some \<lparr>item = Some (js ''{\"source\":1}''), readable = True, writable = True\<rparr> in
   withFirstTouchAttribution demo_platform [] (Some demo_page) st [] = ([], st)"
proof -
  let ?s = "\<lparr>item = Some (js ''{\"source\":1}''), readable = True, writable = True\<rparr>"
  have "json_parse (js ''{\"source\":1}'') = Some (JObj [(js ''source'', JNum (Fin 1))])" by code_simp
  moreover have "js ''source'' \<in> set ATTRIBUTION_FIELDS" by (simp add: ATTRIBUTION_FIELDS_def)
  ultimately have "\<not> holds_attribution (js ''{\"source\":1}'')"
    by (auto simp: holds_attribution_def simp del: js_Cons)
  then show ?thesis
    using malformed_left_alone [of ?s "js ''{\"source\":1}''" demo_platform "[]" "Some demo_page" "[]"] by (simp add: Let_def)
qed

section \<open>What a first visit records\<close>

definition nonblank :: "jstr \<Rightarrow> jstr option" where
  "nonblank s = (if s = [] then None else Some s)"

fun orElse :: "'a option \<Rightarrow> 'a option \<Rightarrow> 'a option" where
  "orElse None y = y"
| "orElse (Some x) y = Some x"

lemma orElse_None [simp]: "orElse x None = x"
  by (cases x) auto

lemma oget_putSome:
  "oget (putSome a k v) f = (if f = k then orElse (Option.bind v nonblank) (oget a k) else oget a f)"
  by (auto simp: putSome_def nonblank_def oget_obj_put split: option.split)

lemma ok_putSome:
  "attribution_ok a \<Longrightarrow> f \<in> set ATTRIBUTION_FIELDS \<Longrightarrow> (\<And>s. v = Some s \<Longrightarrow> utf16 s) \<Longrightarrow> attribution_ok (putSome a f v)"
  by (auto simp: putSome_def intro!: ok_put split: option.split)

lemma utf16_trim: "utf16 s \<Longrightarrow> utf16 (js_trim s)"
  using set_js_trim [of s] by (auto simp: utf16_def)

text \<open>The texts the platform hands over are UTF-16.\<close>

definition page_ok :: "Platform \<Rightarrow> Page \<Rightarrow> bool" where
  "page_ok P w \<longleftrightarrow> utf16 (now w) \<and> list_all (\<lambda>(k, v). utf16 v) (query_of P (search w)) \<and>
     (\<forall>u \<in> set_option (sanitizeAttributionURL P (href w)) \<union> set_option (sanitizeAttributionURL P (referrer w)). utf16 u)"

lemma trimmedParam_utf16: "page_ok P w \<Longrightarrow> trimmedParam (query_of P (search w)) k = Some s \<Longrightarrow> utf16 s"
  by (auto simp: trimmedParam_def page_ok_def list_all_iff oget_def intro!: utf16_trim dest!: map_of_SomeD)

lemma ok_new: "is_obj a \<Longrightarrow> fst ` set a \<subseteq> set ATTRIBUTION_FIELDS \<Longrightarrow> \<forall>v \<in> snd ` set a. utf16 v \<Longrightarrow>
  f \<in> set ATTRIBUTION_FIELDS \<Longrightarrow> utf16 v \<Longrightarrow> attribution_ok (obj_put a f v)"
proof -
  assume a: "is_obj a" "fst ` set a \<subseteq> set ATTRIBUTION_FIELDS" "\<forall>v \<in> snd ` set a. utf16 v"
    "f \<in> set ATTRIBUTION_FIELDS" "utf16 v"
  have "obj_put a f v \<noteq> []" using oget_obj_put [of a f v f] by auto
  then show ?thesis
    using a set_obj_put [of a f v] by (auto simp: attribution_ok_def is_obj_put obj_put_keys)
qed

lemma foldl_ok:
  "(\<And>a x. x \<in> set xs \<Longrightarrow> Q a \<Longrightarrow> Q (f a x)) \<Longrightarrow> Q a \<Longrightarrow> Q (foldl f a xs)"
  by (induction xs arbitrary: a) auto

lemma recorded_fields:
  "js ''page_location'' \<in> set ATTRIBUTION_FIELDS" "js ''page_referrer'' \<in> set ATTRIBUTION_FIELDS"
  "js ''first_visit_at'' \<in> set ATTRIBUTION_FIELDS" "js ''client_id'' \<in> set ATTRIBUTION_FIELDS"
  "js ''session_id'' \<in> set ATTRIBUTION_FIELDS"
  by (simp_all add: ATTRIBUTION_FIELDS_def del: js_Cons)

lemma utm_ok:
  assumes "page_ok P w" "attribution_ok a"
  shows "attribution_ok (foldl (\<lambda>a (key, field). putSome a field (trimmedParam (query_of P (search w)) key)) a utmMap)"
proof (rule foldl_ok)
  fix a :: FirstTouchAttribution and x :: "jstr \<times> jstr"
  assume x: "x \<in> set utmMap" and a: "attribution_ok a"
  have "snd x \<in> set ATTRIBUTION_FIELDS" using x by (auto simp: utmMap_def ATTRIBUTION_FIELDS_def simp del: js_Cons)
  then show "attribution_ok (case x of (key, field) \<Rightarrow> putSome a field (trimmedParam (query_of P (search w)) key))"
    using ok_putSome [OF a] trimmedParam_utf16 [OF assms(1)] by (simp add: case_prod_beta)
qed (fact assms(2))

lemma click_ok:
  assumes "page_ok P w" "attribution_ok a"
  shows "attribution_ok (foldl (\<lambda>a key. putSome a key (trimmedParam (query_of P (search w)) key)) a CLICK_ID_PARAMS)"
proof (rule foldl_ok)
  fix a :: FirstTouchAttribution and x :: jstr
  assume x: "x \<in> set CLICK_ID_PARAMS" and a: "attribution_ok a"
  have "x \<in> set ATTRIBUTION_FIELDS" using x by (auto simp: CLICK_ID_PARAMS_def ATTRIBUTION_FIELDS_def simp del: js_Cons)
  then show "attribution_ok (putSome a x (trimmedParam (query_of P (search w)) x))"
    using ok_putSome [OF a] trimmedParam_utf16 [OF assms(1)] by simp
qed (fact assms(2))

definition fields_ok :: "FirstTouchAttribution \<Rightarrow> bool" where
  "fields_ok a \<longleftrightarrow> is_obj a \<and> fst ` set a \<subseteq> set ATTRIBUTION_FIELDS \<and> (\<forall>v \<in> snd ` set a. utf16 v)"

lemma firstAttribution_ok:
  assumes "page_ok P w" "utf16 c" "utf16 d"
  shows "attribution_ok (firstAttribution P w c d)"
proof -
  define loc where "loc = (case sanitizeAttributionURL P (href w) of None \<Rightarrow> [] | Some u \<Rightarrow> [(js ''page_location'', u)])"
  define ref where "ref = (case (if referrer w \<noteq> [] then sanitizeAttributionURL P (referrer w) else None) of
      None \<Rightarrow> loc | Some u \<Rightarrow> obj_put loc (js ''page_referrer'') u)"
  have put: "fields_ok a \<Longrightarrow> f \<in> set ATTRIBUTION_FIELDS \<Longrightarrow> utf16 v \<Longrightarrow> attribution_ok (obj_put a f v)" for a f v
    using ok_new [of a f v] by (simp add: fields_ok_def)
  have "fields_ok loc"
    using assms(1) recorded_fields(1)
    by (cases "sanitizeAttributionURL P (href w)") (simp_all add: loc_def fields_ok_def page_ok_def is_obj_def del: js_Cons)
  moreover have "utf16 u" if "sanitizeAttributionURL P (referrer w) = Some u" for u
    using assms(1) that by (simp add: page_ok_def)
  ultimately have "fields_ok loc \<and> (ref = loc \<or> attribution_ok ref)"
    using put [of loc, OF _ recorded_fields(2)] by (simp add: ref_def del: js_Cons split: option.split)
  then have "fields_ok ref" by (auto simp: attribution_ok_def fields_ok_def)
  then have "attribution_ok (obj_put ref (js ''first_visit_at'') (now w))"
    using assms(1) by (intro put recorded_fields) (simp_all add: page_ok_def)
  then have "attribution_ok (putSome (putSome (obj_put ref (js ''first_visit_at'') (now w)) (js ''client_id'') (Some c))
      (js ''session_id'') (Some d))"
    using assms(2,3) by (intro ok_putSome recorded_fields) simp_all
  then show ?thesis
    unfolding firstAttribution_def Let_def loc_def [symmetric] ref_def [symmetric]
    by (intro click_ok utm_ok assms(1))
qed

lemma firstAttribution_fields:
  "map (oget (firstAttribution P w c d)) ATTRIBUTION_FIELDS =
     [nonblank c, nonblank d, sanitizeAttributionURL P (href w),
      if referrer w = [] then None else sanitizeAttributionURL P (referrer w)] @
     map (\<lambda>k. Option.bind (trimmedParam (query_of P (search w)) k) nonblank) (UTM_PARAMS @ CLICK_ID_PARAMS) @ [Some (now w)]"
proof -
  have start: "oget (case sanitizeAttributionURL P (href w) of None \<Rightarrow> [] | Some u \<Rightarrow> [(js ''page_location'', u)]) f =
      (if f = js ''page_location'' then sanitizeAttributionURL P (href w) else None)" for f
    by (simp del: js_Cons split: option.split)
  have ref: "oget (case v of None \<Rightarrow> a | Some u \<Rightarrow> obj_put a k u) f =
      (if f = k then orElse v (oget a k) else oget a f)" for v a k f
    by (simp add: oget_obj_put split: option.split)
  show ?thesis
    by (simp add: firstAttribution_def Let_def ATTRIBUTION_FIELDS_def utmMap_def CLICK_ID_PARAMS_def UTM_PARAMS_def
        oget_putSome oget_obj_put start ref)
qed

text \<open>
  C34. A first visit is recorded completely: with a working storage that holds nothing yet, asking for
  the attribution returns and stores the sanitised address and referrer, the time, the client and
  session identifiers of the cookies when they are present, and for each campaign and click
  parameter of the address the first value, trimmed, when it is not blank.
\<close>

theorem first_visit_recorded:
  assumes "page_ok P w" and "item s = None" and "readable s" and "writable s"
  shows "\<exists>a st. getFirstTouchAttribution P build (Some w) (Some s) = (Some a, st) \<and>
    readStoredAttribution st = Stored a \<and>
    map (oget a) ATTRIBUTION_FIELDS =
      [nonblank (readGAClientID P (cookie w)),
       nonblank (readGASessionID P (getGoogleAnalyticsSessionCookieName (runtimeId w) build) (cookie w)),
       sanitizeAttributionURL P (href w),
       if referrer w = [] then None else sanitizeAttributionURL P (referrer w)] @
      map (\<lambda>k. Option.bind (map_option js_trim (oget (query_of P (search w)) k)) nonblank) (UTM_PARAMS @ CLICK_ID_PARAMS) @
      [Some (now w)]"
proof -
  let ?a = "firstAttribution P w (readGAClientID P (cookie w))
      (readGASessionID P (getGoogleAnalyticsSessionCookieName (runtimeId w) build) (cookie w))"
  let ?st = "Some (s\<lparr>item := Some (json_str (attributionJson ?a))\<rparr>)"
  have ok: "attribution_ok ?a" by (intro firstAttribution_ok assms(1) client_utf16 session_utf16)
  have "readStoredAttribution (Some s) = Undefined" using assms(2,3) by (simp add: readStoredAttribution_def)
  then have init: "initializeFirstTouchAttribution P build (Some w) (Some s) = ?st"
    using assms(4) by (simp add: initializeFirstTouchAttribution_def Let_def writeStoredAttribution_def)
  from store_read [OF ok assms(3)] obtain b where b: "readStoredAttribution ?st = Stored b" "oget b = oget ?a" .
  have "getFirstTouchAttribution P build (Some w) (Some s) = (Some b, ?st)"
    by (simp only: getFirstTouchAttribution_def init Let_def b(1) stored.case)
  moreover have "map (oget b) ATTRIBUTION_FIELDS = map (oget ?a) ATTRIBUTION_FIELDS" by (simp only: b(2))
  ultimately show ?thesis
    using b(1) unfolding firstAttribution_fields trimmedParam_def by blast
qed

theorem first_visit_recorded_witness:
  "\<exists>a st. getFirstTouchAttribution demo_platform [] (Some demo_page) (Some \<lparr>item = None, readable = True, writable = True\<rparr>) = (Some a, st) \<and>
     map (oget a) ATTRIBUTION_FIELDS =
       [Some (js ''12.34''), None, None, None, Some (js ''mail''), None, None, None, None, None, None, None, None, Some (js ''2025'')]"
proof -
  have ok: "page_ok demo_platform demo_page"
    by (simp add: page_ok_def demo_platform_def demo_page_def sanitizeAttributionURL_def)
  have v: "[nonblank (readGAClientID demo_platform (cookie demo_page)),
       nonblank (readGASessionID demo_platform (getGoogleAnalyticsSessionCookieName (runtimeId demo_page) []) (cookie demo_page)),
       sanitizeAttributionURL demo_platform (href demo_page),
       if referrer demo_page = [] then None else sanitizeAttributionURL demo_platform (referrer demo_page)] @
      map (\<lambda>k. Option.bind (map_option js_trim (oget (query_of demo_platform (search demo_page)) k)) nonblank) (UTM_PARAMS @ CLICK_ID_PARAMS) @
      [Some (now demo_page)] =
      [Some (js ''12.34''), None, None, None, Some (js ''mail''), None, None, None, None, None, None, None, None, Some (js ''2025'')]"
    by code_simp
  have "item \<lparr>item = None, readable = True, writable = True\<rparr> = None"
    "readable \<lparr>item = None, readable = True, writable = True\<rparr>" "writable \<lparr>item = None, readable = True, writable = True\<rparr>"
    by simp_all
  from first_visit_recorded [OF ok this, of "[]"] show ?thesis
    unfolding v by (elim exE conjE) (intro exI conjI)
qed

end
