(* ===== verification/Notifications.thy ===== *)
theory Notifications
  imports JSON "HOL-Library.Word"
begin

text \<open>
  Notices and announcements: the keys of \<^verbatim>\<open>hooks/use-notifications.ts\<close>, the store of
  \<^verbatim>\<open>stores/notification-store.ts\<close> and the hook's actions.  An announcement is the list of its
  properties as parsed from JSON.
\<close>

section \<open>The content hash\<close>

text \<open>The conversion of the bitwise operators to signed 32-bit integers.\<close>

definition toInt32 :: "int \<Rightarrow> int" where
  "toInt32 x = (x + 2147483648) mod 4294967296 - 2147483648"

definition hashStep :: "int \<Rightarrow> nat \<Rightarrow> int" where
  "hashStep h chr = toInt32 (toInt32 (h * 32) - h + int chr)"

definition digit36 :: "nat \<Rightarrow> nat" where
  "digit36 d = (if d < 10 then 48 + d else 87 + d)"

fun base36 :: "nat \<Rightarrow> jstr" where
  "base36 n = (if n < 36 then [digit36 n] else base36 (n div 36) @ [digit36 (n mod 36)])"

declare base36.simps [simp del]

definition hashString :: "jstr \<Rightarrow> jstr" where
  "hashString input =
     (if input = [] then js ''0''
      else (let hash = foldl hashStep 0 input in
        if hash < 0 then 45 # base36 (nat (- hash)) else base36 (nat hash)))"

section \<open>Announcement keys\<close>

text \<open>\<^verbatim>\<open>value || ''\<close> and its trimmed form; \<open>None\<close> is the exception raised when the value is not a string.\<close>

definition orEmpty :: "json option \<Rightarrow> json" where
  "orEmpty v = (case v of Some j \<Rightarrow> if json_truthy j then j else JStr [] | None \<Rightarrow> JStr [])"

definition trimmedText :: "json option \<Rightarrow> json option" where
  "trimmedText v = (case orEmpty v of JStr s \<Rightarrow> Some (JStr (js_trim s)) | _ \<Rightarrow> None)"

definition fingerprint :: "(jstr \<times> json) list \<Rightarrow> jstr option" where
  "fingerprint item =
     (case (trimmedText (oget item (js ''content'')), trimmedText (oget item (js ''extra'')),
            trimmedText (oget item (js ''title'')), trimmedText (oget item (js ''link''))) of
        (Some content, Some extra, Some title, Some link) \<Rightarrow>
          Some (json_str (JObj
            [(js ''publishDate'', orEmpty (oget item (js ''publishDate''))), (js ''content'', content), (js ''extra'', extra),
             (js ''type'', orEmpty (oget item (js ''type''))), (js ''title'', title), (js ''link'', link)]))
      | _ \<Rightarrow> None)"

text \<open>The key of an announcement; \<open>None\<close> when computing it raises.  An absent announcement is \<open>None\<close>.\<close>

definition getAnnouncementKey :: "(jstr \<times> json) list option \<Rightarrow> jstr option" where
  "getAnnouncementKey announcement =
     (case announcement of
        None \<Rightarrow> Some []
      | Some item \<Rightarrow>
          (case oget item (js ''id'') of
             Some j \<Rightarrow>
               if j \<noteq> JNull then map_option (\<lambda>t. js ''id:'' @ t) (json_string j)
               else map_option (\<lambda>t. js ''hash:'' @ hashString t) (fingerprint item)
           | None \<Rightarrow> map_option (\<lambda>t. js ''hash:'' @ hashString t) (fingerprint item)))"

section \<open>The store\<close>

record NotificationState =
  lastReadNotice :: jstr
  readAnnouncementKeys :: "jstr list"
  closedUntilDate :: "jstr option"

definition initialNotifications :: NotificationState where
  "initialNotifications = \<lparr>lastReadNotice = [], readAnnouncementKeys = [], closedUntilDate = None\<rparr>"

definition markNoticeRead :: "jstr \<Rightarrow> NotificationState \<Rightarrow> NotificationState" where
  "markNoticeRead noticeContent s = s\<lparr>lastReadNotice := js_trim noticeContent\<rparr>"

definition markAnnouncementsRead :: "jstr list \<Rightarrow> NotificationState \<Rightarrow> NotificationState" where
  "markAnnouncementsRead keys s = s\<lparr>readAnnouncementKeys := js_uniq (readAnnouncementKeys s @ keys)\<rparr>"

definition setClosedUntilDate :: "jstr option \<Rightarrow> NotificationState \<Rightarrow> NotificationState" where
  "setClosedUntilDate date s = s\<lparr>closedUntilDate := date\<rparr>"

definition isAnnouncementRead :: "NotificationState \<Rightarrow> jstr \<Rightarrow> bool" where
  "isAnnouncementRead s key \<longleftrightarrow> key \<in> set (readAnnouncementKeys s)"

definition isNoticeClosed :: "jstr \<Rightarrow> NotificationState \<Rightarrow> bool" where
  "isNoticeClosed today s =
     (case closedUntilDate s of None \<Rightarrow> False | Some d \<Rightarrow> d \<noteq> [] \<and> d = today)"

section \<open>The hook\<close>

datatype Tab = NoticeTab | AnnouncementsTab

record Hook =
  dialogOpen :: bool
  activeTab :: Tab
  store :: NotificationState

text \<open>What the server sent: the notice response (\<open>None\<close> while it is loading) and the status.\<close>

record ServerData =
  noticeResponse :: "(bool \<times> jstr) option"
  announcements_enabled :: bool
  statusAnnouncements :: "(jstr \<times> json) list option list"

definition noticeContent :: "ServerData \<Rightarrow> jstr" where
  "noticeContent d = (case noticeResponse d of Some (True, text) \<Rightarrow> js_trim text | _ \<Rightarrow> [])"

definition announcements :: "ServerData \<Rightarrow> (jstr \<times> json) list option list" where
  "announcements d = (if announcements_enabled d then take 20 (statusAnnouncements d) else [])"

fun all_keys :: "(jstr \<times> json) list option list \<Rightarrow> jstr list option" where
  "all_keys [] = Some []"
| "all_keys (a # as) =
     (case getAnnouncementKey a of None \<Rightarrow> None | Some k \<Rightarrow> map_option (Cons k) (all_keys as))"

definition noticeUnread :: "ServerData \<Rightarrow> NotificationState \<Rightarrow> nat" where
  "noticeUnread d s = (if noticeContent d \<noteq> [] \<and> noticeContent d \<noteq> lastReadNotice s then 1 else 0)"

definition unreadCounts :: "ServerData \<Rightarrow> NotificationState \<Rightarrow> (nat \<times> nat \<times> nat) option" where
  "unreadCounts d s =
     (case all_keys (announcements d) of
        None \<Rightarrow> None
      | Some keys \<Rightarrow>
          (let n = noticeUnread d s; a = length (filter (\<lambda>k. \<not> isAnnouncementRead s k) keys) in Some (n, a, n + a)))"

definition handleOpenDialog :: "ServerData \<Rightarrow> Tab option \<Rightarrow> Hook \<Rightarrow> Hook" where
  "handleOpenDialog d tab h =
     h\<lparr>store := (if noticeContent d \<noteq> [] then markNoticeRead (noticeContent d) (store h) else store h),
       activeTab := (case tab of Some t \<Rightarrow> t | None \<Rightarrow> NoticeTab), dialogOpen := True\<rparr>"

text \<open>Switching the tab; when a key cannot be computed only the tab has changed.\<close>

definition handleTabChange :: "ServerData \<Rightarrow> Tab \<Rightarrow> Hook \<Rightarrow> Hook" where
  "handleTabChange d tab h =
     (let h = h\<lparr>activeTab := tab\<rparr> in
      if tab = AnnouncementsTab \<and> announcements d \<noteq> [] then
        (case all_keys (announcements d) of
           None \<Rightarrow> h
         | Some keys \<Rightarrow> h\<lparr>store := markAnnouncementsRead keys (store h)\<rparr>)
      else h)"

definition handleCloseToday :: "jstr \<Rightarrow> Hook \<Rightarrow> Hook" where
  "handleCloseToday today h = h\<lparr>store := setClosedUntilDate (Some today) (store h), dialogOpen := False\<rparr>"

datatype HookAction = OpenDialog "Tab option" | CloseDialog | ChangeTab Tab | CloseToday jstr

fun hookAct :: "ServerData \<Rightarrow> Hook \<Rightarrow> HookAction \<Rightarrow> Hook" where
  "hookAct d h (OpenDialog tab) = handleOpenDialog d tab h"
| "hookAct d h CloseDialog = h\<lparr>dialogOpen := False\<rparr>"
| "hookAct d h (ChangeTab tab) = handleTabChange d tab h"
| "hookAct d h (CloseToday today) = handleCloseToday today h"

section \<open>The hash is a polynomial modulo \<open>2\<^sup>3\<^sup>2\<close>\<close>

lemma toInt32_mod: "toInt32 x mod 4294967296 = x mod 4294967296"
proof -
  have "toInt32 x mod 4294967296 = ((x + 2147483648) mod 4294967296 - 2147483648) mod 4294967296"
    by (simp add: toInt32_def)
  also have "\<dots> = (x + 2147483648 - 2147483648) mod 4294967296" by (rule mod_diff_left_eq)
  finally show ?thesis by simp
qed

lemma toInt32_cong: "x mod 4294967296 = y mod 4294967296 \<Longrightarrow> toInt32 x = toInt32 y"
  unfolding toInt32_def by (metis mod_add_left_eq)

lemma toInt32_bounds: "- 2147483648 \<le> toInt32 x \<and> toInt32 x < 2147483648"
  using pos_mod_bound [of 4294967296 "x + 2147483648"] pos_mod_sign [of 4294967296 "x + 2147483648"]
  unfolding toInt32_def by linarith

lemma toInt32_sint: "toInt32 x = sint (word_of_int x :: 32 word)"
proof -
  have "sint (word_of_int x :: 32 word) = signed_take_bit 31 x" by (simp add: signed_of_int)
  also have "\<dots> = take_bit 32 (x + 2 ^ 31) - 2 ^ 31" by (simp add: signed_take_bit_eq_take_bit_shift)
  finally show ?thesis by (simp add: toInt32_def take_bit_eq_mod)
qed

definition poly :: "jstr \<Rightarrow> 32 word" where
  "poly s = foldl (\<lambda>h c. 31 * h + of_nat c) 0 s"

lemma word_of_toInt32: "(word_of_int (toInt32 x) :: 32 word) = word_of_int x"
  by (simp add: toInt32_sint)

lemma hashStep_word: "(word_of_int (hashStep h c) :: 32 word) = 31 * word_of_int h + of_nat c"
  by (simp add: hashStep_def word_of_toInt32 algebra_simps)

lemma hash_word: "(word_of_int (foldl hashStep h s) :: 32 word) = foldl (\<lambda>h c. 31 * h + of_nat c) (word_of_int h) s"
  by (induction s arbitrary: h) (simp_all add: hashStep_word)

lemma hash_sint: "foldl hashStep 0 s = sint (poly s)"
proof (cases s rule: rev_cases)
  case (snoc t c)
  have "foldl hashStep 0 s = sint (word_of_int (foldl hashStep 0 s) :: 32 word)"
    using snoc by (simp add: hashStep_def flip: toInt32_sint) (simp add: toInt32_sint word_of_toInt32)
  then show ?thesis by (simp add: hash_word poly_def)
qed (simp add: poly_def)

section \<open>Base 36\<close>

definition value36 :: "jstr \<Rightarrow> nat" where
  "value36 s = foldl (\<lambda>v c. 36 * v + (if c < 58 then c - 48 else c - 87)) 0 s"

lemma value36_base36: "value36 (base36 n) = n"
proof (induction n rule: base36.induct)
  case (1 n)
  have d: "(if digit36 k < 58 then digit36 k - 48 else digit36 k - 87) = k" if "k < 36" for k
    using that by (auto simp: digit36_def)
  show ?case
  proof (cases "n < 36")
    case True
    then show ?thesis by (simp add: base36.simps [of n] value36_def d)
  next
    case False
    then have "value36 (base36 n) = 36 * value36 (base36 (n div 36)) + n mod 36"
      by (simp add: base36.simps [of n] value36_def d)
    then show ?thesis using 1 False by simp
  qed
qed

lemma base36_no_sign: "hd (base36 n) \<noteq> 45 \<and> base36 n \<noteq> []"
proof (induction n rule: base36.induct)
  case (1 n)
  then show ?case by (cases "n < 36") (auto simp: base36.simps [of n] digit36_def)
qed

lemma hashString_eq: "hashString s = (if sint (poly s) < 0 then 45 # base36 (nat (- sint (poly s))) else base36 (nat (sint (poly s))))"
proof (cases "s = []")
  case True
  then show ?thesis by (simp add: hashString_def poly_def base36.simps [of 0] digit36_def)
next
  case False
  then show ?thesis by (simp add: hashString_def hash_sint Let_def)
qed

text \<open>
  C36. The content hash is the 32-bit polynomial in 31 of the code units: the running value never leaves
  the signed 32-bit range, and two texts get the same printed hash exactly when their polynomials
  agree modulo \<open>2\<^sup>3\<^sup>2\<close>.
\<close>

theorem hash_is_polynomial:
  "foldl hashStep 0 s = sint (poly s) \<and> - (2 ^ 31) \<le> foldl hashStep 0 s \<and> foldl hashStep 0 s < 2 ^ 31 \<and>
   (hashString s = hashString t \<longleftrightarrow> poly s = poly t)"
proof -
  have inj: "base36 m = base36 n \<longleftrightarrow> m = n" for m n by (metis value36_base36)
  have sign: "45 # r \<noteq> base36 n" for r n using base36_no_sign [of n] by (cases "base36 n") auto
  have "hashString s = hashString t \<longleftrightarrow> sint (poly s) = sint (poly t)"
    using sign [THEN not_sym] sign by (auto simp: hashString_eq inj split: if_splits)
  moreover have "- (2 ^ 31) \<le> sint (poly s) \<and> sint (poly s) < 2 ^ 31"
    using sint_range_size [of "poly s"] by (simp add: word_size)
  ultimately show ?thesis using signed_word_eqI [of "poly s" "poly t"] by (auto simp: hash_sint)
qed

text \<open>
  Different announcements can get the same key although the key is meant to be unique: two
  announcements that differ only in the contents \<^verbatim>\<open>Aa\<close> and \<^verbatim>\<open>BB\<close> have the same key, so
  marking one as read marks the other.
\<close>

theorem announcement_keys_collide:
  "getAnnouncementKey (Some [(js ''content'', JStr (js ''Aa''))]) =
     getAnnouncementKey (Some [(js ''content'', JStr (js ''BB''))]) \<and>
   getAnnouncementKey (Some [(js ''content'', JStr (js ''Aa''))]) \<noteq> None"
  by code_simp

section \<open>Unread counts\<close>

definition nothing_unread :: "ServerData \<Rightarrow> NotificationState \<Rightarrow> bool" where
  "nothing_unread d s \<longleftrightarrow> noticeUnread d s = 0 \<and> (\<forall>keys. all_keys (announcements d) = Some keys \<longrightarrow> set keys \<subseteq> set (readAnnouncementKeys s))"

text \<open>
  C37. Opening the dialog and then the announcements tab clears the unread counts, and no later
  sequence of actions brings them back while the server's data stay the same.
\<close>

theorem reading_clears_unread:
  assumes "all_keys (announcements d) = Some keys"
  shows "unreadCounts d (store (foldl (hookAct d) h (OpenDialog tab # ChangeTab AnnouncementsTab # later))) = Some (0, 0, 0)"
proof -
  have trim: "js_trim (noticeContent d) = noticeContent d"
    by (auto simp: noticeContent_def split: option.split bool.split)
  have uniq: "set (js_uniq xs) = set xs" for xs :: "jstr list" by simp
  have act: "nothing_unread d (store (hookAct d h a))" if "nothing_unread d (store h)" for h a
    using that assms
    by (cases a) (auto simp: nothing_unread_def noticeUnread_def handleOpenDialog_def handleTabChange_def handleCloseToday_def
        markNoticeRead_def markAnnouncementsRead_def setClosedUntilDate_def trim Let_def split: if_splits)
  have "nothing_unread d (store (foldl (hookAct d) h as))" if "nothing_unread d (store h)" for h as
    using that by (induction as arbitrary: h) (simp_all add: act)
  moreover have "nothing_unread d (store (hookAct d (hookAct d h (OpenDialog tab)) (ChangeTab AnnouncementsTab)))"
    using assms by (auto simp: nothing_unread_def noticeUnread_def handleOpenDialog_def handleTabChange_def
        markNoticeRead_def markAnnouncementsRead_def trim Let_def)
  ultimately have "nothing_unread d (store (foldl (hookAct d) h (OpenDialog tab # ChangeTab AnnouncementsTab # later)))"
    by (simp only: foldl_Cons)
  then show ?thesis using assms
    by (auto simp: unreadCounts_def nothing_unread_def isAnnouncementRead_def Let_def filter_empty_conv)
qed

definition demo_server :: ServerData where
  "demo_server = \<lparr>noticeResponse = Some (True, js '' hi''), announcements_enabled = True,
     statusAnnouncements = [Some [(js ''id'', JNum (Fin 7))], None]\<rparr>"

definition demo_hook :: Hook where
  "demo_hook = \<lparr>dialogOpen = False, activeTab = NoticeTab, store = initialNotifications\<rparr>"

theorem reading_clears_unread_witness:
  "unreadCounts demo_server (store demo_hook) = Some (1, 2, 3) \<and>
   unreadCounts demo_server (store (foldl (hookAct demo_server) demo_hook
     [OpenDialog None, ChangeTab AnnouncementsTab, CloseDialog])) = Some (0, 0, 0)"
proof -
  have n: "num_str (Fin 7) = dec 7" using num_str_of_nat [of 7] by simp
  have k: "all_keys (announcements demo_server) = Some [js ''id:7'', []]"
    by (simp add: announcements_def demo_server_def getAnnouncementKey_def n dec.simps del: num_str.simps)
  have "unreadCounts demo_server (store demo_hook) = Some (1, 2, 3)"
    unfolding unreadCounts_def k
    by (simp add: noticeUnread_def noticeContent_def demo_server_def demo_hook_def
        initialNotifications_def isAnnouncementRead_def Let_def js_trim_def is_ws_def)
  then show ?thesis using reading_clears_unread [OF k, of demo_hook None "[CloseDialog]"] by simp
qed

end
