(* ===== verification/Table_Url_State.thy ===== *)
theory Table_Url_State
  imports JSON
begin

text \<open>
  Table state in the address: \<^verbatim>\<open>hooks/use-table-url-state.ts\<close>.  The search record is a property list
  without the undefined properties (they are not part of an address).  The router is the field
  \<open>navigateTo\<close> of the configuration: what the search record becomes when the hook asks for another
  one.  The effect that sets the column filters from the address runs when the record changes.
\<close>

type_synonym SearchRecord = "(jstr \<times> json) list"

text \<open>\<^verbatim>\<open>{...s, [k]: v}\<close>; undefined removes the property.\<close>

definition with_key :: "SearchRecord \<Rightarrow> jstr \<Rightarrow> json option \<Rightarrow> SearchRecord" where
  "with_key s k v = (case v of None \<Rightarrow> filter (\<lambda>e. fst e \<noteq> k) s | Some j \<Rightarrow> obj_put s k j)"

lemma oget_with_key [simp]: "oget (with_key s k v) k' = (if k' = k then v else oget s k')"
proof -
  have "oget (filter (\<lambda>e. fst e \<noteq> k) s) k' = (if k' = k then None else oget s k')"
    by (induction s) (auto simp: oget_def)
  then show ?thesis by (auto simp: with_key_def oget_obj_put split: option.split)
qed

text \<open>The router hands out the same object while the properties are the same.\<close>

definition same_search :: "SearchRecord \<Rightarrow> SearchRecord \<Rightarrow> bool" where
  "same_search a b \<longleftrightarrow> list_all (\<lambda>k. oget a k = oget b k) (map fst a @ map fst b)"

datatype FilterType = StringType | ArrayType | NoType

record ColumnFilterConfig =
  columnId :: jstr
  searchKey :: jstr
  ftype :: FilterType
  serialize :: "json \<Rightarrow> json option"
  deserialize :: "json option \<Rightarrow> json option"

record TableConfig =
  pageKey :: jstr
  pageSizeKey :: jstr
  defaultPage :: jsnum
  defaultPageSize :: jsnum
  globalFilterKey :: jstr
  globalFilterEnabled :: bool
  trimGlobal :: bool
  columnFiltersCfg :: "ColumnFilterConfig list"
  navigateTo :: "SearchRecord \<Rightarrow> SearchRecord"

record PaginationState =
  pageIndex :: jsnum
  pageSize :: jsnum

type_synonym ColumnFiltersState = "(jstr \<times> json) list"

record TableState =
  search :: SearchRecord
  columnFilters :: ColumnFiltersState
  globalFilter :: "jstr option"

section \<open>Reading the address\<close>

text \<open>The filter one column contributes: a string that is not blank, or a non-empty array.  A
  configuration without a type is treated as an array.\<close>

definition columnFilter :: "ColumnFilterConfig \<Rightarrow> SearchRecord \<Rightarrow> (jstr \<times> json) option" where
  "columnFilter cfg s =
     (let value = deserialize cfg (oget s (searchKey cfg)) in
      if ftype cfg = StringType then
        (case value of Some (JStr t) \<Rightarrow> if js_trim t \<noteq> [] then Some (columnId cfg, JStr t) else None | _ \<Rightarrow> None)
      else (case value of Some (JArr xs) \<Rightarrow> if xs \<noteq> [] then Some (columnId cfg, JArr xs) else None | _ \<Rightarrow> None))"

definition initialColumnFilters :: "TableConfig \<Rightarrow> SearchRecord \<Rightarrow> ColumnFiltersState" where
  "initialColumnFilters c s = List.map_filter (\<lambda>cfg. columnFilter cfg s) (columnFiltersCfg c)"

definition numberOr :: "json option \<Rightarrow> jsnum \<Rightarrow> jsnum" where
  "numberOr v fallback = (case v of Some (JNum x) \<Rightarrow> x | _ \<Rightarrow> fallback)"

text \<open>\<^verbatim>\<open>Math.max(0, x)\<close>.\<close>

definition max_zero :: "jsnum \<Rightarrow> jsnum" where
  "max_zero x = (if x = NaN then NaN else if num_less (Fin 0) x then x else Fin 0)"

definition pagination :: "TableConfig \<Rightarrow> SearchRecord \<Rightarrow> PaginationState" where
  "pagination c s =
     \<lparr>pageIndex = max_zero (num_plus (numberOr (oget s (pageKey c)) (defaultPage c)) (Fin (- 1))),
      pageSize = numberOr (oget s (pageSizeKey c)) (defaultPageSize c)\<rparr>"

definition initialGlobalFilter :: "TableConfig \<Rightarrow> SearchRecord \<Rightarrow> jstr option" where
  "initialGlobalFilter c s =
     (if \<not> globalFilterEnabled c then None
      else (case oget s (globalFilterKey c) of Some (JStr t) \<Rightarrow> Some t | _ \<Rightarrow> Some []))"

definition initialTable :: "TableConfig \<Rightarrow> SearchRecord \<Rightarrow> TableState" where
  "initialTable c s = \<lparr>search = s, columnFilters = initialColumnFilters c s, globalFilter = initialGlobalFilter c s\<rparr>"

section \<open>Changing it\<close>

text \<open>Navigation, and the effect when the search record has changed.\<close>

definition navigate :: "TableConfig \<Rightarrow> (SearchRecord \<Rightarrow> SearchRecord) \<Rightarrow> TableState \<Rightarrow> TableState" where
  "navigate c f st =
     (let s = navigateTo c (f (search st)) in
      if same_search s (search st) then st
      else st\<lparr>search := s, columnFilters := initialColumnFilters c s\<rparr>)"

definition onPaginationChange :: "TableConfig \<Rightarrow> (PaginationState \<Rightarrow> PaginationState) \<Rightarrow> TableState \<Rightarrow> TableState" where
  "onPaginationChange c updater st =
     (let next = updater (pagination c (search st)); nextPage = num_plus (pageIndex next) (Fin 1) in
      navigate c (\<lambda>prev. with_key (with_key prev
          (pageKey c) (if num_le nextPage (defaultPage c) then None else Some (JNum nextPage)))
          (pageSizeKey c) (if num_eq (pageSize next) (defaultPageSize c) then None else Some (JNum (pageSize next)))) st)"

definition onGlobalFilterChange :: "TableConfig \<Rightarrow> (jstr \<Rightarrow> jstr) \<Rightarrow> TableState \<Rightarrow> TableState" where
  "onGlobalFilterChange c updater st =
     (if \<not> globalFilterEnabled c then st
      else (let next = updater (case globalFilter st of Some g \<Rightarrow> g | None \<Rightarrow> []);
                v = (if trimGlobal c then js_trim next else next) in
        navigate c (\<lambda>prev. with_key (with_key prev (pageKey c) None)
            (globalFilterKey c) (if v \<noteq> [] then Some (JStr v) else None))
          (st\<lparr>globalFilter := Some v\<rparr>)))"

text \<open>The value a column's filter is written as; \<open>None\<close> removes it from the address.\<close>

definition writtenValue :: "ColumnFilterConfig \<Rightarrow> ColumnFiltersState \<Rightarrow> json option" where
  "writtenValue cfg next =
     (let found = map_of next (columnId cfg) in
      if ftype cfg = StringType then
        (case found of Some (JStr t) \<Rightarrow> if js_trim t \<noteq> [] then serialize cfg (JStr t) else None | _ \<Rightarrow> None)
      else (case found of Some (JArr xs) \<Rightarrow> if xs \<noteq> [] then serialize cfg (JArr xs) else None | _ \<Rightarrow> None))"

definition filterPatch :: "ColumnFilterConfig list \<Rightarrow> ColumnFiltersState \<Rightarrow> SearchRecord \<Rightarrow> SearchRecord" where
  "filterPatch cfgs next s = foldl (\<lambda>s cfg. with_key s (searchKey cfg) (writtenValue cfg next)) s cfgs"

definition onColumnFiltersChange :: "TableConfig \<Rightarrow> (ColumnFiltersState \<Rightarrow> ColumnFiltersState) \<Rightarrow> TableState \<Rightarrow> TableState" where
  "onColumnFiltersChange c updater st =
     (let next = updater (columnFilters st) in
      navigate c (\<lambda>prev. filterPatch (columnFiltersCfg c) next (with_key prev (pageKey c) None)) (st\<lparr>columnFilters := next\<rparr>))"

definition ensurePageInRange :: "TableConfig \<Rightarrow> jsnum \<Rightarrow> bool \<Rightarrow> TableState \<Rightarrow> TableState" where
  "ensurePageInRange c pageCount resetToLast st =
     (let pageNum = numberOr (oget (search st) (pageKey c)) (defaultPage c) in
      if num_less (Fin 0) pageCount \<and> num_less pageCount pageNum
      then navigate c (\<lambda>prev. with_key prev (pageKey c) (if resetToLast then Some (JNum pageCount) else None)) st
      else st)"

section \<open>The address holds the state\<close>

text \<open>What the hook relies on of the router: after navigating the search record has the properties asked for.\<close>

definition faithful_router :: "TableConfig \<Rightarrow> bool" where
  "faithful_router c \<longleftrightarrow> (\<forall>s. oget (navigateTo c s) = oget s)"

lemma same_search_iff: "same_search a b \<longleftrightarrow> oget a = oget b"
proof
  assume ab: "same_search a b"
  show "oget a = oget b"
  proof
    fix k
    show "oget a k = oget b k"
    proof (cases "k \<in> fst ` set a \<union> fst ` set b")
      case True
      then show ?thesis using ab by (auto simp: same_search_def list_all_iff)
    next
      case False
      then show ?thesis by (metis Un_iff oget_eq_None)
    qed
  qed
qed (simp add: same_search_def list_all_iff)

lemma navigated:
  assumes "faithful_router c"
  shows "oget (search (navigate c f st)) = oget (f (search st))"
    and "columnFilters (navigate c f st) = (if oget (f (search st)) = oget (search st) then columnFilters st
      else initialColumnFilters c (search (navigate c f st)))"
  using assms by (simp_all add: navigate_def same_search_iff faithful_router_def Let_def)

text \<open>
  The page survives the address: with the default first page, choosing any page and page size and
  reading the address back gives that page and size.
\<close>

theorem pagination_roundtrip:
  assumes "faithful_router c" and "defaultPage c = Fin 1" and "pageKey c \<noteq> pageSizeKey c" and "i < 2 ^ 53"
  shows "pagination c (search (onPaginationChange c (\<lambda>_. \<lparr>pageIndex = Fin (of_nat i), pageSize = Fin n\<rparr>) st)) =
    \<lparr>pageIndex = Fin (of_nat i), pageSize = (if num_eq (Fin n) (defaultPageSize c) then defaultPageSize c else Fin n)\<rparr>"
proof -
  have next_page: "num_plus (Fin (rat_of_nat i)) (Fin 1) = Fin (rat_of_nat (Suc i))"
    using to_double_of_nat [of "Suc i"] assms(4) by (simp add: add.commute)
  have prev_page: "num_plus (Fin (rat_of_nat (Suc i))) (Fin (- 1)) = Fin (rat_of_nat i)"
    using to_double_of_nat [of i] assms(4) by simp
  have "max_zero (Fin (rat_of_nat i)) = Fin (rat_of_nat i)" by (simp add: max_zero_def)
  moreover have "num_le (Fin (rat_of_nat (Suc i))) (Fin 1) \<longleftrightarrow> i = 0"
    by (auto simp: num_le_def)
  moreover have "num_plus (Fin 1) (Fin (- 1)) = Fin 0" by (simp add: to_double_def)
  ultimately show ?thesis
    using assms(2,3) prev_page
    by (auto simp: pagination_def onPaginationChange_def navigated(1) [OF assms(1)] numberOr_def next_page Let_def
        simp del: num_plus.simps of_nat_Suc)
qed

definition demo_table :: TableConfig where
  "demo_table = \<lparr>pageKey = js ''page'', pageSizeKey = js ''pageSize'', defaultPage = Fin 1, defaultPageSize = Fin 20,
     globalFilterKey = js ''filter'', globalFilterEnabled = True, trimGlobal = True,
     columnFiltersCfg = [\<lparr>columnId = js ''status'', searchKey = js ''status'', ftype = ArrayType, serialize = Some, deserialize = (\<lambda>v. v)\<rparr>],
     navigateTo = (\<lambda>s. s)\<rparr>"

lemma demo_router: "faithful_router demo_table"
  by (simp add: faithful_router_def demo_table_def)

theorem pagination_roundtrip_witness:
  "pagination demo_table (search (onPaginationChange demo_table (\<lambda>_. \<lparr>pageIndex = Fin (of_nat 2), pageSize = Fin 50\<rparr>)
     (initialTable demo_table []))) = \<lparr>pageIndex = Fin (of_nat 2), pageSize = Fin 50\<rparr>"
proof -
  have "defaultPage demo_table = Fin 1" "pageKey demo_table \<noteq> pageSizeKey demo_table" "(2::nat) < 2 ^ 53"
    by (simp_all add: demo_table_def)
  from pagination_roundtrip [OF demo_router this, of 50 "initialTable demo_table []"]
  show ?thesis by (simp add: demo_table_def)
qed

text \<open>A column whose filter survives being written: it has a type, reading undoes writing, and nothing
  is read from an absent value.\<close>

definition lossless :: "ColumnFilterConfig \<Rightarrow> bool" where
  "lossless cfg \<longleftrightarrow> ftype cfg \<noteq> NoType \<and> (\<forall>v. deserialize cfg (serialize cfg v) = Some v) \<and> deserialize cfg None = None"

text \<open>A filter that can be written: a text that is not blank, or a non-empty array.\<close>

definition validFilter :: "ColumnFilterConfig \<Rightarrow> json \<Rightarrow> bool" where
  "validFilter cfg v =
     (if ftype cfg = StringType then (case v of JStr t \<Rightarrow> js_trim t \<noteq> [] | _ \<Rightarrow> False)
      else (case v of JArr xs \<Rightarrow> xs \<noteq> [] | _ \<Rightarrow> False))"

text \<open>What an address can hold of a list of filters: for each configured column, in the order of the
  configuration, the first filter on it when it is valid.\<close>

definition written :: "TableConfig \<Rightarrow> ColumnFiltersState \<Rightarrow> ColumnFiltersState" where
  "written c fs = List.map_filter (\<lambda>cfg. case map_of fs (columnId cfg) of
     Some v \<Rightarrow> if validFilter cfg v then Some (columnId cfg, v) else None | None \<Rightarrow> None) (columnFiltersCfg c)"

lemma read_written:
  assumes "lossless cfg" "oget s (searchKey cfg) = writtenValue cfg next"
  shows "columnFilter cfg s =
    (case map_of next (columnId cfg) of
       Some v \<Rightarrow> if validFilter cfg v then Some (columnId cfg, v) else None | None \<Rightarrow> None)"
  using assms
  by (auto simp: columnFilter_def writtenValue_def validFilter_def lossless_def Let_def split: option.splits json.splits)

lemma filterPatch_other: "k \<notin> searchKey ` set cfgs \<Longrightarrow> oget (filterPatch cfgs next s) k = oget s k"
  by (induction cfgs arbitrary: s) (auto simp: filterPatch_def)

lemma filterPatch_get:
  "distinct (map searchKey cfgs) \<Longrightarrow> cfg \<in> set cfgs \<Longrightarrow> oget (filterPatch cfgs next s) (searchKey cfg) = writtenValue cfg next"
proof (induction cfgs arbitrary: s)
  case (Cons c cfgs)
  have step: "filterPatch (c # cfgs) next s = filterPatch cfgs next (with_key s (searchKey c) (writtenValue c next))"
    by (simp add: filterPatch_def)
  show ?case
  proof (cases "cfg \<in> set cfgs")
    case True
    then show ?thesis using Cons by (simp add: step)
  next
    case False
    then show ?thesis using Cons.prems by (simp add: step filterPatch_other)
  qed
qed simp

lemma map_filter_same: "(\<And>x. x \<in> set xs \<Longrightarrow> f x = g x) \<Longrightarrow> List.map_filter f xs = List.map_filter g xs"
  by (induction xs) (auto simp: map_filter_simps split: option.split)

text \<open>
  C38. Column filters survive the address.  Let every column have a type and read back what it writes,
  no two columns share a search key, none use that of the page, and the router set the properties it
  is asked for.  Then after changing the filters the address holds exactly the valid ones of the
  configured columns (what the page shows when it is opened by this address), the page is reset, and
  the filters in effect are those of the address, except that they are the filters just set while the
  address stays the same.  In particular filters that can all be written are in effect as they were set.
\<close>

theorem column_filters_roundtrip:
  assumes "faithful_router c" and "distinct (map searchKey (columnFiltersCfg c))"
    and "\<forall>cfg \<in> set (columnFiltersCfg c). lossless cfg" and "pageKey c \<notin> searchKey ` set (columnFiltersCfg c)"
  shows "let st' = onColumnFiltersChange c (\<lambda>_. fs) st in
    initialColumnFilters c (search st') = written c fs \<and> oget (search st') (pageKey c) = None \<and>
    columnFilters st' = (if oget (search st') = oget (search st) then fs else written c fs) \<and>
    (written c fs = fs \<longrightarrow> columnFilters st' = fs)"
proof -
  let ?st = "onColumnFiltersChange c (\<lambda>_. fs) st"
  let ?s = "filterPatch (columnFiltersCfg c) fs (with_key (search st) (pageKey c) None)"
  have s: "oget (search ?st) = oget ?s"
    by (simp add: onColumnFiltersChange_def navigated(1) [OF assms(1)])
  have "columnFilter cfg (search ?st) = (case map_of fs (columnId cfg) of
        Some v \<Rightarrow> if validFilter cfg v then Some (columnId cfg, v) else None | None \<Rightarrow> None)"
    if "cfg \<in> set (columnFiltersCfg c)" for cfg
    using that assms(2,3) by (intro read_written) (auto simp: s filterPatch_get)
  then have w: "initialColumnFilters c (search ?st) = written c fs"
    unfolding initialColumnFilters_def written_def by (rule map_filter_same)
  have "columnFilters ?st = (if oget (search ?st) = oget (search st) then fs else initialColumnFilters c (search ?st))"
    unfolding s by (simp add: onColumnFiltersChange_def navigated(2) [OF assms(1)])
  then show ?thesis using w assms(4) s filterPatch_other [of "pageKey c"] by (auto simp: Let_def)
qed

theorem column_filters_roundtrip_witness:
  "columnFilters (onColumnFiltersChange demo_table (\<lambda>_. [(js ''other'', JStr []), (js ''status'', JArr [JBool True])])
     (initialTable demo_table [])) = [(js ''status'', JArr [JBool True])]"
proof -
  let ?fs = "[(js ''other'', JStr []), (js ''status'', JArr [JBool True])]"
  let ?st = "onColumnFiltersChange demo_table (\<lambda>_. ?fs) (initialTable demo_table [])"
  have "distinct (map searchKey (columnFiltersCfg demo_table))" "\<forall>cfg \<in> set (columnFiltersCfg demo_table). lossless cfg"
    "pageKey demo_table \<notin> searchKey ` set (columnFiltersCfg demo_table)"
    by (simp_all add: demo_table_def lossless_def)
  note r = column_filters_roundtrip [OF demo_router this, of ?fs "initialTable demo_table []", unfolded Let_def]
  have w: "written demo_table ?fs = [(js ''status'', JArr [JBool True])]"
    by (simp add: demo_table_def written_def validFilter_def List.map_filter_def)
  moreover have "oget (search ?st) \<noteq> oget (search (initialTable demo_table []))"
  proof
    assume same: "oget (search ?st) = oget (search (initialTable demo_table []))"
    then have "initialColumnFilters demo_table (search ?st) = []"
      by (simp add: initialTable_def initialColumnFilters_def columnFilter_def demo_table_def List.map_filter_def)
    then show False using r w by simp
  qed
  ultimately show ?thesis using r by simp
qed

text \<open>
  A page beyond the last one is left: with the default first page, after the range check the page
  read from the address is at most the page count, whenever there is a page at all.
\<close>

theorem page_brought_into_range:
  assumes "faithful_router c" and "defaultPage c = Fin 1" and "0 < n" and "oget (search st) (pageKey c) = Some (JNum (Fin p))"
  shows "\<exists>q. numberOr (oget (search (ensurePageInRange c (Fin (of_nat n)) resetToLast st)) (pageKey c)) (defaultPage c) = Fin q \<and> q \<le> of_nat n"
proof -
  have "1 \<le> rat_of_nat n" using assms(3) by (metis One_nat_def Suc_leI of_nat_1 of_nat_le_iff)
  then show ?thesis
    using assms by (auto simp: ensurePageInRange_def navigated(1) [OF assms(1)] numberOr_def Let_def not_less)
qed

theorem page_brought_into_range_witness:
  "\<exists>q. numberOr (oget (search (ensurePageInRange demo_table (Fin (of_nat 3)) True
     (initialTable demo_table [(js ''page'', JNum (Fin 9))]))) (js ''page'')) (Fin 1) = Fin q \<and> q \<le> of_nat 3"
  using page_brought_into_range [OF demo_router, of 3 "initialTable demo_table [(js ''page'', JNum (Fin 9))]" 9 True]
  by (simp add: demo_table_def initialTable_def)

text \<open>
  A column without a type is documented to be a string column but handled as an array: a text filter
  on such a column never reaches the address, so it is gone when the page is opened again.
\<close>

theorem untyped_text_filter_lost:
  "let cfg = \<lparr>columnId = js ''name'', searchKey = js ''name'', ftype = NoType, serialize = Some, deserialize = (\<lambda>v. v)\<rparr>;
       c = demo_table\<lparr>columnFiltersCfg := [cfg]\<rparr>;
       st = onColumnFiltersChange c (\<lambda>_. [(js ''name'', JStr (js ''gpt''))]) (initialTable c [])
   in columnFilters st = [(js ''name'', JStr (js ''gpt''))] \<and> search st = [] \<and> initialColumnFilters c (search st) = []"
  by (simp add: demo_table_def onColumnFiltersChange_def navigate_def filterPatch_def writtenValue_def initialTable_def
      initialColumnFilters_def columnFilter_def List.map_filter_def with_key_def same_search_def)

text \<open>
  The address is not always the source of the filters: a filter that is not written (here on a
  column that is not configured) leaves the address as it is and stays in effect, until the address
  changes for another reason.
\<close>

theorem unwritten_filter_stays:
  "let st = onColumnFiltersChange demo_table (\<lambda>_. [(js ''other'', JStr (js ''x''))]) (initialTable demo_table []) in
   columnFilters st = [(js ''other'', JStr (js ''x''))] \<and> search st = [] \<and>
   columnFilters (onGlobalFilterChange demo_table (\<lambda>_. js ''y'') st) = []"
  by (simp add: demo_table_def onColumnFiltersChange_def navigate_def filterPatch_def writtenValue_def initialTable_def
      initialColumnFilters_def columnFilter_def List.map_filter_def with_key_def same_search_def onGlobalFilterChange_def
      js_trim_def is_ws_def obj_put_def Let_def)

end
