(* ===== verification/Playground_Config.thy ===== *)
theory Playground_Config
  imports JSON
begin

text \<open>
  The configuration of the playground: defaults (\<^verbatim>\<open>constants.ts\<close>), storage
  (\<^verbatim>\<open>lib/storage.ts\<close>), the updates of \<^verbatim>\<open>hooks/use-playground-state.ts\<close> and the effects of
  \<^verbatim>\<open>index.tsx\<close> that follow the lists of models and groups.  A configuration is the property list it
  is in the code, since what was saved is spread over the defaults unchecked.
\<close>

type_synonym Config = "(jstr \<times> json) list"

definition DEFAULT_GROUP :: jstr where
  "DEFAULT_GROUP = js ''auto''"

definition DEFAULT_CONFIG :: Config where
  "DEFAULT_CONFIG =
     [(js ''model'', JStr (js ''gpt-4o'')), (js ''group'', JStr DEFAULT_GROUP),
      (js ''temperature'', JNum (to_double (7 / 10))), (js ''top_p'', JNum (Fin 1)), (js ''max_tokens'', JNum (Fin 4096)),
      (js ''frequency_penalty'', JNum (Fin 0)), (js ''presence_penalty'', JNum (Fin 0)), (js ''seed'', JNull),
      (js ''stream'', JBool True)]"

definition DEFAULT_PARAMETER_ENABLED :: Config where
  "DEFAULT_PARAMETER_ENABLED =
     [(js ''temperature'', JBool True), (js ''top_p'', JBool True), (js ''max_tokens'', JBool False),
      (js ''frequency_penalty'', JBool True), (js ''presence_penalty'', JBool True), (js ''seed'', JBool False)]"

record ModelOption =
  m_label :: jstr
  m_value :: jstr

record GroupOption =
  g_label :: jstr
  g_value :: jstr
  g_ratio :: jsnum
  g_desc :: "jstr option"

text \<open>The three items of the local storage, and whether reading and writing raise.\<close>

record LocalStorage =
  config_item :: "jstr option"
  parameter_item :: "jstr option"
  messages_item :: "jstr option"
  ls_readable :: bool
  ls_writable :: bool

record Playground =
  config :: Config
  parameterEnabled :: Config
  models :: "ModelOption list"
  groups :: "GroupOption list"
  localStorage :: LocalStorage

section \<open>Storage\<close>

text \<open>Reading a saved object: an absent, empty or malformed text counts as the empty object.\<close>

definition load_item :: "jstr option \<Rightarrow> json" where
  "load_item saved =
     (case saved of
        Some s \<Rightarrow> if s = [] then JObj [] else (case json_parse s of Some j \<Rightarrow> j | None \<Rightarrow> JObj [])
      | None \<Rightarrow> JObj [])"

definition loadConfig :: "LocalStorage \<Rightarrow> json" where
  "loadConfig ls = (if ls_readable ls then load_item (config_item ls) else JObj [])"

definition saveConfig :: "Config \<Rightarrow> LocalStorage \<Rightarrow> LocalStorage" where
  "saveConfig c ls = (if ls_writable ls then ls\<lparr>config_item := Some (json_str (JObj c))\<rparr> else ls)"

definition loadParameterEnabled :: "LocalStorage \<Rightarrow> json" where
  "loadParameterEnabled ls = (if ls_readable ls then load_item (parameter_item ls) else JObj [])"

definition saveParameterEnabled :: "Config \<Rightarrow> LocalStorage \<Rightarrow> LocalStorage" where
  "saveParameterEnabled c ls = (if ls_writable ls then ls\<lparr>parameter_item := Some (json_str (JObj c))\<rparr> else ls)"

definition clearPlaygroundData :: "LocalStorage \<Rightarrow> LocalStorage" where
  "clearPlaygroundData ls =
     (if ls_writable ls then ls\<lparr>config_item := None, parameter_item := None, messages_item := None\<rparr> else ls)"

section \<open>The state\<close>

definition initialPlayground :: "LocalStorage \<Rightarrow> Playground" where
  "initialPlayground ls =
     \<lparr>config = spread_over DEFAULT_CONFIG (spread_of (loadConfig ls)),
      parameterEnabled = spread_over DEFAULT_PARAMETER_ENABLED (spread_of (loadParameterEnabled ls)),
      models = [], groups = [], localStorage = ls\<rparr>"

definition updateConfig :: "jstr \<Rightarrow> json \<Rightarrow> Playground \<Rightarrow> Playground" where
  "updateConfig key v st =
     (let updated = obj_put (config st) key v
      in st\<lparr>config := updated, localStorage := saveConfig updated (localStorage st)\<rparr>)"

definition updateParameterEnabled :: "jstr \<Rightarrow> bool \<Rightarrow> Playground \<Rightarrow> Playground" where
  "updateParameterEnabled key v st =
     (let updated = obj_put (parameterEnabled st) key (JBool v)
      in st\<lparr>parameterEnabled := updated, localStorage := saveParameterEnabled updated (localStorage st)\<rparr>)"

definition resetConfig :: "Playground \<Rightarrow> Playground" where
  "resetConfig st =
     st\<lparr>config := DEFAULT_CONFIG, parameterEnabled := DEFAULT_PARAMETER_ENABLED,
       localStorage := saveParameterEnabled DEFAULT_PARAMETER_ENABLED (saveConfig DEFAULT_CONFIG (localStorage st))\<rparr>"

text \<open>The effect on the list of models: an unavailable model is replaced by the first one.\<close>

definition modelsEffect :: "ModelOption list option \<Rightarrow> Playground \<Rightarrow> Playground" where
  "modelsEffect modelsData st =
     (case modelsData of
        None \<Rightarrow> st
      | Some ms \<Rightarrow>
          (let st = st\<lparr>models := ms\<rparr>;
               isCurrentModelValid = list_ex (\<lambda>m. oget (config st) (js ''model'') = Some (JStr (m_value m))) ms
           in if ms \<noteq> [] \<and> \<not> isCurrentModelValid then updateConfig (js ''model'') (JStr (m_value (hd ms))) st else st))"

text \<open>The effect on the list of groups: the automatic group is put in front when it is missing.\<close>

definition autoGroup :: GroupOption where
  "autoGroup = \<lparr>g_label = js ''Auto'', g_value = DEFAULT_GROUP, g_ratio = Fin 1, g_desc = Some (js ''Circuit Breaker'')\<rparr>"

definition groupsEffect :: "GroupOption list option \<Rightarrow> Playground \<Rightarrow> Playground" where
  "groupsEffect groupsData st =
     (case groupsData of
        None \<Rightarrow> st
      | Some gs \<Rightarrow>
          st\<lparr>groups := (if list_ex (\<lambda>g. g_value g = DEFAULT_GROUP) gs then gs else autoGroup # gs)\<rparr>)"

datatype ConfigAction =
    UpdateConfig jstr json
  | UpdateParameter jstr bool
  | ResetConfig
  | ModelsLoaded "ModelOption list option"
  | GroupsLoaded "GroupOption list option"

fun configAct :: "Playground \<Rightarrow> ConfigAction \<Rightarrow> Playground" where
  "configAct st (UpdateConfig key v) = updateConfig key v st"
| "configAct st (UpdateParameter key v) = updateParameterEnabled key v st"
| "configAct st ResetConfig = resetConfig st"
| "configAct st (ModelsLoaded ms) = modelsEffect ms st"
| "configAct st (GroupsLoaded gs) = groupsEffect gs st"

section \<open>What was saved is loaded again\<close>

definition object_ok :: "Config \<Rightarrow> bool" where
  "object_ok c \<longleftrightarrow> is_obj c \<and> (\<forall>(k, v) \<in> set c. utf16 k \<and> json_wf v)"

lemma object_ok_put: "object_ok c \<Longrightarrow> utf16 k \<Longrightarrow> json_wf v \<Longrightarrow> object_ok (obj_put c k v)"
  using set_obj_put [of c k v] by (auto simp: object_ok_def is_obj_put)

lemma to_double_wf: "to_double q = Fin r \<Longrightarrow> json_num (to_double q)"
  using to_double_idem [of q r] by simp

lemma defaults_ok: "object_ok DEFAULT_CONFIG" "object_ok DEFAULT_PARAMETER_ENABLED"
proof -
  have "case to_double (7 / 10) of Fin r \<Rightarrow> True | _ \<Rightarrow> False" by code_simp
  then have num: "json_num (to_double (7 / 10))" using to_double_wf by (cases "to_double (7 / 10)") auto
  have n: "to_double 1 = Fin 1" "to_double 4096 = Fin 4096" "to_double 0 = Fin 0"
    using to_double_of_nat [of 1] to_double_of_nat [of 4096] to_double_of_nat [of 0] by simp_all
  have "is_obj DEFAULT_CONFIG" "is_obj DEFAULT_PARAMETER_ENABLED" by code_simp+
  then show "object_ok DEFAULT_CONFIG" "object_ok DEFAULT_PARAMETER_ENABLED"
    by (simp_all add: object_ok_def DEFAULT_CONFIG_def DEFAULT_PARAMETER_ENABLED_def DEFAULT_GROUP_def num n)
qed

text \<open>What a stored item holds: nothing, a text that does not parse, or a value whose numbers are finite
  doubles and whose texts are UTF-16.\<close>

definition item_ok :: "jstr option \<Rightarrow> bool" where
  "item_ok saved \<longleftrightarrow> (case saved of None \<Rightarrow> True | Some s \<Rightarrow> (case json_parse s of None \<Rightarrow> True | Some j \<Rightarrow> json_wf j))"

lemma spread_ok:
  assumes "json_wf j"
  shows "\<forall>(k, v) \<in> set (spread_of j). utf16 k \<and> json_wf v"
proof -
  have d: "utf16 (dec n)" for n using dec_digits [of n] by (auto simp: utf16_def is_digit_def)
  have z: "\<forall>(k, v) \<in> set (zip (map dec ns) vs). utf16 k \<and> json_wf v" if "\<forall>v \<in> set vs. json_wf v" for ns vs
    using that d by (auto dest!: in_set_zip [THEN iffD1])
  show ?thesis
  proof (cases j)
    case (JArr xs)
    then show ?thesis using assms z by (simp add: spread_of_def json_entries_def)
  next
    case (JStr s)
    then show ?thesis using assms z [of "map (\<lambda>c. JStr [c]) s"] by (simp add: spread_of_def json_entries_def utf16_def)
  qed (use assms in \<open>auto simp: spread_of_def json_entries_def\<close>)
qed

lemma object_ok_spread:
  "object_ok c \<Longrightarrow> \<forall>(k, v) \<in> set es. utf16 k \<and> json_wf v \<Longrightarrow> object_ok (spread_over c es) \<and> fst ` set c \<subseteq> fst ` set (spread_over c es)"
  unfolding spread_over_def
proof (induction es arbitrary: c)
  case (Cons e es)
  obtain k v where e: "e = (k, v)" by (cases e)
  have "object_ok (obj_put c k v)" using Cons.prems e by (simp add: object_ok_put)
  moreover have "fst ` set c \<subseteq> fst ` set (obj_put c k v)" by (auto simp: obj_put_keys)
  ultimately show ?case using Cons.IH [of "obj_put c k v"] Cons.prems e by auto
qed simp

lemma load_item_wf: "item_ok saved \<Longrightarrow> json_wf (load_item saved)"
  by (auto simp: item_ok_def load_item_def obj_of_def split: option.splits)

text \<open>An object and the item that keeps it: the item is its text, or spreads over the defaults to it.\<close>

definition kept :: "Config \<Rightarrow> Config \<Rightarrow> jstr option \<Rightarrow> bool" where
  "kept d c saved \<longleftrightarrow> object_ok c \<and> fst ` set d \<subseteq> fst ` set c \<and>
     (saved = Some (json_str (JObj c)) \<or> c = spread_over d (spread_of (load_item saved)))"

lemma kept_load:
  assumes "kept d c saved" "is_obj d"
  shows "oget (spread_over d (spread_of (load_item saved))) k = oget c k"
proof (cases "saved = Some (json_str (JObj c))")
  case False
  then show ?thesis using assms by (auto simp: kept_def)
next
  case True
  have ok: "object_ok c" and keys: "fst ` set d \<subseteq> fst ` set c" using assms(1) by (auto simp: kept_def)
  have "json_wf (JObj c)" using ok by (auto simp: object_ok_def intro!: obj_of_is_obj)
  then have "json_parse (json_str (JObj c)) = Some (JObj c)" by (rule json_roundtrip)
  then have l: "load_item saved = JObj c" by (simp add: True load_item_def)
  have "distinct (map fst c)" using ok by (simp add: object_ok_def is_obj_def)
  then show ?thesis
    using keys oget_eq_None [of c k] oget_eq_None [of d k]
    by (auto simp: l spread_of_def json_entries_def spread_over_def oget_foldl_put split: option.split)
qed

lemma kept_initial:
  assumes "object_ok d" "item_ok saved"
  shows "kept d (spread_over d (spread_of (load_item saved))) saved"
  using object_ok_spread [OF assms(1) spread_ok [OF load_item_wf [OF assms(2)]]] by (simp add: kept_def)

definition playground_inv :: "Playground \<Rightarrow> bool" where
  "playground_inv st \<longleftrightarrow> ls_readable (localStorage st) \<and> ls_writable (localStorage st) \<and>
     kept DEFAULT_CONFIG (config st) (config_item (localStorage st)) \<and>
     kept DEFAULT_PARAMETER_ENABLED (parameterEnabled st) (parameter_item (localStorage st))"

fun action_ok :: "ConfigAction \<Rightarrow> bool" where
  "action_ok (UpdateConfig k v) \<longleftrightarrow> utf16 k \<and> json_wf v"
| "action_ok (UpdateParameter k b) \<longleftrightarrow> utf16 k"
| "action_ok (ModelsLoaded (Some ms)) \<longleftrightarrow> (\<forall>m \<in> set ms. utf16 (m_value m))"
| "action_ok _ \<longleftrightarrow> True"

lemma inv_updateConfig:
  "playground_inv st \<Longrightarrow> utf16 k \<Longrightarrow> json_wf v \<Longrightarrow> playground_inv (updateConfig k v st)"
  by (auto simp: playground_inv_def kept_def updateConfig_def saveConfig_def Let_def object_ok_put obj_put_keys)

lemma inv_act: "playground_inv st \<Longrightarrow> action_ok a \<Longrightarrow> playground_inv (configAct st a)"
proof (cases a)
  case (UpdateParameter k b)
  assume "playground_inv st" "action_ok a"
  then show ?thesis using UpdateParameter
    by (auto simp: playground_inv_def kept_def updateParameterEnabled_def saveParameterEnabled_def Let_def object_ok_put obj_put_keys)
next
  case ResetConfig
  assume "playground_inv st"
  then show ?thesis using ResetConfig defaults_ok
    by (simp add: playground_inv_def kept_def resetConfig_def saveConfig_def saveParameterEnabled_def)
next
  case (ModelsLoaded ms)
  assume st: "playground_inv st" and ok: "action_ok a"
  have "playground_inv (st\<lparr>models := xs\<rparr>)" for xs using st by (simp add: playground_inv_def)
  then show ?thesis using st ok ModelsLoaded
    by (auto simp: modelsEffect_def Let_def intro!: inv_updateConfig split: option.split)
next
  case (GroupsLoaded gs)
  assume "playground_inv st"
  then show ?thesis using GroupsLoaded by (auto simp: playground_inv_def groupsEffect_def split: option.split)
qed (simp add: inv_updateConfig)

text \<open>A storage that can be read and written, with items of an earlier visit or none.\<close>

definition storage_ok :: "LocalStorage \<Rightarrow> bool" where
  "storage_ok ls \<longleftrightarrow> ls_readable ls \<and> ls_writable ls \<and> item_ok (config_item ls) \<and> item_ok (parameter_item ls)"

lemma inv_initial: "storage_ok ls \<Longrightarrow> playground_inv (initialPlayground ls)"
  using defaults_ok kept_initial
  by (simp add: playground_inv_def storage_ok_def initialPlayground_def loadConfig_def loadParameterEnabled_def)

text \<open>
  C39. Settings survive a reload while the storage works: opened on a storage that can be read and
  written, whatever an earlier visit left in it (nothing, a text that does not parse, or any JSON value
  with finite numbers), after any sequence of changes, resets and loaded lists, opening the page again
  gives every setting and every parameter switch the value it had.
\<close>

theorem settings_survive_reload:
  assumes "storage_ok ls" and "\<forall>a \<in> set acts. action_ok a"
  shows "let st = foldl configAct (initialPlayground ls) acts; re = initialPlayground (localStorage st) in
    oget (config re) k = oget (config st) k \<and> oget (parameterEnabled re) k = oget (parameterEnabled st) k"
proof -
  have "playground_inv (foldl configAct st acts)" if "playground_inv st" for st
    using assms(2) that by (induction acts arbitrary: st) (simp_all add: inv_act)
  then have inv: "playground_inv (foldl configAct (initialPlayground ls) acts)" using inv_initial [OF assms(1)] by blast
  have "is_obj DEFAULT_CONFIG" "is_obj DEFAULT_PARAMETER_ENABLED" using defaults_ok by (simp_all add: object_ok_def)
  then show ?thesis
    using inv by (auto simp: Let_def playground_inv_def initialPlayground_def loadConfig_def loadParameterEnabled_def kept_load)
qed

definition freshStorage :: LocalStorage where
  "freshStorage = \<lparr>config_item = None, parameter_item = None, messages_item = None, ls_readable = True, ls_writable = True\<rparr>"

definition earlierStorage :: LocalStorage where
  "earlierStorage = freshStorage\<lparr>config_item := Some (js ''{\"stream\":false}''), parameter_item := Some (js ''{'')\<rparr>"

theorem settings_survive_reload_witness:
  "let st = foldl configAct (initialPlayground earlierStorage)
         [UpdateConfig (js ''model'') (JStr (js ''o3'')), UpdateParameter (js ''seed'') True];
       re = initialPlayground (localStorage st) in
   oget (config re) (js ''model'') = Some (JStr (js ''o3'')) \<and> oget (config re) (js ''stream'') = Some (JBool False)"
proof -
  let ?acts = "[UpdateConfig (js ''model'') (JStr (js ''o3'')), UpdateParameter (js ''seed'') True]"
  have ok: "\<forall>a \<in> set ?acts. action_ok a" by simp
  have "json_parse (js ''{\"stream\":false}'') = Some (JObj [(js ''stream'', JBool False)])" "json_parse (js ''{'') = None" by code_simp+
  then have st: "storage_ok earlierStorage"
    by (simp add: storage_ok_def item_ok_def earlierStorage_def freshStorage_def obj_of_def obj_put_def)
  have "oget (config (initialPlayground earlierStorage)) (js ''stream'') = Some (JBool False)" by code_simp
  then show ?thesis
    using settings_survive_reload [OF st ok, of "js ''model''"] settings_survive_reload [OF st ok, of "js ''stream''"]
    by (simp add: Let_def updateConfig_def updateParameterEnabled_def oget_obj_put)
qed

text \<open>
  The chosen model is always on offer once the list is known: after the effect on a non-empty list the
  configured model is one of the list, a model that was on the list is kept, and running the effect
  again changes nothing, so the effect settles.
\<close>

theorem model_effect_settles:
  assumes "ms \<noteq> []"
  shows "let st' = modelsEffect (Some ms) st in
    (\<exists>m \<in> set ms. oget (config st') (js ''model'') = Some (JStr (m_value m))) \<and>
    modelsEffect (Some ms) st' = st' \<and>
    config st' = (if \<exists>m \<in> set ms. oget (config st) (js ''model'') = Some (JStr (m_value m)) then config st
                  else obj_put (config st) (js ''model'') (JStr (m_value (hd ms))))"
proof -
  have hd: "hd ms \<in> set ms" using assms by simp
  show ?thesis
  proof (cases "\<exists>m \<in> set ms. oget (config st) (js ''model'') = Some (JStr (m_value m))")
    case True
    then have "list_ex (\<lambda>m. oget (config st) (js ''model'') = Some (JStr (m_value m))) ms" by (simp add: list_ex_iff)
    then have "modelsEffect (Some ms) st = st\<lparr>models := ms\<rparr>" "modelsEffect (Some ms) (st\<lparr>models := ms\<rparr>) = st\<lparr>models := ms\<rparr>"
      by (simp_all add: modelsEffect_def del: js_Cons)
    then show ?thesis using True by (simp add: Let_def del: js_Cons)
  next
    case False
    let ?new = "updateConfig (js ''model'') (JStr (m_value (hd ms))) (st\<lparr>models := ms\<rparr>)"
    have e: "modelsEffect (Some ms) st = ?new"
      using False assms by (auto simp: modelsEffect_def list_ex_iff Let_def simp del: js_Cons)
    have c: "config ?new = obj_put (config st) (js ''model'') (JStr (m_value (hd ms)))" "models ?new = ms"
      by (simp_all add: updateConfig_def Let_def del: js_Cons)
    then have m: "oget (config ?new) (js ''model'') = Some (JStr (m_value (hd ms)))" by (simp add: oget_obj_put del: js_Cons)
    have "?new\<lparr>models := ms\<rparr> = ?new" by (simp add: updateConfig_def Let_def del: js_Cons)
    then have "modelsEffect (Some ms) ?new = ?new"
      using m hd by (auto simp: modelsEffect_def list_ex_iff Let_def simp del: js_Cons)
    then show ?thesis using e m hd False c(1) by (auto simp: Let_def simp del: js_Cons)
  qed
qed

theorem model_effect_settles_witness:
  "oget (config (modelsEffect (Some [\<lparr>m_label = js ''o3'', m_value = js ''o3''\<rparr>]) (initialPlayground freshStorage)))
     (js ''model'') = Some (JStr (js ''o3''))"
  using model_effect_settles [of "[\<lparr>m_label = js ''o3'', m_value = js ''o3''\<rparr>]" "initialPlayground freshStorage"]
  by (simp add: Let_def oget_obj_put del: js_Cons)

end
