(* ===== verification/Playground_Messages.thy ===== *)
theory Playground_Messages
  imports JS_Prelude
begin

text \<open>
  The message model of the playground: \<^verbatim>\<open>features/playground/types.ts\<close>,
  \<^verbatim>\<open>features/playground/lib/message-utils.ts\<close> and
  \<^verbatim>\<open>features/playground/lib/payload-builder.ts\<close>.  An optional property is an option value
  (\<open>None\<close> is \<^verbatim>\<open>undefined\<close>); the truth value of a string is that it is not empty.
  Identifiers come from the third-party \<^verbatim>\<open>nanoid\<close>, so they are arguments here.
\<close>

section \<open>Messages\<close>

datatype MessageRole = User | Assistant | System

datatype MessageStatus = Loading | Streaming | Complete | Error

record MessageVersion =
  v_id :: jstr
  v_content :: jstr

record Reasoning =
  r_content :: jstr
  r_duration :: int

record Message =
  m_key :: jstr
  m_from :: MessageRole
  m_versions :: "MessageVersion list"
  m_sources :: "(jstr \<times> jstr) list option"
  m_reasoning :: "Reasoning option"
  m_isReasoningStreaming :: "bool option"
  m_isReasoningComplete :: "bool option"
  m_isContentComplete :: "bool option"
  m_status :: "MessageStatus option"
  m_errorCode :: "jstr option option"

definition API_REQUEST_ERROR :: jstr where
  "API_REQUEST_ERROR = js ''Request error occurred''"

definition INTERRUPTED :: jstr where
  "INTERRUPTED = js ''Generation was interrupted''"

section \<open>Constructors and accessors\<close>

definition createMessageVersion :: "jstr \<Rightarrow> jstr \<Rightarrow> MessageVersion" where
  "createMessageVersion nid content = \<lparr>v_id = nid, v_content = content\<rparr>"

definition getCurrentVersion :: "Message \<Rightarrow> MessageVersion" where
  "getCurrentVersion m =
     (case m_versions m of [] \<Rightarrow> \<lparr>v_id = js ''default'', v_content = []\<rparr> | v # _ \<Rightarrow> v)"

definition updateCurrentVersionContent :: "Message \<Rightarrow> jstr \<Rightarrow> Message" where
  "updateCurrentVersionContent m content =
     m\<lparr>m_versions := [(getCurrentVersion m)\<lparr>v_content := content\<rparr>]\<rparr>"

definition createUserMessage :: "jstr \<Rightarrow> jstr \<Rightarrow> jstr \<Rightarrow> Message" where
  "createUserMessage k vid content =
     \<lparr>m_key = k, m_from = User, m_versions = [createMessageVersion vid content], m_sources = None,
      m_reasoning = None, m_isReasoningStreaming = None, m_isReasoningComplete = None,
      m_isContentComplete = None, m_status = None, m_errorCode = None\<rparr>"

definition createLoadingAssistantMessage :: "jstr \<Rightarrow> jstr \<Rightarrow> Message" where
  "createLoadingAssistantMessage k vid =
     \<lparr>m_key = k, m_from = Assistant, m_versions = [createMessageVersion vid []], m_sources = None,
      m_reasoning = None, m_isReasoningStreaming = Some False, m_isReasoningComplete = Some False,
      m_isContentComplete = Some False, m_status = Some Loading, m_errorCode = None\<rparr>"

datatype ContentPart = TextPart "jstr option" | ImagePart jstr

datatype MessageContent = PlainContent jstr | PartsContent "ContentPart list"

definition buildMessageContent :: "jstr \<Rightarrow> jstr list \<Rightarrow> MessageContent" where
  "buildMessageContent txt imageUrls =
     (let validImages = filter (\<lambda>url. js_trim url \<noteq> []) imageUrls in
      if validImages = [] then PlainContent txt
      else PartsContent (TextPart (Some txt) # map (\<lambda>url. ImagePart (js_trim url)) validImages))"

fun is_TextPart :: "ContentPart \<Rightarrow> bool" where
  "is_TextPart (TextPart t) = True"
| "is_TextPart (ImagePart u) = False"

definition getTextContent :: "MessageContent \<Rightarrow> jstr" where
  "getTextContent content =
     (case content of
        PlainContent s \<Rightarrow> s
      | PartsContent parts \<Rightarrow>
          (case List.find is_TextPart parts of Some (TextPart (Some t)) \<Rightarrow> t | _ \<Rightarrow> []))"

record ChatCompletionMessage =
  c_role :: MessageRole
  c_content :: jstr

definition formatMessageForAPI :: "Message \<Rightarrow> ChatCompletionMessage" where
  "formatMessageForAPI m = \<lparr>c_role = m_from m, c_content = v_content (getCurrentVersion m)\<rparr>"

definition isValidMessage :: "Message \<Rightarrow> bool" where
  "isValidMessage m \<longleftrightarrow>
     (case m_versions m of
        [] \<Rightarrow> False
      | v # _ \<Rightarrow> \<not> (m_from m = Assistant \<and> js_trim (v_content v) = []))"

section \<open>The request payload\<close>

text \<open>The numeric parameters are passed through unchanged, so their type is a parameter; a
  parameter read from a stored configuration may be missing or null, both \<open>None\<close> here.\<close>

record 'n PlaygroundConfig =
  cfg_model :: jstr
  cfg_group :: jstr
  cfg_temperature :: "'n option"
  cfg_top_p :: "'n option"
  cfg_max_tokens :: "'n option"
  cfg_frequency_penalty :: "'n option"
  cfg_presence_penalty :: "'n option"
  cfg_seed :: "'n option"
  cfg_stream :: bool

record ParameterEnabled =
  en_temperature :: bool
  en_top_p :: bool
  en_max_tokens :: bool
  en_frequency_penalty :: bool
  en_presence_penalty :: bool
  en_seed :: bool

record 'n ChatCompletionRequest =
  req_model :: jstr
  req_group :: jstr
  req_messages :: "ChatCompletionMessage list"
  req_stream :: bool
  req_params :: "(jstr \<times> 'n) list"

definition parameterKeys :: "(jstr \<times> (ParameterEnabled \<Rightarrow> bool) \<times> ('n PlaygroundConfig \<Rightarrow> 'n option)) list" where
  "parameterKeys =
     [(js ''temperature'', en_temperature, cfg_temperature),
      (js ''top_p'', en_top_p, cfg_top_p),
      (js ''max_tokens'', en_max_tokens, cfg_max_tokens),
      (js ''frequency_penalty'', en_frequency_penalty, cfg_frequency_penalty),
      (js ''presence_penalty'', en_presence_penalty, cfg_presence_penalty),
      (js ''seed'', en_seed, cfg_seed)]"

definition buildChatCompletionPayload ::
  "Message list \<Rightarrow> 'n PlaygroundConfig \<Rightarrow> ParameterEnabled \<Rightarrow> 'n ChatCompletionRequest" where
  "buildChatCompletionPayload messages config parameterEnabled =
     \<lparr>req_model = cfg_model config, req_group = cfg_group config,
      req_messages = map formatMessageForAPI (filter isValidMessage messages),
      req_stream = cfg_stream config,
      req_params = List.map_filter (\<lambda>(key, enabled, val).
        if enabled parameterEnabled then map_option (Pair key) (val config) else None) parameterKeys\<rparr>"

section \<open>Think tags\<close>

record ThinkTags =
  visibleContent :: jstr
  reasoningText :: jstr
  hasUnclosedTag :: bool

abbreviation "think_open \<equiv> js ''<think>''"
abbreviation "think_close \<equiv> js ''</think>''"

text \<open>The loop of \<^verbatim>\<open>parseThinkTags\<close>; \<open>rest\<close> is \<^verbatim>\<open>content.substring(currentPos)\<close>.  It returns the
  visible parts, the reasoning parts and whether the last tag is unclosed.\<close>

function think_loop :: "jstr \<Rightarrow> jstr list \<times> jstr list \<times> bool" where
  "think_loop rest =
     (case find_sub think_open rest of
        None \<Rightarrow> ((if rest \<noteq> [] then [rest] else []), [], False)
      | Some openPos \<Rightarrow>
          (let visible = (if 0 < openPos then [take openPos rest] else []);
               after = drop (openPos + 7) rest in
           case find_sub think_close after of
             None \<Rightarrow> (visible, [after], True)
           | Some n \<Rightarrow>
               (case think_loop (drop (n + 8) after) of
                  (vs, rs, u) \<Rightarrow> (visible @ vs, take n after # rs, u))))"
  by pat_completeness auto
termination
proof (relation "measure length", simp)
  fix rest openPos visible after n
  assume "find_sub think_open rest = Some openPos" and "after = drop (openPos + 7) rest"
  then have "length after < length rest" using find_sub_Some [of think_open rest openPos] by auto
  then show "(drop (n + 8) after, rest) \<in> measure length" by simp
qed

declare think_loop.simps [simp del]

definition parseThinkTags :: "jstr \<Rightarrow> ThinkTags" where
  "parseThinkTags content =
     (if \<not> js_includes content think_open then
        \<lparr>visibleContent = content, reasoningText = [], hasUnclosedTag = False\<rparr>
      else
        (case think_loop content of
           (visibleParts, reasoningParts, hasUnclosed) \<Rightarrow>
             \<lparr>visibleContent = js_trim (concat visibleParts),
              reasoningText = js_trim (js_join [10, 10] reasoningParts),
              hasUnclosedTag = hasUnclosed\<rparr>))"

section \<open>Updating the conversation\<close>

definition updateLastAssistantMessage :: "Message list \<Rightarrow> (Message \<Rightarrow> Message) \<Rightarrow> Message list" where
  "updateLastAssistantMessage messages updater =
     (if messages = [] then messages
      else if m_from (last messages) \<noteq> Assistant then messages
      else butlast messages @ [updater (last messages)])"

text \<open>\<^verbatim>\<open>errorCode || null\<close>: an absent or empty code is stored as null.\<close>

definition errorMessage :: "jstr \<Rightarrow> jstr option \<Rightarrow> Message \<Rightarrow> Message" where
  "errorMessage msg code m =
     (updateCurrentVersionContent m (API_REQUEST_ERROR @ js '': '' @ msg))
       \<lparr>m_status := Some Error, m_isReasoningStreaming := Some False,
        m_errorCode := Some (if code = Some [] then None else code)\<rparr>"

definition updateAssistantMessageWithError ::
  "Message list \<Rightarrow> jstr \<Rightarrow> jstr option \<Rightarrow> Message list" where
  "updateAssistantMessageWithError messages msg code =
     updateLastAssistantMessage messages (errorMessage msg code)"

definition processStreamingContent :: "Message \<Rightarrow> jstr \<Rightarrow> Message" where
  "processStreamingContent m contentChunk =
     (let fullContent = v_content (getCurrentVersion m) @ contentChunk;
          p = parseThinkTags fullContent;
          finalReasoning = (if reasoningText p \<noteq> []
            then Some \<lparr>r_content = reasoningText p, r_duration = 0\<rparr> else m_reasoning m) in
      (updateCurrentVersionContent m fullContent)
        \<lparr>m_reasoning := finalReasoning, m_isReasoningStreaming := Some (hasUnclosedTag p)\<rparr>)"

text \<open>\<^verbatim>\<open>a || b\<close> on strings, with \<open>None\<close> for undefined.\<close>

definition str_or :: "jstr option \<Rightarrow> jstr \<Rightarrow> jstr" where
  "str_or a b = (case a of None \<Rightarrow> b | Some s \<Rightarrow> if s = [] then b else s)"

lemma str_or_simps [simp]:
  "str_or None b = b"
  "str_or (Some []) b = b"
  "s \<noteq> [] \<Longrightarrow> str_or (Some s) b = s"
  by (simp_all add: str_or_def)

definition finalizeMessage :: "Message \<Rightarrow> jstr option \<Rightarrow> Message" where
  "finalizeMessage m apiReasoningContent =
     (let p = parseThinkTags (v_content (getCurrentVersion m));
          finalReasoning = str_or apiReasoningContent
            (str_or (map_option r_content (m_reasoning m)) (reasoningText p)) in
      (updateCurrentVersionContent m (visibleContent p))
        \<lparr>m_reasoning := (if finalReasoning \<noteq> []
            then Some \<lparr>r_content = finalReasoning,
                       r_duration = (case m_reasoning m of None \<Rightarrow> 0 | Some r \<Rightarrow> r_duration r)\<rparr>
            else None),
         m_isReasoningStreaming := Some False\<rparr>)"

section \<open>Loading a stored conversation\<close>

definition isStuck :: "Message \<Rightarrow> bool" where
  "isStuck m \<longleftrightarrow> m_from m = Assistant \<and> (m_status m = Some Loading \<or> m_status m = Some Streaming)"

text \<open>The descending search for the last stuck message; \<open>None\<close> is the index \<^verbatim>\<open>-1\<close>.\<close>

fun findLastStuck :: "Message list \<Rightarrow> nat option" where
  "findLastStuck [] = None"
| "findLastStuck (m # ms) =
     (case findLastStuck ms of
        Some i \<Rightarrow> Some (Suc i)
      | None \<Rightarrow> if isStuck m then Some 0 else None)"

definition sanitizeMessage :: "Message \<Rightarrow> Message" where
  "sanitizeMessage m =
     (let finalized = finalizeMessage m None;
          hasContent = (case m_versions finalized of [] \<Rightarrow> False
            | v # _ \<Rightarrow> js_trim (v_content v) \<noteq> []);
          hasReasoning = (case m_reasoning finalized of None \<Rightarrow> False
            | Some r \<Rightarrow> js_trim (r_content r) \<noteq> []) in
      if hasContent \<or> hasReasoning
      then finalized\<lparr>m_status := Some Complete, m_isReasoningStreaming := Some False\<rparr>
      else (updateCurrentVersionContent finalized (API_REQUEST_ERROR @ js '': '' @ INTERRUPTED))
             \<lparr>m_status := Some Error, m_isReasoningStreaming := Some False\<rparr>)"

definition sanitizeMessagesOnLoad :: "Message list \<Rightarrow> Message list" where
  "sanitizeMessagesOnLoad messages =
     (case findLastStuck messages of
        None \<Rightarrow> messages
      | Some targetIndex \<Rightarrow> messages[targetIndex := sanitizeMessage (messages ! targetIndex)])"

section \<open>Think tags: what the parser computes\<close>

text \<open>A tagged text: visible text, then pairs of a closed reasoning block and the visible text
  after it.\<close>

fun think_source :: "jstr \<Rightarrow> (jstr \<times> jstr) list \<Rightarrow> jstr" where
  "think_source v [] = v"
| "think_source v ((r, w) # xs) = v @ think_open @ r @ think_close @ think_source w xs"

definition tag_free :: "jstr \<Rightarrow> (jstr \<times> jstr) list \<Rightarrow> bool" where
  "tag_free v xs \<longleftrightarrow> \<not> sublist think_open v
     \<and> (\<forall>(r, w) \<in> set xs. \<not> sublist think_close r \<and> \<not> sublist think_open w)"

lemma find_open: "\<not> sublist think_open v \<Longrightarrow> find_sub think_open (v @ think_open @ rest) = Some (length v)"
  by (rule find_sub_here) auto

lemma find_close: "\<not> sublist think_close v \<Longrightarrow> find_sub think_close (v @ think_close @ rest) = Some (length v)"
  by (rule find_sub_here) auto

lemma think_loop_plain: "\<not> sublist think_open v \<Longrightarrow> think_loop v = (if v \<noteq> [] then [v] else [], [], False)"
  by (simp add: think_loop.simps [of v] find_sub_absent del: js_Cons)

lemma think_loop_block:
  assumes "\<not> sublist think_open v" and "\<not> sublist think_close r"
  shows "think_loop (v @ think_open @ r @ think_close @ rest) =
    (case think_loop rest of (vs, rs, u) \<Rightarrow> ((if v \<noteq> [] then [v] else []) @ vs, r # rs, u))"
proof -
  have "drop (length v + 7) (v @ think_open @ r @ think_close @ rest) = r @ think_close @ rest"
    by simp
  moreover have "drop (length r + 8) (r @ think_close @ rest) = rest" by simp
  moreover have "take (length r) (r @ think_close @ rest) = r" by simp
  moreover have "take (length v) (v @ think_open @ r @ think_close @ rest) = v" by simp
  ultimately show ?thesis
    using find_open [OF assms(1)] find_close [OF assms(2)]
    by (simp add: think_loop.simps [of "v @ think_open @ r @ think_close @ rest"] Let_def del: js_Cons
        split: prod.split)
qed

text \<open>An optional unclosed block at the end of a tagged text.\<close>

definition think_tail :: "jstr option \<Rightarrow> jstr" where
  "think_tail t = (case t of None \<Rightarrow> [] | Some r \<Rightarrow> think_open @ r)"

lemma think_loop_unclosed:
  assumes "\<not> sublist think_open v" and "\<not> sublist think_close r"
  shows "think_loop (v @ think_open @ r) = (if v \<noteq> [] then [v] else [], [r], True)"
proof -
  have "drop (length v + 7) (v @ think_open @ r) = r" by simp
  moreover have "take (length v) (v @ think_open @ r) = v" by simp
  ultimately show ?thesis
    using find_open [OF assms(1)] find_sub_absent [OF assms(2)]
    by (simp add: think_loop.simps [of "v @ think_open @ r"] Let_def del: js_Cons)
qed

lemma think_loop_source:
  assumes "tag_free v xs" and "\<And>r. t = Some r \<Longrightarrow> \<not> sublist think_close r"
  shows "\<exists>vs. think_loop (think_source v xs @ think_tail t)
      = (vs, map fst xs @ (case t of None \<Rightarrow> [] | Some r \<Rightarrow> [r]), t \<noteq> None)
      \<and> concat vs = v @ concat (map snd xs)"
  using assms(1)
proof (induction xs arbitrary: v)
  case Nil
  then show ?case using assms(2)
    by (cases t) (auto simp: tag_free_def think_tail_def think_loop_plain think_loop_unclosed
        simp del: js_Cons)
next
  case (Cons x xs)
  obtain r w where x: "x = (r, w)" by (cases x)
  have f: "\<not> sublist think_open v" "\<not> sublist think_close r" "tag_free w xs"
    using Cons.prems x by (auto simp: tag_free_def simp del: js_Cons)
  then obtain vs where "think_loop (think_source w xs @ think_tail t)
      = (vs, map fst xs @ (case t of None \<Rightarrow> [] | Some r \<Rightarrow> [r]), t \<noteq> None)"
    and "concat vs = w @ concat (map snd xs)" using Cons.IH by blast
  with f x show ?case
    using think_loop_block [OF f(1,2), of "think_source w xs @ think_tail t"]
    by (auto simp del: js_Cons)
qed

lemma includes_open: "js_includes (a @ think_open @ b) think_open"
  by (simp add: js_includes_iff del: js_Cons)

text \<open>
  C11. The think-tag parser is exact on tagged text: visible text and reasoning blocks in any
  number, the last block possibly unclosed, are separated as written.  The visible text is the
  concatenation of the visible parts, the reasoning is the blocks joined by a blank line, both
  trimmed, and the flag says whether the last block is unclosed.
\<close>

theorem parseThinkTags_correct:
  assumes "tag_free v xs" and "\<forall>r. t = Some r \<longrightarrow> \<not> sublist think_close r" and "xs \<noteq> [] \<or> t \<noteq> None"
  shows "parseThinkTags (think_source v xs @ think_tail t) =
    \<lparr>visibleContent = js_trim (v @ concat (map snd xs)),
     reasoningText = js_trim (js_join [10, 10] (map fst xs @ (case t of None \<Rightarrow> [] | Some r \<Rightarrow> [r]))),
     hasUnclosedTag = (t \<noteq> None)\<rparr>"
proof -
  have "js_includes (think_source v xs @ think_tail t) think_open"
  proof (cases xs)
    case Nil
    then show ?thesis using assms(3) by (auto simp: think_tail_def includes_open simp del: js_Cons)
  next
    case (Cons x ys)
    then show ?thesis
      using includes_open [of v] by (cases x) (simp del: js_Cons)
  qed
  then show ?thesis
    using think_loop_source [OF assms(1), of t] assms(2)
    by (auto simp: parseThinkTags_def simp del: js_Cons)
qed

theorem parseThinkTags_correct_witness:
  "parseThinkTags (think_source (js ''a '') [(js ''b'', js '' c'')] @ think_tail (Some (js ''d''))) =
    \<lparr>visibleContent = js_trim (js ''a '' @ concat (map snd [(js ''b'', js '' c'')])),
     reasoningText = js_trim (js_join [10, 10] (map fst [(js ''b'', js '' c'')] @ [js ''d''])),
     hasUnclosedTag = True\<rparr>"
proof -
  have f: "tag_free (js ''a '') [(js ''b'', js '' c'')]" and g: "\<not> sublist think_close (js ''d'')"
    by (auto simp: tag_free_def simp flip: js_includes_iff; code_simp)+
  show ?thesis using parseThinkTags_correct [OF f, of "Some (js ''d'')"] g by (simp del: js_Cons)
qed

section \<open>Streaming a reply in chunks\<close>

lemma getCurrentVersion_update [simp]:
  "v_content (getCurrentVersion (updateCurrentVersionContent m c)) = c"
  by (simp add: getCurrentVersion_def updateCurrentVersionContent_def)

lemma update_update [simp]:
  "updateCurrentVersionContent (updateCurrentVersionContent m c) d = updateCurrentVersionContent m d"
  by (simp add: getCurrentVersion_def updateCurrentVersionContent_def)

lemma getCurrentVersion_frame [simp]:
  "getCurrentVersion (m\<lparr>m_reasoning := r\<rparr>) = getCurrentVersion m"
  "getCurrentVersion (m\<lparr>m_isReasoningStreaming := b\<rparr>) = getCurrentVersion m"
  "getCurrentVersion (m\<lparr>m_status := st\<rparr>) = getCurrentVersion m"
  "getCurrentVersion (m\<lparr>m_errorCode := e\<rparr>) = getCurrentVersion m"
  by (simp_all add: getCurrentVersion_def)

lemma update_frame:
  "updateCurrentVersionContent (m\<lparr>m_reasoning := r\<rparr>) c = (updateCurrentVersionContent m c)\<lparr>m_reasoning := r\<rparr>"
  "updateCurrentVersionContent (m\<lparr>m_isReasoningStreaming := b\<rparr>) c =
     (updateCurrentVersionContent m c)\<lparr>m_isReasoningStreaming := b\<rparr>"
  "updateCurrentVersionContent (m\<lparr>m_status := st\<rparr>) c = (updateCurrentVersionContent m c)\<lparr>m_status := st\<rparr>"
  by (simp_all add: updateCurrentVersionContent_def)

lemma update_fields [simp]:
  "m_reasoning (updateCurrentVersionContent m c) = m_reasoning m"
  "m_status (updateCurrentVersionContent m c) = m_status m"
  "m_from (updateCurrentVersionContent m c) = m_from m"
  "m_key (updateCurrentVersionContent m c) = m_key m"
  by (simp_all add: updateCurrentVersionContent_def)

text \<open>The state of a message after a list of content chunks, written out.\<close>

definition streamed :: "Message \<Rightarrow> jstr \<Rightarrow> Reasoning option \<Rightarrow> Message" where
  "streamed m c r = (updateCurrentVersionContent m c)
     \<lparr>m_reasoning := r, m_isReasoningStreaming := Some (hasUnclosedTag (parseThinkTags c))\<rparr>"

lemma streamed_reasoning [simp]: "m_reasoning (streamed m c r) = r"
  by (simp add: streamed_def)

lemma process_streamed:
  "processStreamingContent (streamed m c r) d = streamed m (c @ d)
     (if reasoningText (parseThinkTags (c @ d)) \<noteq> []
      then Some \<lparr>r_content = reasoningText (parseThinkTags (c @ d)), r_duration = 0\<rparr> else r)"
  by (simp add: processStreamingContent_def streamed_def Let_def update_frame)

lemma process_first:
  "processStreamingContent m d = streamed m (v_content (getCurrentVersion m) @ d)
     (if reasoningText (parseThinkTags (v_content (getCurrentVersion m) @ d)) \<noteq> []
      then Some \<lparr>r_content = reasoningText (parseThinkTags (v_content (getCurrentVersion m) @ d)),
                 r_duration = 0\<rparr> else m_reasoning m)"
  by (simp add: processStreamingContent_def streamed_def Let_def)

definition stream_chunks :: "Message \<Rightarrow> jstr list \<Rightarrow> Message" where
  "stream_chunks m chunks = foldl processStreamingContent m chunks"

lemma stream_chunks_streamed:
  "chunks \<noteq> [] \<Longrightarrow> \<exists>r. stream_chunks m chunks = streamed m (v_content (getCurrentVersion m) @ concat chunks) r"
proof (induction chunks rule: rev_induct)
  case (snoc d ds)
  then show ?case
  proof (cases "ds = []")
    case True
    then show ?thesis by (auto simp: stream_chunks_def process_first)
  next
    case False
    then show ?thesis using snoc.IH by (auto simp: stream_chunks_def process_streamed)
  qed
qed simp

text \<open>The reasoning field after the chunks: the reasoning of the whole text if there is any; what it
  was before if no prefix of the text has a think tag.\<close>

lemma stream_chunks_reasoning:
  assumes "chunks \<noteq> []"
    and "reasoningText (parseThinkTags (v_content (getCurrentVersion m) @ concat chunks)) \<noteq> []"
  shows "m_reasoning (stream_chunks m chunks) =
    Some \<lparr>r_content = reasoningText (parseThinkTags (v_content (getCurrentVersion m) @ concat chunks)),
          r_duration = 0\<rparr>"
proof -
  obtain ds d where ch: "chunks = ds @ [d]" using assms(1) by (cases chunks rule: rev_cases) auto
  show ?thesis
  proof (cases "ds = []")
    case True
    then show ?thesis using assms ch by (simp add: stream_chunks_def process_first)
  next
    case False
    then obtain r where "stream_chunks m ds = streamed m (v_content (getCurrentVersion m) @ concat ds) r"
      using stream_chunks_streamed by blast
    then show ?thesis using assms ch by (simp add: stream_chunks_def process_streamed)
  qed
qed

lemma parse_untagged: "\<not> sublist think_open c \<Longrightarrow> parseThinkTags c =
    \<lparr>visibleContent = c, reasoningText = [], hasUnclosedTag = False\<rparr>"
  by (simp add: parseThinkTags_def js_includes_iff del: js_Cons)

lemma stream_chunks_untagged:
  assumes "\<not> sublist think_open (v_content (getCurrentVersion m) @ concat chunks)"
  shows "m_reasoning (stream_chunks m chunks) = m_reasoning m"
  using assms
proof (induction chunks rule: rev_induct)
  case (snoc d ds)
  let ?c = "v_content (getCurrentVersion m)"
  have "sublist (?c @ concat ds) (?c @ concat (ds @ [d]))"
    by (simp flip: append_assoc)
  then have f: "\<not> sublist think_open (?c @ concat ds)"
    using snoc.prems sublist_order.order.trans by blast
  have g: "reasoningText (parseThinkTags (?c @ concat ds @ d)) = []"
    using snoc.prems by (simp add: parse_untagged del: js_Cons)
  show ?case
  proof (cases "ds = []")
    case True
    then show ?thesis using g by (simp add: stream_chunks_def process_first)
  next
    case False
    then obtain r where r: "stream_chunks m ds = streamed m (?c @ concat ds) r"
      using stream_chunks_streamed by blast
    then have "r = m_reasoning m" using snoc.IH f by (simp add: streamed_def)
    then show ?thesis using r g by (simp add: stream_chunks_def process_streamed)
  qed
qed (simp add: stream_chunks_def)

lemma finalize_streamed:
  "finalizeMessage (streamed m c r) None = (updateCurrentVersionContent m (visibleContent (parseThinkTags c)))
     \<lparr>m_reasoning := (let fr = str_or (map_option r_content r) (reasoningText (parseThinkTags c)) in
        if fr \<noteq> [] then Some \<lparr>r_content = fr, r_duration = (case r of None \<Rightarrow> 0 | Some x \<Rightarrow> r_duration x)\<rparr>
        else None),
      m_isReasoningStreaming := Some False\<rparr>"
  by (simp add: finalizeMessage_def streamed_def Let_def update_frame)

text \<open>
  C12. The finished reply does not depend on how the network cut the streamed text into chunks,
  for every text that has some reasoning or has no think tag at all: two chunkings of the same
  text are finalised to the same message.
\<close>

theorem chunking_independent:
  assumes "concat cs = concat ds" and "cs \<noteq> []" and "ds \<noteq> []"
    and "reasoningText (parseThinkTags (v_content (getCurrentVersion m) @ concat cs)) \<noteq> [] \<or>
      \<not> js_includes (v_content (getCurrentVersion m) @ concat cs) think_open"
  shows "finalizeMessage (stream_chunks m cs) None = finalizeMessage (stream_chunks m ds) None"
proof -
  let ?c = "v_content (getCurrentVersion m) @ concat cs"
  obtain r r' where rr: "stream_chunks m cs = streamed m ?c r" "stream_chunks m ds = streamed m ?c r'"
    using stream_chunks_streamed assms(1-3) by metis
  have "m_reasoning (stream_chunks m cs) = m_reasoning (stream_chunks m ds)"
  proof (cases "reasoningText (parseThinkTags ?c) \<noteq> []")
    case True
    then show ?thesis using stream_chunks_reasoning [of cs m] stream_chunks_reasoning [of ds m] assms(1-3)
      by simp
  next
    case False
    then have "\<not> sublist think_open ?c" using assms(4) by (simp add: js_includes_iff del: js_Cons)
    then show ?thesis using stream_chunks_untagged [of m cs] stream_chunks_untagged [of m ds] assms(1)
      by (simp del: js_Cons)
  qed
  then have "r = r'" using rr by (simp add: streamed_def)
  then show ?thesis using rr by simp
qed

theorem chunking_independent_witness:
  "finalizeMessage (stream_chunks (createLoadingAssistantMessage (js ''k'') (js ''v''))
      [js ''<think>why</th'', js ''ink>because'']) None =
   finalizeMessage (stream_chunks (createLoadingAssistantMessage (js ''k'') (js ''v''))
      [js ''<think>why</think>because'']) None"
proof (rule chunking_independent)
  show "concat [js ''<think>why</th'', js ''ink>because''] = concat [js ''<think>why</think>because'']"
    by code_simp
  have "reasoningText (parseThinkTags (v_content (getCurrentVersion
      (createLoadingAssistantMessage (js ''k'') (js ''v''))) @
      concat [js ''<think>why</th'', js ''ink>because''])) = js ''why''" by code_simp
  then show "reasoningText (parseThinkTags (v_content (getCurrentVersion
      (createLoadingAssistantMessage (js ''k'') (js ''v''))) @
      concat [js ''<think>why</th'', js ''ink>because''])) \<noteq> [] \<or>
      \<not> js_includes (v_content (getCurrentVersion
      (createLoadingAssistantMessage (js ''k'') (js ''v''))) @
      concat [js ''<think>why</th'', js ''ink>because'']) think_open" by simp
qed simp_all

text \<open>
  With an empty think block the reply does depend on the chunking: when a chunk ends inside
  the closing tag, the half-received tag is stored as reasoning and survives finalisation, while
  the same text received in one chunk has no reasoning.
\<close>

theorem empty_think_block_leaves_stale_reasoning:
  "m_reasoning (finalizeMessage (stream_chunks (createLoadingAssistantMessage (js ''k'') (js ''v''))
      [js ''<think></thi'', js ''nk>hello'']) None) = Some \<lparr>r_content = js ''</thi'', r_duration = 0\<rparr> \<and>
   m_reasoning (finalizeMessage (stream_chunks (createLoadingAssistantMessage (js ''k'') (js ''v''))
      [js ''<think></think>hello'']) None) = None"
  by code_simp

section \<open>Loading and sending: what is guaranteed\<close>

lemma findLastStuck_None: "findLastStuck ms = None \<longleftrightarrow> filter isStuck ms = []"
  by (induction ms) (auto split: option.splits)

lemma findLastStuck_Some:
  "findLastStuck ms = Some i \<Longrightarrow>
     i < length ms \<and> isStuck (ms ! i) \<and> (\<forall>m \<in> set (drop (Suc i) ms). \<not> isStuck m)"
proof (induction ms arbitrary: i)
  case (Cons m ms)
  show ?case
  proof (cases "findLastStuck ms")
    case None
    then have "\<forall>m \<in> set ms. \<not> isStuck m" by (simp only: findLastStuck_None filter_empty_conv)
    with None Cons.prems show ?thesis by (auto split: if_splits)
  next
    case (Some j)
    with Cons.prems Cons.IH [OF Some] show ?thesis by auto
  qed
qed simp

lemma finalize_fields [simp]:
  "m_from (finalizeMessage m a) = m_from m" "m_key (finalizeMessage m a) = m_key m"
  "m_status (finalizeMessage m a) = m_status m"
  by (simp_all add: finalizeMessage_def Let_def)

lemma sanitizeMessage_settled:
  "m_key (sanitizeMessage m) = m_key m \<and> m_from (sanitizeMessage m) = m_from m \<and> \<not> isStuck (sanitizeMessage m)"
  by (simp add: sanitizeMessage_def isStuck_def Let_def)

lemma filter_update:
  "i < length xs \<Longrightarrow> P (xs ! i) \<Longrightarrow> \<not> P y \<Longrightarrow>
     length (filter P xs) = Suc (length (filter P (xs[i := y])))"
proof (induction xs arbitrary: i)
  case (Cons x xs)
  then show ?case by (cases i) auto
qed simp

definition shows_something :: "Message \<Rightarrow> bool" where
  "shows_something m \<longleftrightarrow> js_trim (v_content (getCurrentVersion m)) \<noteq> [] \<or>
     (\<exists>r. m_reasoning m = Some r \<and> js_trim (r_content r) \<noteq> [])"

lemma versions_update: "m_versions (updateCurrentVersionContent m c) = [(getCurrentVersion m)\<lparr>v_content := c\<rparr>]"
  by (simp add: updateCurrentVersionContent_def)

lemma sanitizeMessage_shows: "shows_something (sanitizeMessage m)"
proof -
  obtain v vs where v: "m_versions (finalizeMessage m None) = v # vs"
    by (simp add: finalizeMessage_def Let_def versions_update)
  then have c: "getCurrentVersion (finalizeMessage m None) = v" by (simp add: getCurrentVersion_def)
  have "js_trim (API_REQUEST_ERROR @ js '': '' @ INTERRUPTED) \<noteq> []"
    by (simp add: js_trim_eq_Nil API_REQUEST_ERROR_def INTERRUPTED_def is_ws_def)
  then show ?thesis
    using v c by (auto simp: shows_something_def sanitizeMessage_def Let_def split: option.splits)
qed

text \<open>
  Reloading a conversation settles exactly one interrupted reply: the last assistant message
  that is still loading or streaming becomes complete or failed and shows some text, every other
  message is left as it was, and the number of interrupted messages drops by one.  Nothing changes
  when there is none.
\<close>

theorem sanitize_settles_one:
  "(case findLastStuck ms of
      None \<Rightarrow> sanitizeMessagesOnLoad ms = ms \<and> filter isStuck ms = []
    | Some i \<Rightarrow>
        length (filter isStuck ms) = Suc (length (filter isStuck (sanitizeMessagesOnLoad ms))) \<and>
        sanitizeMessagesOnLoad ms = ms[i := sanitizeMessage (ms ! i)] \<and>
        isStuck (ms ! i) \<and> filter isStuck (drop (Suc i) ms) = [] \<and>
        \<not> isStuck (sanitizeMessage (ms ! i)) \<and>
        m_key (sanitizeMessage (ms ! i)) = m_key (ms ! i) \<and>
        shows_something (sanitizeMessage (ms ! i)))"
proof (cases "findLastStuck ms")
  case None
  then show ?thesis using findLastStuck_None [of ms] by (simp add: sanitizeMessagesOnLoad_def)
next
  case (Some i)
  then have i: "i < length ms" "isStuck (ms ! i)" "filter isStuck (drop (Suc i) ms) = []"
    using findLastStuck_Some by (blast, blast, simp add: filter_empty_conv)
  have "length (filter isStuck ms) = Suc (length (filter isStuck (ms[i := sanitizeMessage (ms ! i)])))"
    using filter_update [of i ms isStuck] i sanitizeMessage_settled by blast
  then show ?thesis
    using Some i sanitizeMessage_settled [of "ms ! i"] sanitizeMessage_shows [of "ms ! i"]
    by (simp add: sanitizeMessagesOnLoad_def)
qed

lemma parameterKeys_distinct: "distinct (map fst parameterKeys)"
  by (simp add: parameterKeys_def)

lemma map_filter_params:
  assumes "distinct (map fst ks)" and "(key, enabled, val) \<in> set ks"
  shows "(key, x) \<in> set (List.map_filter (\<lambda>(key, enabled, val).
        if enabled en then map_option (Pair key) (val cfg) else None) ks) \<longleftrightarrow> enabled en \<and> val cfg = Some x"
proof -
  have "(e, g) = (enabled, val)" if "(key, e, g) \<in> set ks" for e g
    using eq_key_imp_eq_value [OF assms(1)] assms(2) that by fastforce
  note uniq = this
  show ?thesis
  proof
    assume "enabled en \<and> val cfg = Some x"
    with assms(2) show "(key, x) \<in> set (List.map_filter (\<lambda>(key, enabled, val).
        if enabled en then map_option (Pair key) (val cfg) else None) ks)"
      by (auto simp: List.map_filter_def intro!: rev_image_eqI [of "(key, enabled, val)"])
  next
    assume "(key, x) \<in> set (List.map_filter (\<lambda>(key, enabled, val).
        if enabled en then map_option (Pair key) (val cfg) else None) ks)"
    then obtain e g where "(key, e, g) \<in> set ks" "e en" "g cfg = Some x"
      by (auto simp: List.map_filter_def split: if_splits)
    with uniq show "enabled en \<and> val cfg = Some x" by blast
  qed
qed

lemma request_messages:
  "req_messages (buildChatCompletionPayload ms cfg en) =
     map (\<lambda>m. \<lparr>c_role = m_from m, c_content = v_content (hd (m_versions m))\<rparr>)
       (filter (\<lambda>m. m_versions m \<noteq> [] \<and> (m_from m = Assistant \<longrightarrow> js_trim (v_content (hd (m_versions m))) \<noteq> [])) ms)"
proof -
  have "map formatMessageForAPI (filter isValidMessage ms) =
    map (\<lambda>m. \<lparr>c_role = m_from m, c_content = v_content (hd (m_versions m))\<rparr>)
      (filter (\<lambda>m. m_versions m \<noteq> [] \<and> (m_from m = Assistant \<longrightarrow> js_trim (v_content (hd (m_versions m))) \<noteq> [])) ms)"
    by (induction ms) (auto simp: isValidMessage_def formatMessageForAPI_def getCurrentVersion_def split: list.splits)
  then show ?thesis by (simp add: buildChatCompletionPayload_def)
qed

text \<open>
  C15. What is sent to the model.  In a conversation in which every pending reply is still empty and no
  message of the user or the system is blank, the messages sent are exactly those that are neither
  loading nor streaming and have a text that is not blank, in order and with their roles and texts.
  The model, the group and the streaming mode are those of the configuration, and a numeric
  parameter is sent exactly when it is enabled and set.
\<close>

theorem payload_contents:
  assumes "\<forall>m \<in> set ms. isStuck m \<longrightarrow> js_trim (v_content (hd (m_versions m))) = []"
    and "\<forall>m \<in> set ms. m_from m \<noteq> Assistant \<longrightarrow> js_trim (v_content (hd (m_versions m))) \<noteq> []"
  shows "let req = buildChatCompletionPayload ms cfg en in
    req_messages req =
      map (\<lambda>m. \<lparr>c_role = m_from m, c_content = v_content (hd (m_versions m))\<rparr>)
        (filter (\<lambda>m. \<not> isStuck m \<and> m_versions m \<noteq> [] \<and> js_trim (v_content (hd (m_versions m))) \<noteq> []) ms) \<and>
    req_model req = cfg_model cfg \<and> req_group req = cfg_group cfg \<and> req_stream req = cfg_stream cfg \<and>
    (\<forall>(key, enabled, val) \<in> set parameterKeys. \<forall>x. (key, x) \<in> set (req_params req) \<longleftrightarrow> enabled en \<and> val cfg = Some x)"
proof -
  have "filter (\<lambda>m. m_versions m \<noteq> [] \<and> (m_from m = Assistant \<longrightarrow> js_trim (v_content (hd (m_versions m))) \<noteq> [])) ms =
      filter (\<lambda>m. \<not> isStuck m \<and> m_versions m \<noteq> [] \<and> js_trim (v_content (hd (m_versions m))) \<noteq> []) ms"
    using assms by (intro filter_cong) (auto simp: isStuck_def)
  moreover have "\<forall>(key, enabled, val) \<in> set parameterKeys. \<forall>x.
      (key, x) \<in> set (req_params (buildChatCompletionPayload ms cfg en)) \<longleftrightarrow> enabled en \<and> val cfg = Some x"
    unfolding buildChatCompletionPayload_def
    by (auto simp only: ChatCompletionRequest.simps map_filter_params [OF parameterKeys_distinct] split: prod.splits)
  ultimately show ?thesis by (simp add: Let_def request_messages) (simp add: buildChatCompletionPayload_def)
qed

definition demo_conversation :: "Message list" where
  "demo_conversation = [createUserMessage (js ''u'') (js ''v'') (js ''hi''), createLoadingAssistantMessage (js ''k'') (js ''w'')]"

definition demo_parameters :: "nat PlaygroundConfig" where
  "demo_parameters = \<lparr>cfg_model = js ''gpt-4o'', cfg_group = js ''auto'', cfg_temperature = Some 1, cfg_top_p = None,
     cfg_max_tokens = None, cfg_frequency_penalty = None, cfg_presence_penalty = None, cfg_seed = None, cfg_stream = True\<rparr>"

definition demo_enabled :: ParameterEnabled where
  "demo_enabled = \<lparr>en_temperature = True, en_top_p = True, en_max_tokens = False, en_frequency_penalty = True,
     en_presence_penalty = True, en_seed = False\<rparr>"

theorem payload_contents_witness:
  "req_messages (buildChatCompletionPayload demo_conversation demo_parameters demo_enabled) =
     [\<lparr>c_role = User, c_content = js ''hi''\<rparr>]"
proof -
  have "\<forall>m \<in> set demo_conversation. isStuck m \<longrightarrow> js_trim (v_content (hd (m_versions m))) = []"
    "\<forall>m \<in> set demo_conversation. m_from m \<noteq> Assistant \<longrightarrow> js_trim (v_content (hd (m_versions m))) \<noteq> []" by code_simp+
  note r = conjunct1 [OF payload_contents [OF this, of demo_parameters demo_enabled, unfolded Let_def]]
  show ?thesis unfolding r by code_simp
qed

text \<open>Otherwise a partly received reply and a blank message of the user are sent as well.\<close>

lemma partial_reply_sent:
  "let m = (createLoadingAssistantMessage k v)\<lparr>m_versions := [\<lparr>v_id = v, v_content = js ''par''\<rparr>], m_status := Some Streaming\<rparr>;
       u = createUserMessage k' v' []
   in isStuck m \<and> req_messages (buildChatCompletionPayload [u, m] cfg en) =
        [\<lparr>c_role = User, c_content = []\<rparr>, \<lparr>c_role = Assistant, c_content = js ''par''\<rparr>]"
  by (simp add: request_messages isStuck_def createLoadingAssistantMessage_def createUserMessage_def createMessageVersion_def
      js_trim_def is_ws_def)

end
