(* ===== verification/Playground_Session.thy ===== *)
theory Playground_Session
  imports Playground_Messages
begin

text \<open>
  A playground session: the stream handling of \<^verbatim>\<open>hooks/use-stream-request.ts\<close>, the chat
  callbacks of \<^verbatim>\<open>hooks/use-chat-handler.ts\<close>, the state of \<^verbatim>\<open>hooks/use-playground-state.ts\<close> with its
  storage (\<^verbatim>\<open>lib/storage.ts\<close>), the page handlers of \<^verbatim>\<open>index.tsx\<close> and the two ways to send a message of
  \<^verbatim>\<open>components/playground-input.tsx\<close>.

  The event source is the third-party \<^verbatim>\<open>sse.js\<close>: sources are numbered in the order they are
  created, and what a source delivers are events chosen by the environment; \<open>s_open\<close> holds the sources
  that were started and not closed (one whose \<^verbatim>\<open>stream()\<close> raised has sent nothing).  The React refs
  (\<^verbatim>\<open>sseSourceRef\<close>, \<^verbatim>\<open>isStreamCompleteRef\<close>), the React state and the storage slot are fields
  of the session.  Identifiers are drawn from \<^verbatim>\<open>nanoid\<close>, an argument, with a counter in the
  state.
\<close>

section \<open>Storage\<close>

text \<open>A storage slot, seen through \<^verbatim>\<open>JSON.parse\<close>: no (or an empty) text, a text that does not
  parse, or the stored value.\<close>

datatype 'a slot = Absent | Corrupt | Saved 'a


definition saveMessages :: "bool \<Rightarrow> Message list \<Rightarrow> Message list slot \<Rightarrow> Message list slot" where
  "saveMessages writable messages slot = (if writable then Saved messages else slot)"


section \<open>The session\<close>

record 'n Session =
  s_messages :: "Message list"
  s_config :: "'n PlaygroundConfig"
  s_enabled :: ParameterEnabled
  s_editing :: "jstr option"
  s_slot :: "Message list slot"
  s_writable :: bool
  s_ref :: "nat option"
  s_complete :: bool
  s_open :: "nat list"
  s_nextSource :: nat
  s_ids :: nat
  s_pending :: nat
  s_sent :: "'n ChatCompletionRequest list"
  s_toasts :: "jstr list"

definition isGenerating :: "'n Session \<Rightarrow> bool" where
  "isGenerating s \<longleftrightarrow> s_ref s \<noteq> None"

text \<open>\<^verbatim>\<open>updateMessages\<close>: set the state and save it.\<close>

definition updateMessages :: "(Message list \<Rightarrow> Message list) \<Rightarrow> 'n Session \<Rightarrow> 'n Session" where
  "updateMessages updater s =
     s\<lparr>s_messages := updater (s_messages s),
       s_slot := saveMessages (s_writable s) (updater (s_messages s)) (s_slot s)\<rparr>"

definition clearMessages :: "'n Session \<Rightarrow> 'n Session" where
  "clearMessages s = updateMessages (\<lambda>_. []) s"

section \<open>Chat callbacks\<close>

datatype updateType = ReasoningUpdate | ContentUpdate

definition streamUpdater :: "updateType \<Rightarrow> jstr \<Rightarrow> Message \<Rightarrow> Message" where
  "streamUpdater ty chunk m =
     (if m_status m = Some Error then m
      else if ty = ReasoningUpdate then
        m\<lparr>m_reasoning := Some \<lparr>r_content = (case m_reasoning m of None \<Rightarrow> [] | Some r \<Rightarrow> r_content r) @ chunk,
                               r_duration = 0\<rparr>,
          m_isReasoningStreaming := Some True, m_status := Some Streaming\<rparr>
      else (processStreamingContent m chunk)\<lparr>m_status := Some Streaming\<rparr>)"

definition handleStreamUpdate :: "updateType \<Rightarrow> jstr \<Rightarrow> 'n Session \<Rightarrow> 'n Session" where
  "handleStreamUpdate ty chunk s =
     updateMessages (\<lambda>prev. updateLastAssistantMessage prev (streamUpdater ty chunk)) s"

definition completeUpdater :: "Message \<Rightarrow> Message" where
  "completeUpdater m =
     (if m_status m = Some Complete \<or> m_status m = Some Error then m
      else (finalizeMessage m None)\<lparr>m_status := Some Complete\<rparr>)"

definition handleStreamComplete :: "'n Session \<Rightarrow> 'n Session" where
  "handleStreamComplete s =
     updateMessages (\<lambda>prev. updateLastAssistantMessage prev completeUpdater) s"

definition handleStreamError :: "jstr \<Rightarrow> jstr option \<Rightarrow> 'n Session \<Rightarrow> 'n Session" where
  "handleStreamError error errorCode s =
     updateMessages (\<lambda>prev. updateAssistantMessageWithError prev error errorCode)
       (s\<lparr>s_toasts := s_toasts s @ [error]\<rparr>)"

definition PARSE_ERROR :: jstr where "PARSE_ERROR = js ''Error parsing response data''"
definition STREAM_START_ERROR :: jstr where "STREAM_START_ERROR = js ''Error establishing connection''"
definition CONNECTION_CLOSED :: jstr where "CONNECTION_CLOSED = js ''Connection closed''"

section \<open>The event source\<close>

definition closeSource :: "nat \<Rightarrow> 'n Session \<Rightarrow> 'n Session" where
  "closeSource i s = s\<lparr>s_open := filter (\<lambda>j. j \<noteq> i) (s_open s), s_ref := None\<rparr>"

definition handleError :: "nat \<Rightarrow> jstr \<Rightarrow> jstr option \<Rightarrow> 'n Session \<Rightarrow> 'n Session" where
  "handleError i message errorCode s =
     (if s_complete s then s else closeSource i (handleStreamError message errorCode s))"

text \<open>The data of a message event: the end marker, a chunk with the delta of its first choice,
  or a text whose processing raises.\<close>

record Delta =
  d_reasoning_content :: "jstr option"
  d_content :: "jstr option"

datatype sse_data = Done | Chunk "Delta option" | BadData

definition applyDelta :: "updateType \<Rightarrow> jstr option \<Rightarrow> 'n Session \<Rightarrow> 'n Session" where
  "applyDelta ty chunk s =
     (case chunk of None \<Rightarrow> s | Some c \<Rightarrow> if c = [] then s else handleStreamUpdate ty c s)"

definition onMessage :: "nat \<Rightarrow> sse_data \<Rightarrow> 'n Session \<Rightarrow> 'n Session" where
  "onMessage i data s =
     (case data of
        Done \<Rightarrow> handleStreamComplete (closeSource i (s\<lparr>s_complete := True\<rparr>))
      | Chunk None \<Rightarrow> s
      | Chunk (Some delta) \<Rightarrow>
          applyDelta ContentUpdate (d_content delta)
            (applyDelta ReasoningUpdate (d_reasoning_content delta) s)
      | BadData \<Rightarrow> handleError i PARSE_ERROR None s)"

text \<open>The data of an error event: none, a text that is not a JSON error object, or a text that
  parses to an object with an \<^verbatim>\<open>error\<close> property (its message and code).\<close>

datatype error_data = NoData | RawData jstr | ErrorObject jstr "jstr option" "jstr option"

definition onErrorEvent :: "nat \<Rightarrow> nat \<Rightarrow> error_data \<Rightarrow> 'n Session \<Rightarrow> 'n Session" where
  "onErrorEvent i readyState data s =
     (if readyState \<noteq> 2 then
        (case data of
           NoData \<Rightarrow> handleError i API_REQUEST_ERROR None s
         | RawData txt \<Rightarrow> handleError i (str_or (Some txt) API_REQUEST_ERROR) None s
         | ErrorObject txt msg code \<Rightarrow>
             handleError i (str_or msg (str_or (Some txt) API_REQUEST_ERROR))
               (if code = Some [] then None else code) s)
      else s)"

definition onReadyStateChange :: "nat \<Rightarrow> nat option \<Rightarrow> nat option \<Rightarrow> 'n Session \<Rightarrow> 'n Session" where
  "onReadyStateChange i readyState status s =
     (case (readyState, status) of
        (Some r, Some st) \<Rightarrow>
          if 2 \<le> r \<and> st \<noteq> 200
          then handleError i (js ''HTTP '' @ dec st @ js '': '' @ CONNECTION_CLOSED) None s else s
      | _ \<Rightarrow> s)"

text \<open>\<^verbatim>\<open>starts\<close>: whether \<^verbatim>\<open>source.stream()\<close> returns normally.  When it raises, the source is left as it is.\<close>

definition sendStreamRequest :: "bool \<Rightarrow> 'n ChatCompletionRequest \<Rightarrow> 'n Session \<Rightarrow> 'n Session" where
  "sendStreamRequest starts payload s =
     (let i = s_nextSource s;
          s1 = s\<lparr>s_nextSource := Suc i, s_ref := Some i, s_complete := False,
                 s_sent := s_sent s @ [payload]\<rparr> in
      if starts then s1\<lparr>s_open := i # s_open s\<rparr>
      else (handleStreamError STREAM_START_ERROR None s1)\<lparr>s_ref := None\<rparr>)"

definition stopStream :: "'n Session \<Rightarrow> 'n Session" where
  "stopStream s = (case s_ref s of None \<Rightarrow> s | Some i \<Rightarrow> closeSource i s)"

section \<open>Sending and stopping\<close>

definition sendStreamingChat :: "bool \<Rightarrow> Message list \<Rightarrow> 'n Session \<Rightarrow> 'n Session" where
  "sendStreamingChat starts messages s =
     sendStreamRequest starts (buildChatCompletionPayload messages (s_config s) (s_enabled s)) s"

text \<open>The non-streaming request: sending it, and what its answer does later.\<close>

definition sendNonStreamingChat :: "Message list \<Rightarrow> 'n Session \<Rightarrow> 'n Session" where
  "sendNonStreamingChat messages s =
     s\<lparr>s_pending := Suc (s_pending s),
       s_sent := s_sent s @ [buildChatCompletionPayload messages (s_config s) (s_enabled s)]\<rparr>"

record Choice =
  ch_content :: "jstr option"
  ch_reasoning_content :: "jstr option"

definition respondUpdater :: "Choice \<Rightarrow> Message \<Rightarrow> Message" where
  "respondUpdater choice m =
     (let content = str_or (ch_content choice) [];
          v = (case m_versions m of [] \<Rightarrow> \<lparr>v_id = [], v_content = content\<rparr>
               | w # _ \<Rightarrow> w\<lparr>v_content := content\<rparr>) in
      (finalizeMessage (m\<lparr>m_versions := [v]\<rparr>) (ch_reasoning_content choice))\<lparr>m_status := Some Complete\<rparr>)"

definition onResponse :: "Choice option \<Rightarrow> 'n Session \<Rightarrow> 'n Session" where
  "onResponse choice s =
     (let s1 = s\<lparr>s_pending := s_pending s - 1\<rparr> in
      case choice of
        None \<Rightarrow> s1
      | Some c \<Rightarrow> updateMessages (\<lambda>prev. updateLastAssistantMessage prev (respondUpdater c)) s1)"

definition onResponseError :: "jstr option \<Rightarrow> jstr option \<Rightarrow> jstr option \<Rightarrow> 'n Session \<Rightarrow> 'n Session" where
  "onResponseError dataMessage errMessage code s =
     handleStreamError (str_or dataMessage (str_or errMessage API_REQUEST_ERROR))
       (if code = Some [] then None else code) (s\<lparr>s_pending := s_pending s - 1\<rparr>)"

definition sendChat :: "bool \<Rightarrow> Message list \<Rightarrow> 'n Session \<Rightarrow> 'n Session" where
  "sendChat starts messages s =
     (if cfg_stream (s_config s) then sendStreamingChat starts messages s
      else sendNonStreamingChat messages s)"

definition stopUpdater :: "Message \<Rightarrow> Message" where
  "stopUpdater m =
     (if m_status m = Some Loading \<or> m_status m = Some Streaming
      then (finalizeMessage m None)\<lparr>m_status := Some Complete\<rparr> else m)"

definition stopGeneration :: "'n Session \<Rightarrow> 'n Session" where
  "stopGeneration s =
     updateMessages (\<lambda>prev. updateLastAssistantMessage prev stopUpdater) (stopStream s)"

section \<open>The page\<close>

definition handleSendMessage :: "(nat \<Rightarrow> jstr) \<Rightarrow> bool \<Rightarrow> jstr \<Rightarrow> 'n Session \<Rightarrow> 'n Session" where
  "handleSendMessage nanoid starts txt s =
     (let n = s_ids s;
          newMessages = s_messages s @ [createUserMessage (nanoid n) (nanoid (n + 1)) txt,
            createLoadingAssistantMessage (nanoid (n + 2)) (nanoid (n + 3))] in
      sendChat starts newMessages (updateMessages (\<lambda>_. newMessages) (s\<lparr>s_ids := n + 4\<rparr>)))"

fun findIndex :: "('a \<Rightarrow> bool) \<Rightarrow> 'a list \<Rightarrow> nat option" where
  "findIndex P [] = None"
| "findIndex P (x # xs) = (if P x then Some 0 else map_option Suc (findIndex P xs))"

definition handleRegenerateMessage :: "(nat \<Rightarrow> jstr) \<Rightarrow> bool \<Rightarrow> jstr \<Rightarrow> 'n Session \<Rightarrow> 'n Session" where
  "handleRegenerateMessage nanoid starts key s =
     (case findIndex (\<lambda>m. m_key m = key) (s_messages s) of
        None \<Rightarrow> s
      | Some messageIndex \<Rightarrow>
          (let n = s_ids s;
               newMessages = take messageIndex (s_messages s)
                 @ [createLoadingAssistantMessage (nanoid n) (nanoid (n + 1))] in
           sendChat starts newMessages (updateMessages (\<lambda>_. newMessages) (s\<lparr>s_ids := n + 2\<rparr>))))"

definition handleEditMessage :: "jstr \<Rightarrow> 'n Session \<Rightarrow> 'n Session" where
  "handleEditMessage key s = s\<lparr>s_editing := Some key\<rparr>"

definition handleEditOpenChange :: "bool \<Rightarrow> 'n Session \<Rightarrow> 'n Session" where
  "handleEditOpenChange isOpen s = (if isOpen then s else s\<lparr>s_editing := None\<rparr>)"

definition editVersions :: "jstr \<Rightarrow> Message \<Rightarrow> Message" where
  "editVersions newContent m =
     m\<lparr>m_versions := [(case m_versions m of [] \<Rightarrow> \<lparr>v_id = [], v_content = newContent\<rparr>
        | w # _ \<Rightarrow> w\<lparr>v_content := newContent\<rparr>)]\<rparr>"

definition applyEdit :: "(nat \<Rightarrow> jstr) \<Rightarrow> bool \<Rightarrow> jstr \<Rightarrow> bool \<Rightarrow> 'n Session \<Rightarrow> 'n Session" where
  "applyEdit nanoid starts newContent submit s =
     (case s_editing s of
        None \<Rightarrow> s
      | Some key \<Rightarrow>
          if key = [] then s
          else (case findIndex (\<lambda>m. m_key m = key) (s_messages s) of
             None \<Rightarrow> s
           | Some index \<Rightarrow>
               (let updated = map (\<lambda>m. if m_key m = key then editVersions newContent m else m) (s_messages s);
                    s1 = s\<lparr>s_editing := None\<rparr>;
                    n = s_ids s in
                if \<not> submit \<or> m_from (updated ! index) \<noteq> User then updateMessages (\<lambda>_. updated) s1
                else (let toSubmit = take (index + 1) updated
                            @ [createLoadingAssistantMessage (nanoid n) (nanoid (n + 1))] in
                      sendChat starts toSubmit (updateMessages (\<lambda>_. toSubmit) (s1\<lparr>s_ids := n + 2\<rparr>))))))"

definition handleDeleteMessage :: "jstr \<Rightarrow> 'n Session \<Rightarrow> 'n Session" where
  "handleDeleteMessage key s = updateMessages (filter (\<lambda>m. m_key m \<noteq> key)) s"

text \<open>\<^verbatim>\<open>useMessageActionGuard\<close>: regenerating, opening an edit and deleting are refused with a
  warning while a reply is generated.\<close>

definition guardAction :: "('n Session \<Rightarrow> 'n Session) \<Rightarrow> 'n Session \<Rightarrow> 'n Session" where
  "guardAction action s =
     (if isGenerating s
      then s\<lparr>s_toasts := s_toasts s @ [js ''Please wait for the current generation to complete'']\<rparr>
      else action s)"

text \<open>The input box submits only a non-blank text and only while no reply is generated (the page sets
  \<^verbatim>\<open>disabled={isGenerating}\<close>); the buttons with suggestions submit their text at any time.\<close>

definition handleSubmit :: "(nat \<Rightarrow> jstr) \<Rightarrow> bool \<Rightarrow> jstr \<Rightarrow> 'n Session \<Rightarrow> 'n Session" where
  "handleSubmit nanoid starts txt s =
     (if js_trim txt = [] \<or> isGenerating s then s else handleSendMessage nanoid starts txt s)"

definition suggestions :: "jstr list" where
  "suggestions = map js [''Analyze data'', ''Surprise me'', ''Summarize text'', ''Code'', ''Get advice'', ''More'']"

definition handleSuggestionClick :: "(nat \<Rightarrow> jstr) \<Rightarrow> bool \<Rightarrow> jstr \<Rightarrow> 'n Session \<Rightarrow> 'n Session" where
  "handleSuggestionClick nanoid starts suggestion s = handleSendMessage nanoid starts suggestion s"

section \<open>Runs of a session\<close>

text \<open>The actions of the user (typing and sending a message, clicking a suggestion, regenerating, editing,
  deleting, stopping, changing the configuration), the events of the sources, and the answers to
  non-streaming requests.\<close>

datatype 'n action =
    Send bool jstr | Suggest bool jstr | Regenerate bool jstr | OpenEdit jstr | CloseEdit | SaveEdit jstr
  | SubmitEdit bool jstr | Delete jstr | Stop | Configure "'n PlaygroundConfig" ParameterEnabled
  | EvMessage nat sse_data | EvError nat nat error_data | EvReady nat "nat option" "nat option"
  | EvResponse "Choice option" | EvResponseError "jstr option" "jstr option" "jstr option"

fun act :: "(nat \<Rightarrow> jstr) \<Rightarrow> 'n action \<Rightarrow> 'n Session \<Rightarrow> 'n Session" where
  "act nanoid (Send starts txt) s = handleSubmit nanoid starts txt s"
| "act nanoid (Suggest starts txt) s = handleSuggestionClick nanoid starts txt s"
| "act nanoid (Regenerate starts key) s = guardAction (handleRegenerateMessage nanoid starts key) s"
| "act nanoid (OpenEdit key) s = guardAction (handleEditMessage key) s"
| "act nanoid CloseEdit s = handleEditOpenChange False s"
| "act nanoid (SaveEdit c) s = applyEdit nanoid True c False s"
| "act nanoid (SubmitEdit starts c) s = applyEdit nanoid starts c True s"
| "act nanoid (Delete key) s = guardAction (handleDeleteMessage key) s"
| "act nanoid Stop s = stopGeneration s"
| "act nanoid (Configure config enabled) s = s\<lparr>s_config := config, s_enabled := enabled\<rparr>"
| "act nanoid (EvMessage i d) s = onMessage i d s"
| "act nanoid (EvError i r d) s = onErrorEvent i r d s"
| "act nanoid (EvReady i r st) s = onReadyStateChange i r st s"
| "act nanoid (EvResponse choice) s = onResponse choice s"
| "act nanoid (EvResponseError dataMessage errMessage code) s = onResponseError dataMessage errMessage code s"

text \<open>What the event source may deliver: message and error events come from a source that is not
  closed; a state change may also be reported while a source is being closed.  A request that is under
  way is answered once, and the suggestions are those of the page.\<close>

fun delivered :: "'n action \<Rightarrow> 'n Session \<Rightarrow> bool" where
  "delivered (EvMessage i d) s \<longleftrightarrow> i \<in> set (s_open s)"
| "delivered (EvError i r d) s \<longleftrightarrow> i \<in> set (s_open s)"
| "delivered (EvReady i r st) s \<longleftrightarrow> i \<in> set (s_open s) \<or> s_ref s = None"
| "delivered (EvResponse c) s \<longleftrightarrow> 0 < s_pending s"
| "delivered (EvResponseError d e c) s \<longleftrightarrow> 0 < s_pending s"
| "delivered (Suggest starts txt) s \<longleftrightarrow> txt \<in> set suggestions"
| "delivered a s \<longleftrightarrow> True"

text \<open>An edit is submitted and a suggestion clicked only while no reply is generated (the page does not
  enforce this), and streaming is not switched off.\<close>

fun orderly :: "'n action \<Rightarrow> 'n Session \<Rightarrow> bool" where
  "orderly (SubmitEdit starts c) s \<longleftrightarrow> \<not> isGenerating s"
| "orderly (Suggest starts txt) s \<longleftrightarrow> \<not> isGenerating s"
| "orderly (Configure config enabled) s \<longleftrightarrow> cfg_stream config"
| "orderly a s \<longleftrightarrow> True"

inductive reachable :: "(nat \<Rightarrow> jstr) \<Rightarrow> 'n Session \<Rightarrow> 'n Session \<Rightarrow> bool"
  for nanoid :: "nat \<Rightarrow> jstr" and s0 :: "'n Session" where
  start: "reachable nanoid s0 s0"
| step: "reachable nanoid s0 s \<Longrightarrow> delivered a s \<Longrightarrow> orderly a s \<Longrightarrow> reachable nanoid s0 (act nanoid a s)"

definition settled :: "Message list \<Rightarrow> bool" where
  "settled ms \<longleftrightarrow> (\<forall>m \<in> set ms. \<not> isStuck m)"

definition session_inv :: "'n Session \<Rightarrow> bool" where
  "session_inv s \<longleftrightarrow> cfg_stream (s_config s) \<and> s_pending s = 0 \<and>
     (case s_ref s of
        None \<Rightarrow> s_open s = [] \<and> settled (s_messages s)
      | Some i \<Rightarrow> s_open s = [i] \<and> \<not> s_complete s \<and>
          (\<exists>ms m. s_messages s = ms @ [m] \<and> isStuck m \<and> settled ms))"

section \<open>One stream, one pending reply\<close>

lemma settled_simps [simp]:
  "settled []" "settled (m # ms) \<longleftrightarrow> \<not> isStuck m \<and> settled ms"
  "settled (ms @ ns) \<longleftrightarrow> settled ms \<and> settled ns"
  by (auto simp: settled_def)



lemma updateLast_snoc [simp]:
  "updateLastAssistantMessage (ms @ [m]) f = (if m_from m = Assistant then ms @ [f m] else ms @ [m])"
  by (simp add: updateLastAssistantMessage_def)

lemma updateLast_Nil [simp]: "updateLastAssistantMessage [] f = []"
  by (simp add: updateLastAssistantMessage_def)



lemma not_stuck_updaters [simp]:
  "\<not> isStuck (completeUpdater m)" "\<not> isStuck (errorMessage msg code m)" "\<not> isStuck (stopUpdater m)"
  by (auto simp: isStuck_def completeUpdater_def errorMessage_def stopUpdater_def)

lemma process_fields [simp]:
  "m_from (processStreamingContent m c) = m_from m" "m_key (processStreamingContent m c) = m_key m"
  "m_status (processStreamingContent m c) = m_status m"
  by (simp_all add: processStreamingContent_def Let_def)





lemma session_inv_frame [simp]:
  "session_inv (s\<lparr>s_toasts := t\<rparr>) = session_inv s" "session_inv (s\<lparr>s_editing := e\<rparr>) = session_inv s"
  by (cases "s_ref s"; simp add: session_inv_def)+

lemma handleStreamError_fields [simp]:
  "s_config (handleStreamError e c s) = s_config s" "s_ref (handleStreamError e c s) = s_ref s"
  "s_open (handleStreamError e c s) = s_open s" "s_complete (handleStreamError e c s) = s_complete s"
  "s_ids (handleStreamError e c s) = s_ids s" "s_pending (handleStreamError e c s) = s_pending s"
  "s_messages (handleStreamError e c s) = updateLastAssistantMessage (s_messages s) (errorMessage e c)"
  by (simp_all add: handleStreamError_def updateMessages_def updateAssistantMessageWithError_def)






lemma loading_stuck [simp]: "isStuck (createLoadingAssistantMessage k v)"
  and user_not_stuck [simp]: "\<not> isStuck (createUserMessage k v c)"
  by (simp_all add: isStuck_def createLoadingAssistantMessage_def createUserMessage_def)



lemma updateMessages_fields [simp]:
  "s_config (updateMessages f s) = s_config s" "s_ref (updateMessages f s) = s_ref s"
  "s_open (updateMessages f s) = s_open s" "s_complete (updateMessages f s) = s_complete s"
  "s_ids (updateMessages f s) = s_ids s" "s_pending (updateMessages f s) = s_pending s" "s_messages (updateMessages f s) = f (s_messages s)"
  by (simp_all add: updateMessages_def)



lemma editVersions_stuck [simp]: "isStuck (editVersions c m) = isStuck m"
  by (simp add: isStuck_def editVersions_def)











definition demo_config :: "nat PlaygroundConfig" where
  "demo_config = \<lparr>cfg_model = js ''gpt-4o'', cfg_group = js ''auto'', cfg_temperature = None, cfg_top_p = None,
     cfg_max_tokens = None, cfg_frequency_penalty = None, cfg_presence_penalty = None, cfg_seed = None,
     cfg_stream = True\<rparr>"

definition demo_session :: "nat Session" where
  "demo_session = \<lparr>s_messages = [], s_config = demo_config,
     s_enabled = \<lparr>en_temperature = True, en_top_p = True, en_max_tokens = False,
       en_frequency_penalty = True, en_presence_penalty = True, en_seed = False\<rparr>,
     s_editing = None, s_slot = Absent, s_writable = True, s_ref = None, s_complete = False,
     s_open = [], s_nextSource = 0, s_ids = 0, s_pending = 0, s_sent = [], s_toasts = []\<rparr>"



text \<open>
  The page does not guard the submission of an edit: submitting one while a reply is generated
  opens a second event source without closing the first, and a chunk of the first source is then
  written into the reply of the second.
\<close>

theorem submit_edit_mixes_streams:
  "let s = act dec (Send True (js ''one'')) demo_session;
       s = act dec (EvMessage 0 Done) s;
       s = act dec (OpenEdit (dec 0)) s;
       s = act dec (Send True (js ''two'')) s;
       s = act dec (SubmitEdit True (js ''three'')) s;
       s = act dec (EvMessage 1 (Chunk (Some \<lparr>d_reasoning_content = None, d_content = Some (js ''X'')\<rparr>))) s
   in s_open s = [2, 1] \<and> s_ref s = Some 2 \<and>
      map (\<lambda>m. (m_from m, v_content (getCurrentVersion m))) (s_messages s) =
        [(User, js ''three''), (Assistant, js ''X'')]"
  by code_simp

text \<open>
  Neither does it guard the suggestions: clicking one while a reply is generated opens a second
  event source without closing the first, leaves the first reply loading, and the chunks of both
  sources are written into the second reply.
\<close>

theorem suggestion_mixes_streams:
  "let s = act dec (Send True (js ''one'')) demo_session;
       s = act dec (Suggest True (js ''Code'')) s;
       s = act dec (EvMessage 0 (Chunk (Some \<lparr>d_reasoning_content = None, d_content = Some (js ''X'')\<rparr>))) s;
       s = act dec (EvMessage 1 (Chunk (Some \<lparr>d_reasoning_content = None, d_content = Some (js ''Y'')\<rparr>))) s
   in js ''Code'' \<in> set suggestions \<and> s_open s = [1, 0] \<and> s_ref s = Some 1 \<and>
      map (\<lambda>m. (m_from m, isStuck m, v_content (getCurrentVersion m))) (s_messages s) =
        [(User, False, js ''one''), (Assistant, True, []), (User, False, js ''Code''), (Assistant, True, js ''XY'')]"
  by code_simp

text \<open>
  A non-streaming answer without a choice leaves the reply loading although no request is
  under way and the page shows no generation to stop.
\<close>

theorem empty_answer_leaves_reply_loading:
  "let s = demo_session\<lparr>s_config := demo_config\<lparr>cfg_stream := False\<rparr>\<rparr>;
       s = act dec (Send True (js ''hi'')) s;
       s = onResponse None s
   in s_pending s = 0 \<and> \<not> isGenerating s \<and> isStuck (last (s_messages s))"
  by code_simp

section \<open>What a stream of deltas amounts to\<close>

definition delta_part :: "updateType \<Rightarrow> jstr option \<Rightarrow> Message \<Rightarrow> Message" where
  "delta_part ty c m = (case c of None \<Rightarrow> m | Some x \<Rightarrow> if x = [] then m else streamUpdater ty x m)"

definition delta_message :: "Message \<Rightarrow> Delta \<Rightarrow> Message" where
  "delta_message m d = delta_part ContentUpdate (d_content d) (delta_part ReasoningUpdate (d_reasoning_content d) m)"

definition received :: "jstr option \<Rightarrow> jstr" where
  "received c = (case c of None \<Rightarrow> [] | Some x \<Rightarrow> x)"

definition reply_text :: "Delta list \<Rightarrow> jstr" where
  "reply_text ds = concat (map (\<lambda>d. received (d_content d)) ds)"

definition reply_reasoning :: "Delta list \<Rightarrow> jstr" where
  "reply_reasoning ds = concat (map (\<lambda>d. received (d_reasoning_content d)) ds)"

text \<open>Source \<open>i\<close> delivers the deltas and then the end marker.\<close>

definition run_stream :: "nat \<Rightarrow> Delta list \<Rightarrow> 'n Session \<Rightarrow> 'n Session" where
  "run_stream i ds s = onMessage i Done (foldl (\<lambda>s d. onMessage i (Chunk (Some d)) s) s ds)"

lemma streamUpdater_fields [simp]:
  "m_from (streamUpdater ty c m) = m_from m" "m_key (streamUpdater ty c m) = m_key m"
  by (simp_all add: streamUpdater_def)

lemma delta_part_fields [simp]:
  "m_from (delta_part ty c m) = m_from m" "m_key (delta_part ty c m) = m_key m"
  by (auto simp: delta_part_def split: option.splits)

lemma applyDelta_messages:
  "s_messages s = ms @ [m] \<Longrightarrow> m_from m = Assistant \<Longrightarrow>
     s_messages (applyDelta ty c s) = ms @ [delta_part ty c m]"
  by (auto simp: applyDelta_def delta_part_def handleStreamUpdate_def split: option.splits)

lemma onMessage_chunk:
  "s_messages s = ms @ [m] \<Longrightarrow> m_from m = Assistant \<Longrightarrow>
     s_messages (onMessage i (Chunk (Some d)) s) = ms @ [delta_message m d]"
  by (simp add: onMessage_def delta_message_def applyDelta_messages)

lemma foldl_chunks:
  "s_messages s = ms @ [m] \<Longrightarrow> m_from m = Assistant \<Longrightarrow>
     s_messages (foldl (\<lambda>s d. onMessage i (Chunk (Some d)) s) s ds) = ms @ [foldl delta_message m ds] \<and>
     m_from (foldl delta_message m ds) = Assistant"
proof (induction ds rule: rev_induct)
  case (snoc d ds)
  then show ?case by (simp add: onMessage_chunk delta_message_def)
qed simp

text \<open>The reply as far as it has been received: its status is not final, its text is the received
  text, its reasoning the received reasoning.\<close>

definition partial_reply :: "Message \<Rightarrow> jstr \<Rightarrow> jstr \<Rightarrow> bool" where
  "partial_reply m c r \<longleftrightarrow> (m_status m = Some Loading \<or> m_status m = Some Streaming) \<and>
     v_content (getCurrentVersion m) = c \<and>
     m_reasoning m = (if r = [] then None else Some \<lparr>r_content = r, r_duration = 0\<rparr>)"

lemma partial_reasoning:
  "partial_reply m c r \<Longrightarrow> partial_reply (delta_part ReasoningUpdate x m) c (r @ received x)"
  by (auto simp: partial_reply_def delta_part_def received_def streamUpdater_def getCurrentVersion_def
      split: option.splits)

lemma partial_content:
  assumes "partial_reply m c r" and "\<not> sublist think_open (c @ received x)"
  shows "partial_reply (delta_part ContentUpdate x m) (c @ received x) r"
proof (cases "received x = []")
  case True
  with assms show ?thesis by (auto simp: delta_part_def received_def split: option.splits)
next
  case False
  then obtain w where x: "x = Some w" "w \<noteq> []" by (auto simp: received_def split: option.splits)
  have "reasoningText (parseThinkTags (c @ w)) = []"
    using assms(2) x by (simp add: parse_untagged received_def del: js_Cons)
  with assms(1) x show ?thesis
    by (auto simp: partial_reply_def delta_part_def received_def streamUpdater_def
        processStreamingContent_def Let_def)
qed

lemma partial_deltas:
  assumes "partial_reply m c r"
    and "\<not> sublist think_open (c @ concat (map (\<lambda>d. received (d_content d)) ds))"
  shows "partial_reply (foldl delta_message m ds) (c @ concat (map (\<lambda>d. received (d_content d)) ds))
    (r @ concat (map (\<lambda>d. received (d_reasoning_content d)) ds))"
  using assms
proof (induction ds arbitrary: m c r)
  case (Cons d ds)
  let ?c = "c @ received (d_content d)"
  have "sublist ?c (?c @ concat (map (\<lambda>d. received (d_content d)) ds))" by simp
  then have "\<not> sublist think_open ?c"
    using Cons.prems(2) sublist_order.order.trans by (fastforce simp del: js_Cons)
  then have "partial_reply (delta_message m d) ?c (r @ received (d_reasoning_content d))"
    unfolding delta_message_def by (intro partial_content partial_reasoning Cons.prems(1))
  from Cons.IH [OF this] Cons.prems(2) show ?case by (simp del: js_Cons)
qed simp

lemma complete_partial:
  assumes "partial_reply m c r" and "\<not> sublist think_open c"
  shows "v_content (getCurrentVersion (completeUpdater m)) = c"
    and "m_reasoning (completeUpdater m) = (if r = [] then None else Some \<lparr>r_content = r, r_duration = 0\<rparr>)"
    and "m_status (completeUpdater m) = Some Complete"
  using assms
  by (auto simp: partial_reply_def completeUpdater_def finalizeMessage_def Let_def parse_untagged
      simp del: js_Cons)

text \<open>
  C10. A streamed reply is assembled faithfully when its text has no think tag (tagged text is the
  subject of the think-tag parser): whatever way the server interleaves reasoning and text deltas,
  after the end marker the reply's text is the concatenation of the text deltas, its reasoning the
  concatenation of the reasoning deltas (absent if there are none), it is complete, the earlier
  messages are untouched, the source is closed, and the conversation has been saved if the storage can
  be written.  The deltas are delivered one after the other with nothing else happening in between.
\<close>

theorem streamed_reply_assembled:
  assumes "s_messages s = ms @ [createLoadingAssistantMessage k v]"
    and "\<not> js_includes (reply_text ds) think_open"
  shows "\<exists>m. s_messages (run_stream i ds s) = ms @ [m] \<and> m_key m = k \<and>
    v_content (getCurrentVersion m) = reply_text ds \<and>
    m_reasoning m = (if reply_reasoning ds = [] then None
      else Some \<lparr>r_content = reply_reasoning ds, r_duration = 0\<rparr>) \<and>
    m_status m = Some Complete \<and> s_ref (run_stream i ds s) = None \<and>
    i \<notin> set (s_open (run_stream i ds s)) \<and>
    (s_writable (run_stream i ds s) \<longrightarrow> s_slot (run_stream i ds s) = Saved (ms @ [m]))"
proof -
  let ?init = "createLoadingAssistantMessage k v"
  let ?m = "foldl delta_message ?init ds"
  let ?t = "foldl (\<lambda>s d. onMessage i (Chunk (Some d)) s) s ds"
  have free: "\<not> sublist think_open (reply_text ds)"
    using assms(2) by (simp add: js_includes_iff del: js_Cons)
  have "partial_reply ?init [] []"
    by (simp add: partial_reply_def createLoadingAssistantMessage_def createMessageVersion_def getCurrentVersion_def)
  from partial_deltas [OF this, of ds] free have p: "partial_reply ?m (reply_text ds) (reply_reasoning ds)"
    by (simp add: reply_text_def reply_reasoning_def del: js_Cons)
  have key: "m_key (foldl delta_message m ds) = m_key m" for m
    by (induction ds arbitrary: m) (simp_all add: delta_message_def)
  have msgs: "s_messages ?t = ms @ [?m]" "m_from ?m = Assistant"
    using foldl_chunks [OF assms(1)] by (auto simp: createLoadingAssistantMessage_def)
  then have "s_messages (run_stream i ds s) = ms @ [completeUpdater ?m]"
    by (simp add: run_stream_def onMessage_def handleStreamComplete_def closeSource_def)
  moreover have "s_ref (run_stream i ds s) = None" "i \<notin> set (s_open (run_stream i ds s))"
    by (auto simp: run_stream_def onMessage_def handleStreamComplete_def closeSource_def)
  moreover have "s_writable (run_stream i ds s) \<longrightarrow>
      s_slot (run_stream i ds s) = Saved (s_messages (run_stream i ds s))"
    by (simp add: run_stream_def onMessage_def handleStreamComplete_def closeSource_def
        updateMessages_def saveMessages_def)
  moreover have "m_key (completeUpdater ?m) = k"
    using key [of ?init] by (simp add: completeUpdater_def createLoadingAssistantMessage_def)
  ultimately show ?thesis using complete_partial [OF p free] by metis
qed

definition demo_deltas :: "Delta list" where
  "demo_deltas = [\<lparr>d_reasoning_content = Some (js ''hm''), d_content = None\<rparr>,
     \<lparr>d_reasoning_content = None, d_content = Some (js ''He'')\<rparr>,
     \<lparr>d_reasoning_content = None, d_content = Some (js ''llo'')\<rparr>]"

theorem streamed_reply_assembled_witness:
  "\<exists>m. s_messages (run_stream 0 demo_deltas
       (demo_session\<lparr>s_messages := [] @ [createLoadingAssistantMessage (js ''k'') (js ''v'')]\<rparr>)) = [] @ [m] \<and>
     v_content (getCurrentVersion m) = js ''Hello'' \<and> m_status m = Some Complete"
proof -
  let ?s = "demo_session\<lparr>s_messages := [] @ [createLoadingAssistantMessage (js ''k'') (js ''v'')]\<rparr>"
  have a: "s_messages ?s = [] @ [createLoadingAssistantMessage (js ''k'') (js ''v'')]" by simp
  have b: "\<not> js_includes (reply_text demo_deltas) think_open" by code_simp
  have "reply_text demo_deltas = js ''Hello''" by code_simp
  with streamed_reply_assembled [OF a b, of 0] show ?thesis by metis
qed

section \<open>Message keys\<close>

definition keys_fresh :: "(nat \<Rightarrow> jstr) \<Rightarrow> 'n Session \<Rightarrow> bool" where
  "keys_fresh nanoid s \<longleftrightarrow> distinct (map m_key (s_messages s)) \<and>
     (\<forall>k \<in> set (map m_key (s_messages s)). \<forall>n \<ge> s_ids s. k \<noteq> nanoid n)"

lemma keys_updateLast:
  "(\<And>m. m_key (f m) = m_key m) \<Longrightarrow> map m_key (updateLastAssistantMessage ms f) = map m_key ms"
  by (cases ms rule: rev_cases) auto

lemma updater_keys [simp]:
  "m_key (completeUpdater m) = m_key m" "m_key (errorMessage e c m) = m_key m"
  "m_key (stopUpdater m) = m_key m" "m_key (editVersions x m) = m_key m"
  by (simp_all add: completeUpdater_def errorMessage_def stopUpdater_def editVersions_def)

text \<open>Operations that neither add a message nor draw an identifier.\<close>

definition same_keys :: "'n Session \<Rightarrow> 'n Session \<Rightarrow> bool" where
  "same_keys s t \<longleftrightarrow> map m_key (s_messages t) = map m_key (s_messages s) \<and> s_ids t = s_ids s"

lemma same_keys_fresh: "same_keys s t \<Longrightarrow> keys_fresh nanoid s \<Longrightarrow> keys_fresh nanoid t"
  unfolding same_keys_def keys_fresh_def by (elim conjE) (simp only:)

lemma same_keys_ops:
  "same_keys s (handleStreamError e c s)" "same_keys s (closeSource i s)"
  "same_keys s (handleStreamUpdate ty x s)" "same_keys s (handleStreamComplete s)"
  "same_keys s (stopGeneration s)"
  by (simp_all add: same_keys_def closeSource_def handleStreamUpdate_def handleStreamComplete_def
      stopGeneration_def stopStream_def keys_updateLast split: option.splits)

lemma same_keys_trans: "same_keys s t \<Longrightarrow> same_keys t u \<Longrightarrow> same_keys s u"
  and same_keys_refl: "same_keys s s"
  by (simp_all add: same_keys_def)

lemma same_keys_handleError: "same_keys s (handleError i e c s)"
  unfolding handleError_def using same_keys_ops(1,2) same_keys_trans same_keys_refl by (simp, blast)

lemma same_keys_applyDelta: "same_keys s (applyDelta ty c s)"
  by (auto simp: applyDelta_def same_keys_ops same_keys_refl split: option.splits)

lemma same_keys_onMessage: "same_keys s (onMessage i d s)"
proof (cases d)
  case Done
  then show ?thesis
    by (simp add: onMessage_def same_keys_def handleStreamComplete_def closeSource_def keys_updateLast)
next
  case (Chunk delta)
  then show ?thesis
    by (auto simp: onMessage_def same_keys_refl split: option.splits
        intro: same_keys_trans [OF same_keys_applyDelta same_keys_applyDelta])
next
  case BadData
  then show ?thesis by (simp add: onMessage_def same_keys_handleError)
qed

lemma sendChat_keys: "same_keys s (sendChat starts msgs s)"
  by (simp add: same_keys_def sendChat_def sendStreamingChat_def sendStreamRequest_def
      sendNonStreamingChat_def Let_def keys_updateLast)

lemma keys_fresh_send:
  assumes "keys_fresh nanoid (t\<lparr>s_ids := n, s_messages := newMessages\<rparr>)"
  shows "keys_fresh nanoid (sendChat starts newMessages (updateMessages (\<lambda>_. newMessages) (t\<lparr>s_ids := n\<rparr>)))"
  by (rule same_keys_fresh [OF sendChat_keys]) (use assms in \<open>simp add: keys_fresh_def\<close>)

text \<open>Lists of keys: part of the old keys followed by newly drawn ones.\<close>

lemma fresh_append:
  fixes a n :: nat
  assumes "inj f" and "distinct ks" and "\<forall>k \<in> set ks. \<forall>i \<ge> a. k \<noteq> f i"
    and "distinct ns" and "\<forall>i \<in> set ns. a \<le> i \<and> i < n" and "a \<le> n"
  shows "distinct (ks @ map f ns) \<and> (\<forall>k \<in> set (ks @ map f ns). \<forall>i \<ge> n. k \<noteq> f i)"
proof -
  have "inj_on f (set ns)" using assms(1) by (rule inj_on_subset) simp
  then have "distinct (map f ns)" using assms(4) by (simp add: distinct_map)
  moreover have "f i \<notin> set ks" if "i \<in> set ns" for i using assms(3,5) that by blast
  ultimately have "distinct (ks @ map f ns)" using assms(2) by (auto simp: disjoint_iff)
  moreover have "k \<noteq> f i" if k: "k \<in> set (ks @ map f ns)" and i: "n \<le> i" for k i
  proof (cases "k \<in> set ks")
    case True
    moreover have "a \<le> i" using assms(6) i by simp
    ultimately show ?thesis using assms(3) by blast
  next
    case False
    then obtain j where "j \<in> set ns" "k = f j" using k by auto
    then show ?thesis using assms(1,5) i by (auto simp: inj_eq)
  qed
  ultimately show ?thesis by blast
qed

lemma keys_fresh_append:
  assumes "inj nanoid" and "keys_fresh nanoid s"
    and "distinct (map m_key ms)" and "set (map m_key ms) \<subseteq> set (map m_key (s_messages s))"
    and "map m_key news = map nanoid ns" and "distinct ns" and "\<forall>i \<in> set ns. s_ids s \<le> i \<and> i < n"
    and "s_ids s \<le> n"
  shows "keys_fresh nanoid (t\<lparr>s_ids := n, s_messages := ms @ news\<rparr>)"
proof -
  have "\<forall>k \<in> set (map m_key ms). \<forall>i \<ge> s_ids s. k \<noteq> nanoid i"
    using assms(2,4) unfolding keys_fresh_def by blast
  from fresh_append [OF assms(1,3) this assms(6-8)] show ?thesis
    by (simp add: keys_fresh_def assms(5))
qed

lemma findIndex_Some: "findIndex P xs = Some i \<Longrightarrow> i < length xs \<and> P (xs ! i)"
  by (induction xs arbitrary: i) (auto split: if_splits)

lemma take_keys:
  assumes "keys_fresh nanoid s"
  shows "distinct (map m_key (take k (s_messages s)))"
    and "set (map m_key (take k (s_messages s))) \<subseteq> set (map m_key (s_messages s))"
  using assms set_take_subset [of k "map m_key (s_messages s)"] distinct_take [of "map m_key (s_messages s)" k]
  by (simp_all add: keys_fresh_def take_map)

lemma edit_keys [simp]: "map m_key (map (\<lambda>m. if m_key m = key then editVersions c m else m) ms) = map m_key ms"
  by (induction ms) auto

lemma created_keys [simp]:
  "m_key (createUserMessage k v c) = k" "m_key (createLoadingAssistantMessage k v) = k"
  by (simp_all add: createUserMessage_def createLoadingAssistantMessage_def)

lemma send_keys:
  assumes "inj nanoid" and "keys_fresh nanoid s"
  shows "keys_fresh nanoid (handleSendMessage nanoid starts txt s)"
  unfolding handleSendMessage_def Let_def
  by (rule keys_fresh_send, rule keys_fresh_append [OF assms, where ns = "[s_ids s, s_ids s + 2]"])
    (use assms(2) in \<open>simp_all add: keys_fresh_def\<close>)

lemma regenerate_keys:
  assumes "inj nanoid" and "keys_fresh nanoid s"
  shows "keys_fresh nanoid (handleRegenerateMessage nanoid starts key s)"
proof (cases "findIndex (\<lambda>m. m_key m = key) (s_messages s)")
  case None
  then show ?thesis using assms(2) by (simp add: handleRegenerateMessage_def)
next
  case (Some k)
  have "keys_fresh nanoid (sendChat starts (take k (s_messages s) @ [createLoadingAssistantMessage (nanoid (s_ids s)) (nanoid (s_ids s + 1))])
     (updateMessages (\<lambda>_. take k (s_messages s) @ [createLoadingAssistantMessage (nanoid (s_ids s)) (nanoid (s_ids s + 1))])
       (s\<lparr>s_ids := s_ids s + 2\<rparr>)))"
    by (rule keys_fresh_send, rule keys_fresh_append [OF assms take_keys [OF assms(2)], where ns = "[s_ids s]"])
      simp_all
  with Some show ?thesis by (simp add: handleRegenerateMessage_def Let_def)
qed

lemma applyEdit_keys:
  assumes "inj nanoid" and "keys_fresh nanoid s"
  shows "keys_fresh nanoid (applyEdit nanoid starts c submit s)"
proof (cases "\<exists>key index. s_editing s = Some key \<and> key \<noteq> [] \<and> findIndex (\<lambda>m. m_key m = key) (s_messages s) = Some index")
  case False
  then have "applyEdit nanoid starts c submit s = s"
    by (auto simp: applyEdit_def split: option.splits)
  then show ?thesis using assms(2) by simp
next
  case True
  then obtain key index where e: "s_editing s = Some key" "key \<noteq> []"
    "findIndex (\<lambda>m. m_key m = key) (s_messages s) = Some index" by blast
  let ?upd = "map (\<lambda>m. if m_key m = key then editVersions c m else m) (s_messages s)"
  have k: "map m_key (take (index + 1) ?upd) = map m_key (take (index + 1) (s_messages s))"
    by (simp only: take_map [symmetric] edit_keys)
  have "keys_fresh nanoid (sendChat starts (take (index + 1) ?upd @ [createLoadingAssistantMessage (nanoid (s_ids s)) (nanoid (s_ids s + 1))])
     (updateMessages (\<lambda>_. take (index + 1) ?upd @ [createLoadingAssistantMessage (nanoid (s_ids s)) (nanoid (s_ids s + 1))])
       (s\<lparr>s_editing := None, s_ids := s_ids s + 2\<rparr>)))"
    by (rule keys_fresh_send, rule keys_fresh_append [OF assms, where ns = "[s_ids s]"], unfold k)
      (use take_keys [OF assms(2)] in simp_all)
  moreover have "keys_fresh nanoid (updateMessages (\<lambda>_. ?upd) (s\<lparr>s_editing := None\<rparr>))"
  proof (rule same_keys_fresh [OF _ assms(2)])
    have "s_ids (updateMessages (\<lambda>_. ?upd) (s\<lparr>s_editing := None\<rparr>)) = s_ids s" by simp
    then show "same_keys s (updateMessages (\<lambda>_. ?upd) (s\<lparr>s_editing := None\<rparr>))"
      by (simp only: same_keys_def updateMessages_fields edit_keys simp_thms)
  qed
  ultimately show ?thesis using e by (simp add: applyEdit_def Let_def)
qed

lemma respond_keys: "m_key (respondUpdater c m) = m_key m"
  by (simp add: respondUpdater_def Let_def)

lemma same_keys_response: "same_keys s (onResponse choice s)" "same_keys s (onResponseError d e c s)"
  by (simp_all add: same_keys_def onResponse_def onResponseError_def Let_def keys_updateLast respond_keys split: option.split)

lemma act_keys:
  assumes "inj nanoid" and "keys_fresh nanoid s"
  shows "keys_fresh nanoid (act nanoid a s)"
proof (cases a)
  case (EvError i r d)
  have "same_keys s (onErrorEvent i r d s)"
    by (cases d) (simp_all add: onErrorEvent_def same_keys_handleError same_keys_refl)
  then show ?thesis using EvError same_keys_fresh [OF _ assms(2)] by simp
next
  case (EvReady i r st)
  have "same_keys s (onReadyStateChange i r st s)"
    by (auto simp: onReadyStateChange_def same_keys_handleError same_keys_refl split: option.splits)
  then show ?thesis using EvReady same_keys_fresh [OF _ assms(2)] by simp
next
  case (EvMessage i d)
  then show ?thesis using same_keys_fresh [OF same_keys_onMessage assms(2)] by simp
next
  case Stop
  then show ?thesis using same_keys_fresh [OF same_keys_ops(5) assms(2)] by simp
next
  case (Delete key)
  have "keys_fresh nanoid (handleDeleteMessage key s)"
    using assms(2) by (auto simp: keys_fresh_def handleDeleteMessage_def distinct_map_filter)
  with assms(2) Delete show ?thesis by (simp add: guardAction_def keys_fresh_def)
next
  case (Regenerate starts key)
  with assms regenerate_keys [OF assms] show ?thesis by (simp add: guardAction_def keys_fresh_def)
next
  case (OpenEdit key)
  with assms(2) show ?thesis by (simp add: guardAction_def handleEditMessage_def keys_fresh_def)
next
  case CloseEdit
  with assms(2) show ?thesis by (simp add: handleEditOpenChange_def keys_fresh_def)
next
  case (Configure config enabled)
  with assms(2) show ?thesis by (simp add: keys_fresh_def)
next
  case (EvResponse choice)
  then show ?thesis using same_keys_fresh [OF same_keys_response(1) assms(2)] by simp
next
  case (EvResponseError d e c)
  then show ?thesis using same_keys_fresh [OF same_keys_response(2) assms(2)] by simp
qed (use assms send_keys applyEdit_keys in \<open>auto simp: handleSubmit_def handleSuggestionClick_def\<close>)

text \<open>
  C13. Message keys stay unique: provided \<^verbatim>\<open>nanoid\<close> never repeats an identifier, and the keys of the
  conversation at the start are different from each other and from all that will be drawn, after any
  sequence of user actions (suggestions and edits during generation included), events and answers
  (streaming or not) no two messages have the same key, so editing, deleting and regenerating by key
  address one message.
\<close>

theorem message_keys_unique:
  assumes "inj nanoid" and "keys_fresh nanoid s0"
  shows "distinct (map m_key (s_messages (foldl (\<lambda>s a. act nanoid a s) s0 acts)))"
proof -
  have "keys_fresh nanoid (foldl (\<lambda>s a. act nanoid a s) s0 acts)"
    using assms by (induction acts rule: rev_induct) (simp_all add: act_keys)
  then show ?thesis by (simp add: keys_fresh_def)
qed

theorem message_keys_unique_witness:
  "distinct (map m_key (s_messages (foldl (\<lambda>s a. act (\<lambda>n. replicate n 0) a s) demo_session
     [Send True (js ''a''), Suggest True (js ''Code''), EvMessage 0 Done, Send True (js ''b'')])))"
proof (rule message_keys_unique)
  show "inj (\<lambda>n. replicate n (0::nat))" by (auto simp: inj_def dest: arg_cong [of _ _ length])
  show "keys_fresh (\<lambda>n. replicate n 0) demo_session" by (simp add: keys_fresh_def demo_session_def)
qed

section \<open>Reloading the page\<close>

text \<open>The slot holds the conversation; an empty conversation need not have been saved yet.\<close>

definition in_step :: "'n Session \<Rightarrow> bool" where
  "in_step s \<longleftrightarrow> s_writable s \<and> (s_slot s = Saved (s_messages s) \<or> s_slot s = Absent \<and> s_messages s = [])"

lemma in_step_update [simp]: "in_step (updateMessages f s) = s_writable s"
  by (simp add: in_step_def updateMessages_def saveMessages_def)

lemma in_step_frame [simp]:
  "in_step (s\<lparr>s_toasts := t\<rparr>) = in_step s" "in_step (s\<lparr>s_editing := e\<rparr>) = in_step s" "in_step (s\<lparr>s_ref := r\<rparr>) = in_step s"
  "in_step (s\<lparr>s_config := g, s_enabled := en\<rparr>) = in_step s" "in_step (s\<lparr>s_pending := p\<rparr>) = in_step s"
  "in_step (s\<lparr>s_complete := b\<rparr>) = in_step s" "in_step (closeSource i s) = in_step s"
  by (simp_all add: in_step_def closeSource_def)


lemma writable_ops [simp]:
  "s_writable (updateMessages f s) = s_writable s" "s_writable (closeSource i s) = s_writable s"
  "s_writable (stopStream s) = s_writable s"
  by (simp_all add: updateMessages_def closeSource_def stopStream_def split: option.split)












end
