(* ===== verification/JS_Regex.thy ===== *)
theory JS_Regex
  imports JS_Prelude
begin

text \<open>
  Regular expressions of the language, as far as the program uses them: greedy backtracking with
  captures, back references and word boundaries.  A match state is the code unit before the
  position (if any), the rest of the text and the captures, newest first; matching gives the list
  of all ways to match, in the order in which the backtracking engine would try them.
\<close>

datatype re =
    Lit jstr
  | Cls "nat \<Rightarrow> bool"
  | Seq re re
  | Alt re re
  | Star re
  | Opt re
  | Cap nat re
  | Ref nat
  | Boundary
  | End

type_synonym caps = "(nat \<times> jstr) list"
type_synonym mstate = "nat option \<times> jstr \<times> caps"

fun seq :: "re list \<Rightarrow> re" where
  "seq [] = Lit []"
| "seq [r] = r"
| "seq (r # rs) = Seq r (seq rs)"

fun alts :: "re list \<Rightarrow> re" where
  "alts [] = Cls (\<lambda>_. False)"
| "alts [r] = r"
| "alts (r # rs) = Alt r (alts rs)"

definition plus :: "re \<Rightarrow> re" where
  "plus r = Seq r (Star r)"

definition ws_star :: re where
  "ws_star = Star (Cls is_ws)"

text \<open>Advancing over a matched prefix.\<close>

definition advance :: "nat \<Rightarrow> mstate \<Rightarrow> mstate" where
  "advance n st = (case st of (p, s, c) \<Rightarrow> (if n = 0 then p else Some (s ! (n - 1)), drop n s, c))"

text \<open>Greedy iteration: every iteration has to consume something, so the length of the rest is
  enough fuel.\<close>

fun star_iter :: "(mstate \<Rightarrow> mstate list) \<Rightarrow> nat \<Rightarrow> mstate \<Rightarrow> mstate list" where
  "star_iter f 0 st = [st]"
| "star_iter f (Suc n) st =
     concat (map (star_iter f n) (filter (\<lambda>st'. length (fst (snd st')) < length (fst (snd st))) (f st))) @ [st]"

definition is_word :: "nat option \<Rightarrow> bool" where
  "is_word c = (case c of None \<Rightarrow> False
     | Some c \<Rightarrow> is_digit c \<or> 97 \<le> c \<and> c \<le> 122 \<or> 65 \<le> c \<and> c \<le> 90 \<or> c = 95)"

definition next_unit :: "jstr \<Rightarrow> nat option" where
  "next_unit s = (case s of [] \<Rightarrow> None | c # _ \<Rightarrow> Some c)"

definition cap :: "caps \<Rightarrow> nat \<Rightarrow> jstr option" where
  "cap c n = map_of c n"

primrec rm :: "re \<Rightarrow> mstate \<Rightarrow> mstate list" where
  "rm (Lit l) = (\<lambda>st. if prefix l (fst (snd st)) then [advance (length l) st] else [])"
| "rm (Cls P) = (\<lambda>st. case fst (snd st) of [] \<Rightarrow> [] | x # _ \<Rightarrow> if P x then [advance 1 st] else [])"
| "rm (Seq a b) = (\<lambda>st. concat (map (rm b) (rm a st)))"
| "rm (Alt a b) = (\<lambda>st. rm a st @ rm b st)"
| "rm (Star a) = (\<lambda>st. star_iter (rm a) (length (fst (snd st))) st)"
| "rm (Opt a) = (\<lambda>st. rm a st @ [st])"
| "rm (Cap n a) = (\<lambda>st. map (\<lambda>(p, s, c). (p, s, (n, take (length (fst (snd st)) - length s) (fst (snd st))) # c)) (rm a st))"
| "rm (Ref n) = (\<lambda>st. let l = (case cap (snd (snd st)) n of Some t \<Rightarrow> t | None \<Rightarrow> []) in
     if prefix l (fst (snd st)) then [advance (length l) st] else [])"
| "rm Boundary = (\<lambda>st. if is_word (fst st) \<noteq> is_word (next_unit (fst (snd st))) then [st] else [])"
| "rm End = (\<lambda>st. if fst (snd st) = [] then [st] else [])"

text \<open>Matching from the start of a text (\<^verbatim>\<open>^\<close>): the captures of the first way to match.\<close>

definition match_start :: "re \<Rightarrow> jstr \<Rightarrow> caps option" where
  "match_start r s = (case rm r (None, s, []) of [] \<Rightarrow> None | (_, _, c) # _ \<Rightarrow> Some c)"

text \<open>The leftmost match from a position on: the state after it.\<close>

fun scan :: "re \<Rightarrow> nat option \<Rightarrow> jstr \<Rightarrow> mstate option" where
  "scan r p [] = (case rm r (p, [], []) of [] \<Rightarrow> None | st # _ \<Rightarrow> Some st)"
| "scan r p (x # s) = (case rm r (p, x # s, []) of [] \<Rightarrow> scan r (Some x) s | st # _ \<Rightarrow> Some st)"

text \<open>The captures of all successive matches, as a loop over \<^verbatim>\<open>exec\<close> with the global flag finds them; a
  match that consumes nothing ends the list.\<close>

function scan_all :: "re \<Rightarrow> nat option \<Rightarrow> jstr \<Rightarrow> caps list" where
  "scan_all r p s =
     (case scan r p s of
        None \<Rightarrow> []
      | Some (p', s', c) \<Rightarrow> if length s' < length s then c # scan_all r p' s' else [c])"
  by pat_completeness auto
termination by (relation "measure (\<lambda>(r, p, s). length s)") auto

declare scan_all.simps [simp del]

section \<open>Matching a run of a class\<close>

lemma concat_map_map: "concat (map f (concat (map g xs))) = concat (map (\<lambda>x. concat (map f (g x))) xs)"
  by (induction xs) auto

lemma rm_Seq_assoc: "rm (Seq (Seq a b) k) st = rm (Seq a (Seq b k)) st"
  by (simp add: concat_map_map)

lemma advance_0 [simp]: "advance 0 st = st"
  by (simp add: advance_def split: prod.split)

lemma advance_1 [simp]: "advance (Suc 0) (p, x # s, c) = (Some x, s, c)"
  by (simp add: advance_def)

lemma advance_Suc: "i \<le> length s \<Longrightarrow> advance (Suc i) (p, x # s, c) = advance i (Some x, s, c)"
  by (simp add: advance_def nth_Cons split: nat.split)

text \<open>A greedy run of a class gives all its prefixes, longest first.\<close>

lemma star_list:
  "list_all P w \<Longrightarrow> r = [] \<or> \<not> P (hd r) \<Longrightarrow> length w + length r \<le> n \<Longrightarrow>
   star_iter (rm (Cls P)) n (p, w @ r, c) = map (\<lambda>i. advance i (p, w @ r, c)) (rev [0..<Suc (length w)])"
proof (induction w arbitrary: p n)
  case Nil
  have "rm (Cls P) (p, r, c) = []" using Nil.prems(2) by (cases r) auto
  then show ?case by (cases n) simp_all
next
  case (Cons x w)
  obtain m where n: "n = Suc m" using Cons.prems(3) by (cases n) auto
  have step: "rm (Cls P) (p, (x # w) @ r, c) = [(Some x, w @ r, c)]" using Cons.prems(1) by simp
  have IH: "star_iter (rm (Cls P)) m (Some x, w @ r, c) = map (\<lambda>i. advance i (Some x, w @ r, c)) (rev [0..<Suc (length w)])"
    using Cons.prems n by (intro Cons.IH) auto
  have "map (\<lambda>i. advance i (Some x, w @ r, c)) (rev [0..<Suc (length w)]) =
      map (\<lambda>i. advance (Suc i) (p, (x # w) @ r, c)) (rev [0..<Suc (length w)])"
    by (rule map_cong [OF refl]) (subst append_Cons, subst advance_Suc, auto)
  also have "\<dots> = map (\<lambda>i. advance i (p, (x # w) @ r, c)) (rev [1..<Suc (Suc (length w))])"
    by (simp add: rev_map [symmetric] map_Suc_upt [symmetric] comp_def del: upt_Suc)
  finally have "star_iter (rm (Cls P)) n (p, (x # w) @ r, c) =
      map (\<lambda>i. advance i (p, (x # w) @ r, c)) (rev [1..<Suc (Suc (length w))]) @ [(p, (x # w) @ r, c)]"
    unfolding n star_iter.simps step using IH by simp
  also have "\<dots> = map (\<lambda>i. advance i (p, (x # w) @ r, c)) (rev [0..<Suc (length (x # w))])"
    by (simp add: upt_conv_Cons [of 0] del: upt_Suc)
  finally show ?case .
qed

lemma plus_list:
  assumes "w \<noteq> []" "list_all P w" "r = [] \<or> \<not> P (hd r)"
  shows "rm (plus (Cls P)) (p, w @ r, c) = map (\<lambda>i. advance i (p, w @ r, c)) (rev [1..<Suc (length w)])"
proof -
  obtain x v where w: "w = x # v" using assms(1) by (cases w) auto
  have "rm (plus (Cls P)) (p, w @ r, c) = star_iter (rm (Cls P)) (length (v @ r)) (Some x, v @ r, c)"
    using w assms(2) by (simp add: plus_def)
  also have "\<dots> = map (\<lambda>i. advance i (Some x, v @ r, c)) (rev [0..<Suc (length v)])"
    using w assms by (intro star_list) auto
  also have "\<dots> = map (\<lambda>i. advance (Suc i) (p, w @ r, c)) (rev [0..<Suc (length v)])"
    unfolding w by (rule map_cong [OF refl]) (subst append_Cons, subst advance_Suc, auto)
  also have "\<dots> = map (\<lambda>i. advance i (p, w @ r, c)) (rev [1..<Suc (length w)])"
    by (simp add: w rev_map [symmetric] map_Suc_upt [symmetric] comp_def del: upt_Suc)
  finally show ?thesis .
qed

lemma plus_none: "r = [] \<or> \<not> P (hd r) \<Longrightarrow> rm (plus (Cls P)) (p, r, c) = []"
  by (cases r) (auto simp: plus_def)

lemma cap_plus_list:
  assumes "w \<noteq> []" "list_all P w" "r = [] \<or> \<not> P (hd r)"
  shows "rm (Seq (Cap n (plus (Cls P))) k) (p, w @ r, c) =
    concat (map (\<lambda>i. rm k (Some (w ! (i - 1)), drop i w @ r, (n, take i w) # c)) (rev [1..<Suc (length w)]))"
proof -
  have one: "rm k ((\<lambda>(p', s, c'). (p', s, (n, take (length (w @ r) - length s) (w @ r)) # c')) (advance i (p, w @ r, c))) =
      rm k (Some (w ! (i - 1)), drop i w @ r, (n, take i w) # c)" if "i \<in> set (rev [1..<Suc (length w)])" for i
    using that by (auto simp: advance_def nth_append)
  have "rm (Seq (Cap n (plus (Cls P))) k) (p, w @ r, c) =
      concat (map (\<lambda>i. rm k ((\<lambda>(p', s, c'). (p', s, (n, take (length (w @ r) - length s) (w @ r)) # c')) (advance i (p, w @ r, c))))
        (rev [1..<Suc (length w)]))"
    by (simp only: rm.simps plus_list [OF assms] map_map comp_def fst_conv snd_conv)
  also have "\<dots> = concat (map (\<lambda>i. rm k (Some (w ! (i - 1)), drop i w @ r, (n, take i w) # c)) (rev [1..<Suc (length w)]))"
    by (rule arg_cong [of _ _ concat]) (rule map_cong [OF refl one])
  finally show ?thesis .
qed

text \<open>The continuation \<open>k\<close> cannot start at a code unit of the class \<open>P\<close>.\<close>

definition refuses :: "re \<Rightarrow> (nat \<Rightarrow> bool) \<Rightarrow> bool" where
  "refuses k P \<longleftrightarrow> (\<forall>p x s c. P x \<longrightarrow> rm k (p, x # s, c) = [])"

lemma refuses_Lit: "l \<noteq> [] \<Longrightarrow> \<not> P (hd l) \<Longrightarrow> refuses (Seq (Lit l) k) P"
  by (cases l) (auto simp: refuses_def)

lemma refuses_Lit_only: "l \<noteq> [] \<Longrightarrow> \<not> P (hd l) \<Longrightarrow> refuses (Lit l) P"
  by (cases l) (auto simp: refuses_def)

lemma refuses_End: "refuses End P"
  by (simp add: refuses_def)

lemma cap_run:
  assumes "refuses k P" "w \<noteq> []" "list_all P w" "r = [] \<or> \<not> P (hd r)"
  shows "rm (Seq (Cap n (plus (Cls P))) k) (p, w @ r, c) = rm k (Some (last w), r, (n, w) # c)"
proof -
  have short: "rm k (Some (w ! (i - 1)), drop i w @ r, (n, take i w) # c) = []" if "i < length w" for i
    using that assms(1,3) by (simp add: refuses_def Cons_nth_drop_Suc [symmetric] list_all_length)
  have len: "[1..<Suc (length w)] = [1..<length w] @ [length w]" using assms(2) by (cases w) auto
  have "concat (map (\<lambda>i. rm k (Some (w ! (i - 1)), drop i w @ r, (n, take i w) # c)) (rev [1..<length w])) = []"
    using short by (auto simp: concat_eq_Nil_conv)
  then show ?thesis
    unfolding cap_plus_list [OF assms(2,3,4)] len using assms(2) by (simp add: last_conv_nth)
qed

lemma star_run:
  assumes "refuses k P" "list_all P w" "r = [] \<or> \<not> P (hd r)"
  shows "rm (Seq (Star (Cls P)) k) (p, w @ r, c) = rm k (if w = [] then p else Some (last w), r, c)"
proof -
  have short: "rm k (advance i (p, w @ r, c)) = []" if "i < length w" for i
    using that assms(1,2) by (simp add: advance_def refuses_def Cons_nth_drop_Suc [symmetric] list_all_length)
  have "rm (Seq (Star (Cls P)) k) (p, w @ r, c) = concat (map (rm k) (map (\<lambda>i. advance i (p, w @ r, c)) (rev [0..<Suc (length w)])))"
    by (simp only: rm.simps(3,5) fst_conv snd_conv star_list [OF assms(2,3)] length_append order_refl)
  also have "\<dots> = rm k (advance (length w) (p, w @ r, c)) @ concat (map (\<lambda>i. rm k (advance i (p, w @ r, c))) (rev [0..<length w]))"
    by (simp add: comp_def)
  also have "concat (map (\<lambda>i. rm k (advance i (p, w @ r, c))) (rev [0..<length w])) = []"
    using short by (auto simp: concat_eq_Nil_conv)
  finally show ?thesis by (simp add: advance_def nth_append last_conv_nth)
qed

text \<open>An alternative that starts with a fixed code unit takes no part in a run without that unit.\<close>

lemma star_alt:
  "list_all P w \<Longrightarrow> l \<notin> set w \<Longrightarrow> r = [] \<or> \<not> P (hd r) \<and> hd r \<noteq> l \<Longrightarrow>
   star_iter (rm (Alt (Cls P) (Seq (Lit [l]) b))) n (p, w @ r, c) = star_iter (rm (Cls P)) n (p, w @ r, c)"
proof (induction w arbitrary: p n)
  case Nil
  then show ?case by (cases n; cases r) auto
next
  case (Cons x w)
  have "rm (Alt (Cls P) (Seq (Lit [l]) b)) (p, (x # w) @ r, c) = rm (Cls P) (p, (x # w) @ r, c)"
    using Cons.prems by simp
  moreover have "rm (Cls P) (p, (x # w) @ r, c) = [(Some x, w @ r, c)]" using Cons.prems by simp
  moreover have "star_iter (rm (Alt (Cls P) (Seq (Lit [l]) b))) m (Some x, w @ r, c) = star_iter (rm (Cls P)) m (Some x, w @ r, c)" for m
    using Cons by simp
  ultimately show ?case by (cases n) (simp_all del: rm.simps)
qed

lemma Lit_hit: "rm (Seq (Lit l) k) (p, l @ r, c) = rm k (if l = [] then p else Some (last l), r, c)"
  by (cases "l = []") (simp_all add: advance_def nth_append last_conv_nth)

lemma Lit_miss: "\<not> prefix l s \<Longrightarrow> rm (Seq (Lit l) k) (p, s, c) = []"
  by simp

lemma cap_end:
  assumes "w \<noteq> []" "list_all P w"
  shows "rm (Seq (Cap n (plus (Cls P))) End) (p, w, c) = [(Some (last w), [], (n, w) # c)]"
  using cap_run [of End P w "[]" n p c] assms by (simp add: refuses_End)

text \<open>A greedy run over everything, followed by a literal: the last occurrence of the literal is tried first.\<close>

lemma cap_last:
  assumes "u \<noteq> []" "list_all P (u @ l @ v)" "\<And>i. 0 < i \<Longrightarrow> \<not> prefix l (drop i (l @ v))"
  shows "\<exists>rest. rm (Seq (Cap n (plus (Cls P))) (Seq (Lit l) k)) (p, u @ l @ v, c) =
    rm k (if l = [] then Some (last u) else Some (last l), v, (n, u) # c) @ rest"
proof -
  let ?w = "u @ l @ v"
  let ?f = "\<lambda>i. rm (Seq (Lit l) k) (Some (?w ! (i - 1)), drop i ?w @ [], (n, take i ?w) # c)"
  have "rm (Seq (Cap n (plus (Cls P))) (Seq (Lit l) k)) (p, ?w @ [], c) = concat (map ?f (rev [1..<Suc (length ?w)]))"
    using assms(1,2) by (intro cap_plus_list) auto
  also have "[1..<Suc (length ?w)] = [1..<length u] @ length u # [Suc (length u)..<Suc (length ?w)]"
  proof -
    have "1 \<le> length u" using assms(1) by (cases u) auto
    then have "[1..<Suc (length ?w)] = [1..<length u] @ [length u..<Suc (length ?w)]"
      using upt_add_eq_append [of 1 "length u" "Suc (length l + length v)"] by (simp add: add.assoc del: upt_Suc)
    then show ?thesis by (simp add: upt_conv_Cons del: upt_Suc)
  qed
  also have "concat (map ?f (rev ([1..<length u] @ length u # [Suc (length u)..<Suc (length ?w)]))) =
      concat (map ?f (rev [Suc (length u)..<Suc (length ?w)])) @ ?f (length u) @ concat (map ?f (rev [1..<length u]))"
    by (simp del: upt_Suc rm.simps)
  also have "concat (map ?f (rev [Suc (length u)..<Suc (length ?w)])) = []"
  proof -
    have "?f i = []" if "length u < i" for i
    proof -
      have "drop i ?w = drop (i - length u) (l @ v)" using that by simp
      moreover have "\<not> prefix l (drop (i - length u) (l @ v))" by (rule assms(3)) (use that in simp)
      ultimately show ?thesis by (intro Lit_miss) simp
    qed
    then show ?thesis by (auto simp: concat_eq_Nil_conv simp del: rm.simps upt_Suc)
  qed
  also have "?f (length u) = rm k (if l = [] then Some (last u) else Some (last l), v, (n, u) # c)"
    using assms(1) by (simp add: Lit_hit nth_append last_conv_nth del: rm.simps)
  finally show ?thesis by (simp del: rm.simps)
qed

section \<open>The code units a match consumes\<close>

fun over :: "(nat \<Rightarrow> bool) \<Rightarrow> re \<Rightarrow> bool" where
  "over Q (Lit l) \<longleftrightarrow> list_all Q l"
| "over Q (Cls P) \<longleftrightarrow> (\<forall>x. P x \<longrightarrow> Q x)"
| "over Q (Seq a b) \<longleftrightarrow> over Q a \<and> over Q b"
| "over Q (Alt a b) \<longleftrightarrow> over Q a \<and> over Q b"
| "over Q (Star a) \<longleftrightarrow> over Q a"
| "over Q (Opt a) \<longleftrightarrow> over Q a"
| "over Q (Cap n a) \<longleftrightarrow> over Q a"
| "over Q (Ref n) \<longleftrightarrow> False"
| "over Q Boundary \<longleftrightarrow> True"
| "over Q End \<longleftrightarrow> True"

definition consumes :: "(nat \<Rightarrow> bool) \<Rightarrow> jstr \<Rightarrow> jstr \<Rightarrow> bool" where
  "consumes Q s s' \<longleftrightarrow> (\<exists>w. s = w @ s' \<and> list_all Q w)"

lemma consumes_refl [simp]: "consumes Q s s"
  by (simp add: consumes_def)

lemma consumes_trans: "consumes Q a b \<Longrightarrow> consumes Q b c \<Longrightarrow> consumes Q a c"
  unfolding consumes_def by (metis append.assoc list_all_append)

lemma star_consumes:
  assumes "\<And>st st'. st' \<in> set (f st) \<Longrightarrow> consumes Q (fst (snd st)) (fst (snd st'))"
  shows "st' \<in> set (star_iter f n st) \<Longrightarrow> consumes Q (fst (snd st)) (fst (snd st'))"
proof (induction n arbitrary: st)
  case (Suc n)
  then consider "st' = st" | t where "t \<in> set (f st)" "st' \<in> set (star_iter f n t)" by auto
  then show ?case
  proof cases
    case 2
    then show ?thesis using consumes_trans [OF assms Suc.IH] by blast
  qed simp
qed simp

lemma advance_consumes: "list_all Q (take n (fst (snd st))) \<Longrightarrow> consumes Q (fst (snd st)) (fst (snd (advance n st)))"
  by (cases st) (simp add: consumes_def advance_def, metis append_take_drop_id)

lemma rm_consumes: "over Q r \<Longrightarrow> st' \<in> set (rm r st) \<Longrightarrow> consumes Q (fst (snd st)) (fst (snd st'))"
proof (induction r arbitrary: st st')
  case (Lit l)
  then have "st' = advance (length l) st" "take (length l) (fst (snd st)) = l" by (auto simp: prefix_def split: if_splits)
  then show ?case using Lit advance_consumes [of Q "length l" st] by simp
next
  case (Cls P)
  then obtain x s where "fst (snd st) = x # s" "P x" "st' = advance 1 st"
    by (cases "fst (snd st)") (auto split: if_splits)
  then show ?case using Cls advance_consumes [of Q 1 st] by simp
next
  case (Seq a b)
  then obtain t where "t \<in> set (rm a st)" "st' \<in> set (rm b t)" by auto
  then show ?case using consumes_trans [OF Seq.IH(1) Seq.IH(2)] Seq.prems(1) by auto
next
  case (Alt a b)
  have "st' \<in> set (rm a st) \<or> st' \<in> set (rm b st)" "over Q a" "over Q b" using Alt.prems by simp_all
  then show ?case using Alt.IH by blast
next
  case (Star a)
  then have "st' \<in> set (star_iter (rm a) (length (fst (snd st))) st)" "over Q a" by simp_all
  then show ?case using star_consumes Star.IH by blast
next
  case (Opt a)
  have "st' \<in> set (rm a st) \<or> st' = st" "over Q a" using Opt.prems by auto
  then show ?case using Opt.IH consumes_refl by blast
next
  case (Cap n a)
  then obtain p s c where "(p, s, c) \<in> set (rm a st)" "fst (snd st') = s" by auto
  then show ?case using Cap.IH [of "(p, s, c)" st] Cap.prems(1) by simp
qed (auto split: if_splits)

end
