(* ===== verification/Billing_Expr.thy ===== *)
theory Billing_Expr
  imports JSON JS_Regex
begin

text \<open>
  Request rules of billing expressions: the parser, the printer and the combination with the base
  price of \<^verbatim>\<open>features/pricing/lib/billing-expr.ts\<close>.  The regular expressions of the source are
  transcribed to \<^typ>\<open>re\<close>.
\<close>

section \<open>Constants and types\<close>

definition MATCH_EQ :: jstr where "MATCH_EQ = js ''eq''"
definition MATCH_CONTAINS :: jstr where "MATCH_CONTAINS = js ''contains''"
definition MATCH_GT :: jstr where "MATCH_GT = js ''gt''"
definition MATCH_GTE :: jstr where "MATCH_GTE = js ''gte''"
definition MATCH_LT :: jstr where "MATCH_LT = js ''lt''"
definition MATCH_LTE :: jstr where "MATCH_LTE = js ''lte''"
definition MATCH_EXISTS :: jstr where "MATCH_EXISTS = js ''exists''"
definition MATCH_RANGE :: jstr where "MATCH_RANGE = js ''range''"

definition TIME_FUNCS :: "jstr list" where
  "TIME_FUNCS = map js [''hour'', ''minute'', ''weekday'', ''month'', ''day'']"

datatype Source = Param | Header

record ParamHeaderCondition =
  ph_source :: Source
  ph_path :: jstr
  ph_mode :: jstr
  ph_value :: jstr

record TimeCondition =
  timeFunc :: jstr
  timezone :: jstr
  t_mode :: jstr
  t_value :: jstr
  rangeStart :: jstr
  rangeEnd :: jstr

datatype RequestCondition = TimeCond TimeCondition | PHCond ParamHeaderCondition

record RequestRuleGroup =
  conditions :: "RequestCondition list"
  multiplier :: jstr

text \<open>The outcomes of a parser: an exception, null, or a value.\<close>

datatype 'a outcome = Raised | Null | Found 'a

section \<open>Literals\<close>

definition digits :: re where "digits = Cls is_digit"

text \<open>The pattern \<^verbatim>\<open>/^-?(?:\d+\.?\d*|\.\d+)(?:[eE][+-]?\d+)?$/\<close>.\<close>

definition NUMERIC_LITERAL_REGEX :: re where
  "NUMERIC_LITERAL_REGEX =
     seq [Opt (Lit (js ''-'')),
          Alt (seq [plus digits, Opt (Lit (js ''.'')), Star digits]) (seq [Lit (js ''.''), plus digits]),
          Opt (seq [Cls (\<lambda>c. c = 101 \<or> c = 69), Opt (Cls (\<lambda>c. c = 43 \<or> c = 45)), plus digits]), End]"

definition is_numeric :: "jstr \<Rightarrow> bool" where
  "is_numeric s \<longleftrightarrow> match_start NUMERIC_LITERAL_REGEX s \<noteq> None"

definition num_char :: "nat \<Rightarrow> bool" where
  "num_char c \<longleftrightarrow> is_digit c \<or> c = 46 \<or> c = 101 \<or> c = 69 \<or> c = 43 \<or> c = 45"

definition dot_char :: "nat \<Rightarrow> bool" where
  "dot_char c \<longleftrightarrow> c \<noteq> 10 \<and> c \<noteq> 13 \<and> c \<noteq> 8232 \<and> c \<noteq> 8233"

text \<open>\<^verbatim>\<open>parseExprLiteral\<close>: \<open>None\<close> is null, whether the text is malformed or the value is null.\<close>

definition parseExprLiteral :: "jstr \<Rightarrow> json option" where
  "parseExprLiteral raw =
     (let text = js_trim raw in
      if text = js ''true'' \<or> text = js ''false'' then Some (JStr text)
      else if is_numeric text then Some (JStr text)
      else (case json_parse text of Some j \<Rightarrow> if j = JNull then None else Some j | None \<Rightarrow> None))"

section \<open>Splitting at the top level\<close>

definition depth_step :: "int \<Rightarrow> nat \<Rightarrow> int" where
  "depth_step d c = (if c = 40 then d + 1 else if c = 41 then d - 1 else d)"

text \<open>The loop of both splitters; \<open>cur\<close> is the part read so far, reversed.\<close>

function splitTop :: "jstr \<Rightarrow> int \<Rightarrow> jstr \<Rightarrow> jstr \<Rightarrow> jstr list" where
  "splitTop sep d cur [] = [rev cur]"
| "splitTop sep d cur (c # cs) =
     (if depth_step d c = 0 \<and> prefix sep (c # cs)
      then rev cur # splitTop sep 0 [] (drop (length sep - 1) cs)
      else splitTop sep (depth_step d c) (c # cur) cs)"
  by pat_completeness auto
termination by (relation "measure (\<lambda>(sep, d, cur, s). length s)") auto

definition splitTopLevelMultiply :: "jstr \<Rightarrow> jstr list" where
  "splitTopLevelMultiply expr = filter (\<lambda>p. p \<noteq> []) (map js_trim (splitTop (js '' * '') 0 [] expr))"

definition splitTopLevelAnd :: "jstr \<Rightarrow> jstr list" where
  "splitTopLevelAnd expr = filter (\<lambda>p. p \<noteq> []) (map js_trim (splitTop (js '' && '') 0 [] expr))"

section \<open>Reading conditions\<close>

definition time_name :: re where
  "time_name = Cap 1 (alts (map Lit TIME_FUNCS))"

definition quoted :: "nat \<Rightarrow> re" where
  "quoted n = Cap n (plus (Cls (\<lambda>c. c \<noteq> 34)))"

definition number :: "nat \<Rightarrow> re" where
  "number n = Cap n (plus (Cls num_char))"

definition time_range :: "re list" where
  "time_range = [time_name, Lit (js ''(\"''), quoted 2, Lit (js ''\") >= ''), number 3, Lit (js '' || ''), Ref 1,
     Lit (js ''(\"''), Ref 2, Lit (js ''\") < ''), number 4]"

definition time_range_re :: re where
  "time_range_re = seq (time_range @ [End])"

definition time_range_paren_re :: re where
  "time_range_paren_re = seq (Lit (js ''('') # time_range @ [Lit (js '')''), End])"

definition time_cmp_re :: re where
  "time_cmp_re = seq [time_name, Lit (js ''(\"''), quoted 2, Lit (js ''\") ''),
     Cap 3 (alts (map (Lit \<circ> js) [''=='', ''>='', ''<''])), Lit (js '' ''), number 4, End]"

definition capture :: "caps \<Rightarrow> nat \<Rightarrow> jstr" where
  "capture c n = (case cap c n of Some t \<Rightarrow> t | None \<Rightarrow> [])"

definition rangeCondition :: "caps \<Rightarrow> RequestCondition" where
  "rangeCondition m = TimeCond \<lparr>timeFunc = capture m 1, timezone = capture m 2, t_mode = MATCH_RANGE, t_value = [],
     rangeStart = capture m 3, rangeEnd = capture m 4\<rparr>"

definition timeOpMode :: "jstr \<Rightarrow> jstr" where
  "timeOpMode op = (if op = js ''>='' then MATCH_GTE else if op = js ''<'' then MATCH_LT else MATCH_EQ)"

definition tryParseTimeCondition :: "jstr \<Rightarrow> RequestCondition option" where
  "tryParseTimeCondition expr =
     (case match_start time_range_re expr of
        Some m \<Rightarrow> Some (rangeCondition m)
      | None \<Rightarrow>
     (case match_start time_range_paren_re expr of
        Some m \<Rightarrow> Some (rangeCondition m)
      | None \<Rightarrow>
     (case match_start time_cmp_re expr of
        Some m \<Rightarrow> Some (TimeCond \<lparr>timeFunc = capture m 1, timezone = capture m 2, t_mode = timeOpMode (capture m 3),
          t_value = capture m 4, rangeStart = [], rangeEnd = []\<rparr>)
      | None \<Rightarrow> None)))"

definition header_exists_re :: re where
  "header_exists_re = seq [Lit (js ''header(\"''), quoted 1, Lit (js ''\") != \"\"''), End]"

definition param_exists_re :: re where
  "param_exists_re = seq [Lit (js ''param(\"''), quoted 1, Lit (js ''\") != nil''), End]"

text \<open>The pattern \<^verbatim>\<open>((?:"(?:[^"\\]|\\.)*"))\<close> of a string literal.\<close>

definition string_literal :: "nat \<Rightarrow> re" where
  "string_literal n = Cap n (seq [Lit [34],
     Star (Alt (Cls (\<lambda>c. c \<noteq> 34 \<and> c \<noteq> 92)) (Seq (Lit [92]) (Cls dot_char))), Lit [34]])"

definition header_has_re :: re where
  "header_has_re = seq [Lit (js ''has(header(\"''), quoted 1, Lit (js ''\"), ''), string_literal 2, Lit (js '')''), End]"

definition param_has_re :: re where
  "param_has_re = seq [Lit (js ''param(\"''), quoted 1, Lit (js ''\") != nil && has(param(\"''), quoted 2, Lit (js ''\"), ''),
     string_literal 3, Lit (js '')''), End]"

definition param_cmp_re :: re where
  "param_cmp_re = seq [Lit (js ''param(\"''), quoted 1, Lit (js ''\") != nil && param(\"''), quoted 2, Lit (js ''\") ''),
     Cap 3 (alts (map (Lit \<circ> js) [''>'', ''>='', ''<'', ''<=''])), Lit (js '' ''), number 4, End]"

definition equals_re :: re where
  "equals_re = seq [Cap 1 (Alt (Lit (js ''param'')) (Lit (js ''header''))), Lit (js ''(\"''), quoted 2, Lit (js ''\") == ''),
     Cap 3 (plus (Cls dot_char)), End]"

definition paramOpMode :: "jstr \<Rightarrow> jstr" where
  "paramOpMode op = (if op = js ''>'' then MATCH_GT else if op = js ''>='' then MATCH_GTE
     else if op = js ''<'' then MATCH_LT else MATCH_LTE)"

definition ph :: "Source \<Rightarrow> jstr \<Rightarrow> jstr \<Rightarrow> jstr \<Rightarrow> RequestCondition" where
  "ph s p m v = PHCond \<lparr>ph_source = s, ph_path = p, ph_mode = m, ph_value = v\<rparr>"

text \<open>\<^verbatim>\<open>JSON.parse\<close> of a matched string literal, which raises on an invalid escape.\<close>

definition parsedLiteral :: "Source \<Rightarrow> jstr \<Rightarrow> jstr \<Rightarrow> RequestCondition outcome" where
  "parsedLiteral s p lit = (case json_parse lit of Some (JStr v) \<Rightarrow> Found (ph s p MATCH_CONTAINS v) | _ \<Rightarrow> Raised)"

definition tryParseEquals :: "jstr \<Rightarrow> RequestCondition outcome" where
  "tryParseEquals expr =
     (case match_start equals_re expr of
        None \<Rightarrow> Null
      | Some m \<Rightarrow>
          (case parseExprLiteral (capture m 3) of
             None \<Rightarrow> Null
           | Some j \<Rightarrow>
               (case json_string j of
                  None \<Rightarrow> Raised
                | Some v \<Rightarrow> Found (ph (if capture m 1 = js ''param'' then Param else Header) (capture m 2) MATCH_EQ v))))"

definition tryParseParamCompare :: "jstr \<Rightarrow> RequestCondition outcome" where
  "tryParseParamCompare expr =
     (case match_start param_cmp_re expr of
        Some m \<Rightarrow> if capture m 1 = capture m 2 then Found (ph Param (capture m 1) (paramOpMode (capture m 3)) (capture m 4))
          else tryParseEquals expr
      | None \<Rightarrow> tryParseEquals expr)"

definition tryParseRequestCondition :: "jstr \<Rightarrow> RequestCondition outcome" where
  "tryParseRequestCondition expr =
     (case tryParseTimeCondition expr of
        Some tc \<Rightarrow> Found tc
      | None \<Rightarrow>
     (case match_start header_exists_re expr of
        Some m \<Rightarrow> Found (ph Header (capture m 1) MATCH_EXISTS [])
      | None \<Rightarrow>
     (case match_start param_exists_re expr of
        Some m \<Rightarrow> Found (ph Param (capture m 1) MATCH_EXISTS [])
      | None \<Rightarrow>
     (case match_start header_has_re expr of
        Some m \<Rightarrow> parsedLiteral Header (capture m 1) (capture m 2)
      | None \<Rightarrow>
     (case match_start param_has_re expr of
        Some m \<Rightarrow> if capture m 1 = capture m 2 then parsedLiteral Param (capture m 1) (capture m 3)
          else tryParseParamCompare expr
      | None \<Rightarrow> tryParseParamCompare expr)))))"

section \<open>Reading rules\<close>

fun parseAll :: "('a \<Rightarrow> 'b outcome) \<Rightarrow> 'a list \<Rightarrow> 'b list outcome" where
  "parseAll f [] = Found []"
| "parseAll f (x # xs) =
     (case f x of
        Found y \<Rightarrow> (case parseAll f xs of Found ys \<Rightarrow> Found (y # ys) | Null \<Rightarrow> Null | Raised \<Rightarrow> Raised)
      | Null \<Rightarrow> Null
      | Raised \<Rightarrow> Raised)"

definition group_re :: re where
  "group_re = seq [Lit (js ''(''), Cap 1 (plus (Cls (\<lambda>_. True))), Lit (js '' ? ''), number 2, Lit (js '' : 1)''), End]"

definition tryParseRuleGroupFactor :: "jstr \<Rightarrow> RequestRuleGroup outcome" where
  "tryParseRuleGroupFactor part =
     (case match_start group_re part of
        None \<Rightarrow> Null
      | Some m \<Rightarrow>
          (case parseAll tryParseRequestCondition (map js_trim (splitTopLevelAnd (capture m 1))) of
             Raised \<Rightarrow> Raised
           | Null \<Rightarrow> Null
           | Found cs \<Rightarrow> if cs = [] then Null else Found \<lparr>conditions = cs, multiplier = capture m 2\<rparr>))"

definition tryParseRequestRuleExpr :: "jstr \<Rightarrow> RequestRuleGroup list outcome" where
  "tryParseRequestRuleExpr expr =
     (if js_trim expr = [] then Found []
      else parseAll tryParseRuleGroupFactor (splitTopLevelMultiply (js_trim expr)))"

section \<open>Combining and splitting\<close>

fun outer_loop :: "int \<Rightarrow> jstr \<Rightarrow> bool" where
  "outer_loop d [] = (d = 0)"
| "outer_loop d (c # cs) = (if depth_step d c = 0 \<and> cs \<noteq> [] then False else outer_loop (depth_step d c) cs)"

definition hasFullOuterParens :: "jstr \<Rightarrow> bool" where
  "hasFullOuterParens expr =
     (if expr = [] \<or> hd expr \<noteq> 40 \<or> last expr \<noteq> 41 then False else outer_loop 0 expr)"

definition inner :: "jstr \<Rightarrow> jstr" where
  "inner expr = js_trim (butlast (tl expr))"

lemma inner_shorter: "hasFullOuterParens s \<Longrightarrow> length (inner s) < length s"
proof -
  assume "hasFullOuterParens s"
  then have "s \<noteq> []" by (auto simp: hasFullOuterParens_def)
  have "length (js_trim t) \<le> length t" for t
    unfolding js_trim_def by (metis length_dropWhile_le length_rev order_trans)
  then have "length (js_trim (butlast (tl s))) \<le> length (butlast (tl s))" .
  moreover have "length (butlast (tl s)) < length s" using \<open>s \<noteq> []\<close> by (cases s) auto
  ultimately show ?thesis by (simp add: inner_def)
qed

function unwrapLoop :: "jstr \<Rightarrow> jstr" where
  "unwrapLoop current = (if hasFullOuterParens current then unwrapLoop (inner current) else current)"
  by pat_completeness auto
termination by (relation "measure length") (simp_all add: inner_shorter)

declare unwrapLoop.simps [simp del]

definition unwrapOuterParens :: "jstr \<Rightarrow> jstr" where
  "unwrapOuterParens expr = unwrapLoop (js_trim expr)"

text \<open>Each part with whether it is a rule; reading a part may raise.\<close>

definition classifyPart :: "jstr \<Rightarrow> (jstr \<times> bool) outcome" where
  "classifyPart part =
     (case tryParseRequestRuleExpr part of
        Raised \<Rightarrow> Raised
      | Null \<Rightarrow> Found (part, False)
      | Found gs \<Rightarrow> Found (part, gs \<noteq> []))"

definition splitBillingExprAndRequestRules :: "jstr \<Rightarrow> (jstr \<times> jstr) outcome" where
  "splitBillingExprAndRequestRules expr =
     (let trimmed = js_trim expr; parts = splitTopLevelMultiply trimmed in
      if trimmed = [] then Found ([], [])
      else if length parts \<le> 1 then Found (trimmed, [])
      else (case parseAll classifyPart parts of
         Raised \<Rightarrow> Raised
       | Null \<Rightarrow> Null
       | Found marked \<Rightarrow>
           (let ruleParts = map fst (filter snd marked); baseParts = map fst (filter (\<lambda>m. \<not> snd m) marked) in
            if ruleParts = [] \<or> length baseParts \<noteq> 1 then Found (trimmed, [])
            else Found (unwrapOuterParens (hd baseParts), js_join (js '' * '') ruleParts))))"

definition combineBillingExpr :: "jstr \<Rightarrow> jstr \<Rightarrow> jstr" where
  "combineBillingExpr baseExpr requestRuleExpr =
     (let base = js_trim baseExpr; rules = js_trim requestRuleExpr in
      if base = [] then []
      else if rules = [] then base
      else js ''('' @ base @ js '') * '' @ rules)"

section \<open>The editor\<close>

definition createEmptyCondition :: RequestCondition where
  "createEmptyCondition = ph Param [] MATCH_EQ []"

definition createEmptyTimeCondition :: RequestCondition where
  "createEmptyTimeCondition = TimeCond \<lparr>timeFunc = js ''hour'', timezone = js ''Asia/Shanghai'', t_mode = MATCH_GTE,
     t_value = [], rangeStart = [], rangeEnd = []\<rparr>"

definition createEmptyRuleGroup :: RequestRuleGroup where
  "createEmptyRuleGroup = \<lparr>conditions = [createEmptyCondition], multiplier = []\<rparr>"

definition createEmptyTimeRuleGroup :: RequestRuleGroup where
  "createEmptyTimeRuleGroup = \<lparr>conditions = [createEmptyTimeCondition], multiplier = []\<rparr>"

record MatchOption =
  mo_value :: jstr
  mo_labelKey :: jstr

definition matchOption :: "jstr \<Rightarrow> string \<Rightarrow> MatchOption" where
  "matchOption v label = \<lparr>mo_value = v, mo_labelKey = js label\<rparr>"

definition getRequestRuleMatchOptions :: "jstr \<Rightarrow> MatchOption list" where
  "getRequestRuleMatchOptions src =
     (if src = js ''time'' then
        [matchOption MATCH_EQ ''Equals'', matchOption MATCH_GTE ''Greater than or equal'',
         matchOption MATCH_LT ''Less than'', matchOption MATCH_RANGE ''Overnight range'']
      else
        (let base = [matchOption MATCH_EQ ''Equals'', matchOption MATCH_CONTAINS ''Contains'', matchOption MATCH_EXISTS ''Exists'']
         in if src = js ''header'' then base
            else base @ [matchOption MATCH_GT ''Greater than'', matchOption MATCH_GTE ''Greater than or equal'',
              matchOption MATCH_LT ''Less than'', matchOption MATCH_LTE ''Less than or equal'']))"

text \<open>The fields of a partial condition; null and undefined are \<open>None\<close>.\<close>

record PartialCondition =
  pc_source :: "jstr option"
  pc_path :: "jstr option"
  pc_mode :: "jstr option"
  pc_value :: "jstr option"
  pc_timeFunc :: "jstr option"
  pc_timezone :: "jstr option"
  pc_rangeStart :: "jstr option"
  pc_rangeEnd :: "jstr option"

definition text_or :: "jstr option \<Rightarrow> jstr \<Rightarrow> jstr" where
  "text_or v fallback = (case v of Some t \<Rightarrow> if t = [] then fallback else t | None \<Rightarrow> fallback)"

definition isTimeFunc :: "jstr option \<Rightarrow> bool" where
  "isTimeFunc v = (case v of Some t \<Rightarrow> t \<in> set TIME_FUNCS | None \<Rightarrow> False)"

definition offered :: "jstr \<Rightarrow> jstr option \<Rightarrow> jstr \<Rightarrow> jstr" where
  "offered src m fallback =
     (if list_ex (\<lambda>o'. Some (mo_value o') = m) (getRequestRuleMatchOptions src) then text_or m [] else fallback)"

definition normalizeCondition :: "PartialCondition \<Rightarrow> RequestCondition" where
  "normalizeCondition cond =
     (if pc_source cond = Some (js ''time'') then
        TimeCond
          \<lparr>timeFunc = (if isTimeFunc (pc_timeFunc cond) then text_or (pc_timeFunc cond) [] else js ''hour''),
           timezone = text_or (pc_timezone cond) (js ''Asia/Shanghai''),
           t_mode = offered (js ''time'') (pc_mode cond) MATCH_GTE,
           t_value = text_or (pc_value cond) [],
           rangeStart = text_or (pc_rangeStart cond) [],
           rangeEnd = text_or (pc_rangeEnd cond) []\<rparr>
      else
        (let header = (pc_source cond = Some (js ''header'')) in
         ph (if header then Header else Param) (text_or (pc_path cond) [])
           (offered (if header then js ''header'' else js ''param'') (pc_mode cond) MATCH_EQ)
           (text_or (pc_value cond) [])))"

fun partialOf :: "RequestCondition \<Rightarrow> PartialCondition" where
  "partialOf (TimeCond t) =
     \<lparr>pc_source = Some (js ''time''), pc_path = None, pc_mode = Some (t_mode t), pc_value = Some (t_value t),
      pc_timeFunc = Some (timeFunc t), pc_timezone = Some (timezone t), pc_rangeStart = Some (rangeStart t), pc_rangeEnd = Some (rangeEnd t)\<rparr>"
| "partialOf (PHCond p) =
     \<lparr>pc_source = Some (if ph_source p = Header then js ''header'' else js ''param''), pc_path = Some (ph_path p), pc_mode = Some (ph_mode p),
      pc_value = Some (ph_value p), pc_timeFunc = None, pc_timezone = None, pc_rangeStart = None, pc_rangeEnd = None\<rparr>"

definition buildExprLiteral :: "jstr \<Rightarrow> jstr \<Rightarrow> jstr" where
  "buildExprLiteral m v =
     (let text = js_trim v in
      if m = MATCH_CONTAINS then json_quote text
      else if text = js ''true'' \<or> text = js ''false'' then text
      else if is_numeric text then text
      else json_quote text)"

text \<open>The text of a normalised time condition.\<close>

definition timeExpr :: "TimeCondition \<Rightarrow> jstr" where
  "timeExpr n =
     (let fn = timeFunc n @ js ''('' @ json_quote (timezone n) @ js '')'' in
      if t_mode n = MATCH_RANGE then
        (let s = js_trim (rangeStart n); e = js_trim (rangeEnd n) in
         if \<not> is_numeric s \<or> \<not> is_numeric e then []
         else fn @ js '' >= '' @ s @ js '' || '' @ fn @ js '' < '' @ e)
      else
        (let v = js_trim (t_value n) in
         if \<not> is_numeric v then []
         else fn @ js '' '' @ (if t_mode n = MATCH_GTE then js ''>='' else if t_mode n = MATCH_LT then js ''<'' else js ''=='')
           @ js '' '' @ v))"

definition buildTimeConditionExpr :: "TimeCondition \<Rightarrow> jstr" where
  "buildTimeConditionExpr cond =
     (case normalizeCondition (partialOf (TimeCond cond)) of TimeCond n \<Rightarrow> timeExpr n | PHCond _ \<Rightarrow> [])"

definition phExpr :: "ParamHeaderCondition \<Rightarrow> jstr" where
  "phExpr n =
     (let p = js_trim (ph_path n) in
      if p = [] then []
      else
        (let isHeader = (ph_source n = Header);
             sourceExpr = (if isHeader then js ''header('' else js ''param('') @ json_quote p @ js '')'';
             m = ph_mode n in
         if m = MATCH_EXISTS then sourceExpr @ (if isHeader then js '' != \"\"'' else js '' != nil'')
         else if m = MATCH_CONTAINS then
           (if isHeader then js ''has('' @ sourceExpr @ js '', '' @ buildExprLiteral m (ph_value n) @ js '')''
            else sourceExpr @ js '' != nil && has('' @ sourceExpr @ js '', '' @ buildExprLiteral m (ph_value n) @ js '')'')
         else if m = MATCH_GT \<or> m = MATCH_GTE \<or> m = MATCH_LT \<or> m = MATCH_LTE then
           (let numText = js_trim (ph_value n) in
            if \<not> is_numeric numText then []
            else sourceExpr @ js '' != nil && '' @ sourceExpr @ js '' '' @
              (if m = MATCH_GT then js ''>'' else if m = MATCH_GTE then js ''>='' else if m = MATCH_LT then js ''<'' else js ''<='')
              @ js '' '' @ numText)
         else sourceExpr @ js '' == '' @ buildExprLiteral m (ph_value n)))"

fun buildRequestConditionExpr :: "RequestCondition \<Rightarrow> jstr" where
  "buildRequestConditionExpr (TimeCond t) = buildTimeConditionExpr t"
| "buildRequestConditionExpr (PHCond p) =
     (case normalizeCondition (partialOf (PHCond p)) of PHCond n \<Rightarrow> phExpr n | TimeCond _ \<Rightarrow> [])"

definition protectOr :: "jstr \<Rightarrow> jstr" where
  "protectOr e = (if js_includes e (js '' || '') then js ''('' @ e @ js '')'' else e)"

definition buildRuleGroupFactor :: "RequestRuleGroup \<Rightarrow> jstr" where
  "buildRuleGroupFactor g =
     (let m = js_trim (multiplier g);
          condExprs = filter (\<lambda>e. e \<noteq> []) (map buildRequestConditionExpr (conditions g)) in
      if \<not> is_numeric m then []
      else if condExprs = [] then []
      else
        (let combined = (if length condExprs = 1 then hd condExprs else js_join (js '' && '') (map protectOr condExprs))
         in js ''('' @ combined @ js '' ? '' @ m @ js '' : 1)''))"

definition buildRequestRuleExpr :: "RequestRuleGroup list \<Rightarrow> jstr" where
  "buildRequestRuleExpr groups =
     js_join (js '' * '') (filter (\<lambda>f. f \<noteq> []) (map buildRuleGroupFactor groups))"

end
