(* ===== verification/Billing_Rules.thy ===== *)
theory Billing_Rules
  imports Billing_Expr
begin

text \<open>
  Correctness of the request rules of \<open>Billing_Expr\<close>: rules of the editor are read back from
  the expression they are written as, and combining them with a base price can be undone.
\<close>

section \<open>Texts without structure\<close>

text \<open>Code units that need no escape in a literal and take no part in the expression syntax.\<close>

definition plain_char :: "nat \<Rightarrow> bool" where
  "plain_char c \<longleftrightarrow> 32 \<le> c \<and> c < 55296 \<and> c \<notin> {34, 92, 40, 41, 124, 38, 42, 8232, 8233}"

definition plain :: "jstr \<Rightarrow> bool" where
  "plain s \<longleftrightarrow> list_all plain_char s"

lemma plain_char_quote: "plain_char c \<Longrightarrow> \<not> is_lead c \<and> \<not> is_trail c \<and> quote_char c = [c]"
  by (simp add: plain_char_def is_lead_def is_trail_def quote_char_def)

lemma plain_quote: "plain s \<Longrightarrow> json_quote s = [34] @ s @ [34]"
proof -
  assume "plain s"
  then have "quote_chars s = s"
    unfolding plain_def
    by (induction s rule: quote_chars.induct) (simp_all add: plain_char_quote)
  then show ?thesis by (simp add: json_quote_def)
qed

lemma plain_utf16: "plain s \<Longrightarrow> utf16 s"
  unfolding plain_def utf16_def list_all_iff plain_char_def by fastforce

section \<open>Numeric literals\<close>

lemma numeric_over: "over num_char NUMERIC_LITERAL_REGEX"
  by (simp add: NUMERIC_LITERAL_REGEX_def plus_def digits_def num_char_def)

lemma numeric_rest: "st' \<in> set (rm NUMERIC_LITERAL_REGEX st) \<Longrightarrow> fst (snd st') = []"
proof -
  have last: "fst (snd st') = []" if "st' \<in> set (rm (Seq a b) st)" "\<And>st. st' \<in> set (rm b st) \<Longrightarrow> fst (snd st') = []" for a b st
    using that by auto
  have "fst (snd st') = []" if "st' \<in> set (rm End st)" for st using that by (simp split: if_splits)
  then show "st' \<in> set (rm NUMERIC_LITERAL_REGEX st) \<Longrightarrow> fst (snd st') = []"
    unfolding NUMERIC_LITERAL_REGEX_def seq.simps by (blast intro: last)
qed

lemma numeric_chars: "is_numeric s \<Longrightarrow> s \<noteq> [] \<and> list_all num_char s"
proof -
  assume n: "is_numeric s"
  then obtain st' where st': "st' \<in> set (rm NUMERIC_LITERAL_REGEX (None, s, []))"
    by (auto simp: is_numeric_def match_start_def split: list.splits)
  have "list_all num_char s"
    using rm_consumes [OF numeric_over st'] numeric_rest [OF st'] by (simp add: consumes_def)
  moreover have "\<not> is_numeric []" by code_simp
  ultimately show ?thesis using n by auto
qed

lemma num_char_ws: "num_char c \<Longrightarrow> \<not> is_ws c"
  by (auto simp: num_char_def is_digit_def is_ws_def)

lemma numeric_trim: "is_numeric s \<Longrightarrow> js_trim s = s"
  by (rule js_trim_id) (use numeric_chars [of s] num_char_ws in \<open>auto simp: trimmed_def list_all_iff\<close>)

lemma quoted_not_numeric: "\<not> is_numeric (34 # s)"
  using numeric_chars [of "34 # s"] by (auto simp: num_char_def is_digit_def)

section \<open>Running the patterns\<close>

lemma rx_Lit: "rm (Seq (Lit l) k) (p, s, c) = (if prefix l s then rm k (advance (length l) (p, s, c)) else [])"
  by simp

lemma rx_Ref:
  "rm (Seq (Ref n) k) (p, s, c) =
     (if prefix (capture c n) s then rm k (advance (length (capture c n)) (p, s, c)) else [])"
  by (simp add: capture_def)

lemma advance_append: "advance (length l) (p, l @ r, c) = (if l = [] then p else Some (last l), r, c)"
  by (auto simp: advance_def nth_append last_conv_nth)

lemma rx_End: "rm End (p, s, c) = (if s = [] then [(p, s, c)] else [])"
  by simp

lemma rx_quoted:
  assumes "w \<noteq> []" "34 \<notin> set w"
  shows "rm (Seq (quoted n) (Seq (Lit (34 # l)) k)) (p, w @ 34 # r, c) =
    rm (Seq (Lit (34 # l)) k) (Some (last w), 34 # r, (n, w) # c)"
  unfolding quoted_def using assms
  by (intro cap_run refuses_Lit) (auto simp: list_all_iff)

lemma rx_number:
  assumes "w \<noteq> []" "list_all num_char w" "\<not> num_char x" "\<not> num_char y"
  shows "rm (Seq (number n) (Seq (Lit (x # l)) k)) (p, w @ y # r, c) =
    rm (Seq (Lit (x # l)) k) (Some (last w), y # r, (n, w) # c)"
  unfolding number_def using assms by (intro cap_run refuses_Lit) auto

lemma rx_number_stop:
  assumes "w \<noteq> []" "list_all num_char w" "\<not> num_char x"
  shows "rm (Seq (number n) (Seq (Lit (x # l)) k)) (p, w, c) = []"
proof -
  have "rm (Seq (number n) (Seq (Lit (x # l)) k)) (p, w @ [], c) = rm (Seq (Lit (x # l)) k) (Some (last w), [], (n, w) # c)"
    unfolding number_def using assms by (intro cap_run refuses_Lit) auto
  then show ?thesis by simp
qed

lemma rx_number_End:
  "w \<noteq> [] \<Longrightarrow> list_all num_char w \<Longrightarrow> rm (Seq (number n) End) (p, w, c) = [(Some (last w), [], (n, w) # c)]"
  unfolding number_def by (rule cap_end)

lemma rx_time_name:
  assumes "f \<in> set TIME_FUNCS"
  shows "rm (Seq time_name k) (p, f @ r, c) = rm k (Some (last f), r, (1, f) # c)"
proof -
  have "f = js ''hour'' \<or> f = js ''minute'' \<or> f = js ''weekday'' \<or> f = js ''month'' \<or> f = js ''day''"
    using assms by (simp add: TIME_FUNCS_def del: js_Cons)
  then show ?thesis
    by (elim disjE) (simp_all add: time_name_def TIME_FUNCS_def advance_def)
qed

lemma rx_time_miss:
  "s = [] \<or> hd s = 40 \<or> hd s = 112 \<or> prefix (js ''hea'') s \<or> prefix (js ''has'') s \<Longrightarrow> rm (Seq time_name k) (p, s, c) = []"
  unfolding time_name_def TIME_FUNCS_def by (cases s) (auto simp: prefix_def)

lemma rx_time_op:
  assumes "op \<in> {js ''=='', js ''>='', js ''<''}"
  shows "rm (Seq (Cap 3 (alts [Lit [61, 61], Lit [62, 61], Lit [60]])) k) (p, op @ 32 # r, c) = rm k (Some (last op), 32 # r, (3, op) # c)"
  using assms by (auto simp: advance_def)

lemmas rx = rx_Lit rx_Ref rx_End rx_quoted rx_number rx_number_End advance_append

section \<open>Reading a condition back\<close>

lemma num_char_simps [simp]:
  "\<not> num_char 32" "\<not> num_char 41" "\<not> num_char 34" "\<not> num_char 124" "\<not> num_char 58"
  by (simp_all add: num_char_def is_digit_def)

lemma plain_quote_free: "plain w \<Longrightarrow> 34 \<notin> set w"
  by (auto simp: plain_def list_all_iff plain_char_def)

definition zone_ok :: "jstr \<Rightarrow> bool" where
  "zone_ok z \<longleftrightarrow> z \<noteq> [] \<and> plain z"

lemma time_range_match:
  assumes f: "f \<in> set TIME_FUNCS" and z: "zone_ok z" and a: "is_numeric a" and b: "is_numeric b"
  shows "match_start time_range_re (f @ js ''(\"'' @ z @ js ''\") >= '' @ a @ js '' || '' @ f @ js ''(\"'' @ z @ js ''\") < '' @ b) =
    Some [(4, b), (3, a), (2, z), (1, f)]"
proof -
  have z': "z \<noteq> []" "34 \<notin> set z" using z plain_quote_free by (auto simp: zone_ok_def)
  have n: "a \<noteq> []" "list_all num_char a" "b \<noteq> []" "list_all num_char b"
    using numeric_chars [OF a] numeric_chars [OF b] by auto
  show ?thesis
    unfolding match_start_def time_range_re_def time_range_def
    by (simp add: rx rx_time_name [OF f] z' n capture_def cap_def advance_def del: rm.simps)
qed

lemma time_range_paren_match:
  assumes f: "f \<in> set TIME_FUNCS" and z: "zone_ok z" and a: "is_numeric a" and b: "is_numeric b"
  shows "match_start time_range_paren_re (js ''('' @ f @ js ''(\"'' @ z @ js ''\") >= '' @ a @ js '' || '' @ f @ js ''(\"'' @ z @ js ''\") < '' @ b @ js '')'') =
    Some [(4, b), (3, a), (2, z), (1, f)]"
proof -
  have z': "z \<noteq> []" "34 \<notin> set z" using z plain_quote_free by (auto simp: zone_ok_def)
  have n: "a \<noteq> []" "list_all num_char a" "b \<noteq> []" "list_all num_char b"
    using numeric_chars [OF a] numeric_chars [OF b] by auto
  show ?thesis
    unfolding match_start_def time_range_paren_re_def time_range_def
    by (simp add: rx rx_time_name [OF f] z' n capture_def cap_def advance_def del: rm.simps)
qed

lemma time_cmp_match:
  assumes f: "f \<in> set TIME_FUNCS" and z: "zone_ok z" and a: "is_numeric a" and op: "op \<in> {js ''=='', js ''>='', js ''<''}"
  shows "match_start time_cmp_re (f @ js ''(\"'' @ z @ js ''\") '' @ op @ js '' '' @ a) = Some [(4, a), (3, op), (2, z), (1, f)]"
proof -
  have z': "z \<noteq> []" "34 \<notin> set z" using z plain_quote_free by (auto simp: zone_ok_def)
  have n: "a \<noteq> []" "list_all num_char a" using numeric_chars [OF a] by auto
  show ?thesis
    unfolding match_start_def time_cmp_re_def seq.simps
    by (simp add: rx rx_time_name [OF f] rx_time_op [OF op] z' n advance_def del: rm.simps alts.simps)
qed

lemma time_cmp_not_range:
  assumes f: "f \<in> set TIME_FUNCS" and z: "zone_ok z" and a: "is_numeric a" and op: "op \<in> {js ''=='', js ''>='', js ''<''}"
  shows "match_start time_range_re (f @ js ''(\"'' @ z @ js ''\") '' @ op @ js '' '' @ a) = None"
    and "match_start time_range_paren_re (f @ js ''(\"'' @ z @ js ''\") '' @ op @ js '' '' @ a) = None"
proof -
  have z': "z \<noteq> []" "34 \<notin> set z" using z plain_quote_free by (auto simp: zone_ok_def)
  have n: "a \<noteq> []" "list_all num_char a" using numeric_chars [OF a] by auto
  show "match_start time_range_re (f @ js ''(\"'' @ z @ js ''\") '' @ op @ js '' '' @ a) = None"
    unfolding match_start_def time_range_re_def time_range_def using op
    by (auto simp add: rx rx_time_name [OF f] rx_number_stop z' n advance_def simp del: rm.simps)
  have "f \<noteq> [] \<and> hd f \<noteq> 40" using f by (auto simp: TIME_FUNCS_def)
  then show "match_start time_range_paren_re (f @ js ''(\"'' @ z @ js ''\") '' @ op @ js '' '' @ a) = None"
    unfolding match_start_def time_range_paren_re_def time_range_def
    by (cases f) (auto simp add: rx_Lit simp del: rm.simps)
qed

lemma paren_not_range: "match_start time_range_re (js ''('' @ s) = None"
  unfolding match_start_def time_range_re_def time_range_def by (simp add: rx_time_miss del: rm.simps)

text \<open>A condition on a header or a parameter is no time condition.\<close>

lemma not_time:
  assumes "prefix (js ''header'') s \<or> prefix (js ''param'') s \<or> prefix (js ''has'') s"
  shows "tryParseTimeCondition s = None"
proof -
  have miss: "s = [] \<or> hd s = 40 \<or> hd s = 112 \<or> prefix (js ''hea'') s \<or> prefix (js ''has'') s"
    using assms by (auto simp: prefix_def)
  have "s \<noteq> [] \<and> hd s \<noteq> 40" using assms by (cases s) auto
  then have paren: "\<not> prefix [40] s" by (cases s) auto
  have "match_start time_range_re s = None" "match_start time_cmp_re s = None"
    unfolding match_start_def time_range_re_def time_range_def time_cmp_re_def
    by (simp_all add: rx_time_miss [OF miss] del: rm.simps)
  moreover have "match_start time_range_paren_re s = None"
    unfolding match_start_def time_range_paren_re_def time_range_def using paren by (simp add: rx_Lit del: rm.simps)
  ultimately show ?thesis by (simp add: tryParseTimeCondition_def)
qed

lemma rx_string:
  assumes "plain v"
  shows "rm (Seq (string_literal n) k) (p, 34 # v @ 34 # r, c) = rm k (Some 34, r, (n, 34 # v @ [34]) # c)"
proof -
  let ?P = "\<lambda>c. c \<noteq> 34 \<and> c \<noteq> (92::nat)"
  let ?alt = "Alt (Cls ?P) (Seq (Lit [92]) (Cls dot_char))"
  have v: "list_all ?P v" "92 \<notin> set v" using assms by (auto simp: plain_def list_all_iff plain_char_def)
  have run: "star_iter (rm ?alt) m (q, v @ 34 # r, c) = star_iter (rm (Cls ?P)) m (q, v @ 34 # r, c)" for m q
    by (rule star_alt [OF v]) simp
  have "rm (Seq (Star ?alt) (Lit [34])) (Some 34, v @ 34 # r, c) = rm (Seq (Star (Cls ?P)) (Lit [34])) (Some 34, v @ 34 # r, c)"
    by (simp only: rm.simps(3,5) run)
  also have "\<dots> = rm (Lit [34]) (if v = [] then Some 34 else Some (last v), 34 # r, c)"
    using v by (intro star_run refuses_Lit_only) simp_all
  finally have "rm (Seq (Lit [34]) (Seq (Star ?alt) (Lit [34]))) (p, 34 # v @ 34 # r, c) = [(Some 34, r, c)]"
    by (simp add: rx_Lit del: rm.simps) (simp add: rm.simps(1))
  then show ?thesis
    unfolding string_literal_def seq.simps by (simp del: rm.simps add: rm.simps(3,7))
qed

definition name_ok :: "jstr \<Rightarrow> bool" where
  "name_ok w \<longleftrightarrow> w \<noteq> [] \<and> trimmed w \<and> plain w"

lemma name_ok_simps: "name_ok w \<Longrightarrow> w \<noteq> [] \<and> 34 \<notin> set w"
  using plain_quote_free by (auto simp: name_ok_def)

lemma read_header_exists:
  assumes "name_ok w"
  shows "tryParseRequestCondition (js ''header(\"'' @ w @ js ''\") != \"\"'') = Found (ph Header w MATCH_EXISTS [])"
proof -
  have "match_start header_exists_re (js ''header(\"'' @ w @ js ''\") != \"\"'') = Some [(1, w)]"
    unfolding match_start_def header_exists_re_def using name_ok_simps [OF assms]
    by (simp add: rx advance_def del: rm.simps)
  then show ?thesis
    by (simp add: tryParseRequestCondition_def not_time capture_def cap_def)
qed

lemma read_param_exists:
  assumes "name_ok w"
  shows "tryParseRequestCondition (js ''param(\"'' @ w @ js ''\") != nil'') = Found (ph Param w MATCH_EXISTS [])"
proof -
  have "match_start header_exists_re (js ''param(\"'' @ w @ js ''\") != nil'') = None"
    unfolding match_start_def header_exists_re_def by (simp add: rx_Lit del: rm.simps)
  moreover have "match_start param_exists_re (js ''param(\"'' @ w @ js ''\") != nil'') = Some [(1, w)]"
    unfolding match_start_def param_exists_re_def using name_ok_simps [OF assms]
    by (simp add: rx advance_def del: rm.simps)
  ultimately show ?thesis
    by (simp add: tryParseRequestCondition_def not_time capture_def cap_def)
qed

lemma read_header_contains:
  assumes "name_ok w" "plain v"
  shows "tryParseRequestCondition (js ''has(header(\"'' @ w @ js ''\"), '' @ json_quote v @ js '')'') = Found (ph Header w MATCH_CONTAINS v)"
proof -
  let ?s = "js ''has(header(\"'' @ w @ js ''\"), '' @ json_quote v @ js '')''"
  have "match_start header_exists_re ?s = None" "match_start param_exists_re ?s = None"
    unfolding match_start_def header_exists_re_def param_exists_re_def by (simp_all add: rx_Lit del: rm.simps)
  moreover have "match_start header_has_re ?s = Some [(2, 34 # v @ [34]), (1, w)]"
    unfolding match_start_def header_has_re_def plain_quote [OF assms(2)] using name_ok_simps [OF assms(1)]
    by (simp add: rx rx_string [OF assms(2)] advance_def del: rm.simps)
  moreover have "json_parse (34 # v @ [34]) = Some (JStr v)"
    using json_roundtrip [of "JStr v"] plain_utf16 [OF assms(2)] plain_quote [OF assms(2)] by simp
  ultimately show ?thesis
    by (simp add: tryParseRequestCondition_def not_time parsedLiteral_def capture_def cap_def)
qed

definition value_ok :: "jstr \<Rightarrow> bool" where
  "value_ok v \<longleftrightarrow> trimmed v \<and> plain v"

lemma literal_cases:
  assumes "value_ok v"
  obtains "buildExprLiteral MATCH_EQ v = v" "v = js ''true'' \<or> v = js ''false'' \<or> is_numeric v"
  | "buildExprLiteral MATCH_EQ v = 34 # v @ [34]" "v \<noteq> js ''true''" "v \<noteq> js ''false''" "\<not> is_numeric v"
proof -
  have t: "js_trim v = v" and "plain v" using assms by (auto simp: value_ok_def js_trim_id)
  moreover have "MATCH_EQ \<noteq> MATCH_CONTAINS" by (simp add: MATCH_EQ_def MATCH_CONTAINS_def)
  ultimately have "buildExprLiteral MATCH_EQ v =
      (if v = js ''true'' \<or> v = js ''false'' \<or> is_numeric v then v else 34 # v @ [34])"
    using plain_quote [of v] by (simp add: buildExprLiteral_def Let_def del: js_Cons)
  then show thesis using that by (simp del: js_Cons split: if_splits)
qed

lemma literal_read:
  assumes "value_ok v"
  shows "parseExprLiteral (buildExprLiteral MATCH_EQ v) = Some (JStr v)"
  using assms
proof (cases rule: literal_cases)
  case 1
  moreover have "js_trim v = v" using assms by (simp add: value_ok_def js_trim_id)
  ultimately show ?thesis by (auto simp: parseExprLiteral_def Let_def simp del: js_Cons)
next
  case 2
  have p: "plain v" using assms by (simp add: value_ok_def)
  have "js_trim (34 # v @ [34]) = 34 # v @ [34]" by (rule js_trim_id) (simp add: trimmed_def is_ws_def)
  moreover have "json_parse (34 # v @ [34]) = Some (JStr v)"
    using json_roundtrip [of "JStr v"] plain_utf16 [OF p] plain_quote [OF p] by simp
  ultimately show ?thesis using 2 by (simp add: parseExprLiteral_def Let_def quoted_not_numeric)
qed

lemma literal_chars:
  assumes "value_ok v"
  shows "buildExprLiteral MATCH_EQ v \<noteq> []" "list_all dot_char (buildExprLiteral MATCH_EQ v)"
proof -
  have d: "list_all dot_char v"
    using assms unfolding value_ok_def plain_def
    by (auto elim!: list.pred_mono_strong simp: plain_char_def dot_char_def)
  have "v \<noteq> []" if "v = js ''true'' \<or> v = js ''false'' \<or> is_numeric v" using that numeric_chars by auto
  then have "buildExprLiteral MATCH_EQ v \<noteq> [] \<and> list_all dot_char (buildExprLiteral MATCH_EQ v)"
    using d by (cases rule: literal_cases [OF assms]) (simp_all add: dot_char_def)
  then show "buildExprLiteral MATCH_EQ v \<noteq> []" "list_all dot_char (buildExprLiteral MATCH_EQ v)" by simp_all
qed

definition source_name :: "Source \<Rightarrow> jstr" where
  "source_name src = (if src = Header then js ''header'' else js ''param'')"

lemma read_equals:
  assumes w: "name_ok w" and v: "value_ok v"
  shows "tryParseRequestCondition (source_name src @ js ''(\"'' @ w @ js ''\") == '' @ buildExprLiteral MATCH_EQ v) =
    Found (ph src w MATCH_EQ v)"
proof -
  let ?l = "buildExprLiteral MATCH_EQ v"
  let ?s = "source_name src @ js ''(\"'' @ w @ js ''\") == '' @ ?l"
  note lit = literal_chars [OF v] and nm = name_ok_simps [OF w]
  have none: "match_start header_exists_re ?s = None" "match_start param_exists_re ?s = None"
    "match_start header_has_re ?s = None" "match_start param_has_re ?s = None" "match_start param_cmp_re ?s = None"
    unfolding match_start_def header_exists_re_def param_exists_re_def header_has_re_def param_has_re_def param_cmp_re_def
    using nm by (simp_all add: source_name_def rx advance_def del: rm.simps)
  have "rm (Seq (Cap 1 (Alt (Lit (js ''param'')) (Lit (js ''header'')))) k) (None, source_name src @ r, []) =
      rm k (Some (last (source_name src)), r, [(1, source_name src)])" for k r
    by (simp add: source_name_def advance_def)
  then have "match_start equals_re ?s = Some [(3, ?l), (2, w), (1, source_name src)]"
    unfolding match_start_def equals_re_def seq.simps using nm
    by (simp add: rx cap_end [OF lit] advance_def del: rm.simps)
  then have "tryParseEquals ?s = Found (ph src w MATCH_EQ v)"
    by (cases src) (simp_all add: tryParseEquals_def capture_def cap_def literal_read [OF v] source_name_def)
  moreover have "tryParseTimeCondition ?s = None" by (rule not_time) (simp add: source_name_def)
  ultimately show ?thesis
    by (simp only: tryParseRequestCondition_def tryParseParamCompare_def none option.case)
qed

section \<open>Conditions of the editor\<close>

text \<open>Conditions in the form the editor keeps them, with texts that need no escapes.  The conditions on
  parameters that contain a text or compare with a number are not among them: what is written for
  them is not read back.\<close>

fun cond_ok :: "RequestCondition \<Rightarrow> bool" where
  "cond_ok (TimeCond t) \<longleftrightarrow> timeFunc t \<in> set TIME_FUNCS \<and> zone_ok (timezone t) \<and>
     (if t_mode t = MATCH_RANGE then t_value t = [] \<and> is_numeric (rangeStart t) \<and> is_numeric (rangeEnd t)
      else t_mode t \<in> {MATCH_EQ, MATCH_GTE, MATCH_LT} \<and> is_numeric (t_value t) \<and> rangeStart t = [] \<and> rangeEnd t = [])"
| "cond_ok (PHCond p) \<longleftrightarrow> name_ok (ph_path p) \<and>
     (if ph_mode p = MATCH_EXISTS then ph_value p = []
      else if ph_mode p = MATCH_CONTAINS then ph_source p = Header \<and> value_ok (ph_value p)
      else ph_mode p = MATCH_EQ \<and> value_ok (ph_value p))"

lemmas modes = MATCH_EQ_def MATCH_CONTAINS_def MATCH_GT_def MATCH_GTE_def MATCH_LT_def MATCH_LTE_def MATCH_EXISTS_def MATCH_RANGE_def

lemma mode_neq:
  "MATCH_CONTAINS \<noteq> MATCH_EXISTS" "MATCH_EQ \<noteq> MATCH_EXISTS" "MATCH_EQ \<noteq> MATCH_CONTAINS" "MATCH_EQ \<noteq> MATCH_RANGE"
  "MATCH_GTE \<noteq> MATCH_RANGE" "MATCH_LT \<noteq> MATCH_RANGE" "MATCH_EQ \<noteq> MATCH_GT" "MATCH_EQ \<noteq> MATCH_GTE" "MATCH_EQ \<noteq> MATCH_LT"
  "MATCH_EQ \<noteq> MATCH_LTE" "MATCH_LT \<noteq> MATCH_GTE"
  by (simp_all add: modes)

lemma text_or_Some [simp]: "text_or (Some t) [] = t"
  by (simp add: text_or_def)

lemma normalize_ok: "cond_ok c \<Longrightarrow> normalizeCondition (partialOf c) = c"
proof (cases c)
  case (TimeCond t)
  assume "cond_ok c"
  then have t: "timeFunc t \<in> set TIME_FUNCS" "timezone t \<noteq> []" "t_mode t \<in> {MATCH_EQ, MATCH_GTE, MATCH_LT, MATCH_RANGE}"
    using TimeCond by (auto simp: zone_ok_def split: if_splits)
  then have "offered (js ''time'') (Some (t_mode t)) MATCH_GTE = t_mode t"
    by (auto simp: offered_def getRequestRuleMatchOptions_def matchOption_def)
  then show ?thesis using TimeCond t
    by (simp add: normalizeCondition_def isTimeFunc_def text_or_def [of "Some (timezone t)"] del: js_Cons)
next
  case (PHCond p)
  assume "cond_ok c"
  then have "ph_mode p \<in> {MATCH_EXISTS, MATCH_CONTAINS, MATCH_EQ}" using PHCond by (auto split: if_splits)
  then have "offered (js ''header'') (Some (ph_mode p)) MATCH_EQ = ph_mode p" "offered (js ''param'') (Some (ph_mode p)) MATCH_EQ = ph_mode p"
    by (auto simp: offered_def getRequestRuleMatchOptions_def matchOption_def)
  then show ?thesis using PHCond by (cases "ph_source p") (simp_all add: normalizeCondition_def ph_def)
qed

section \<open>The texts of conditions\<close>

definition neutral :: "jstr \<Rightarrow> bool" where
  "neutral s \<longleftrightarrow> set s \<inter> {38, 42, 40, 41, 124} = {}"

lemma neutral_plain: "plain s \<Longrightarrow> neutral s"
  by (auto simp: plain_def neutral_def list_all_iff plain_char_def)

lemma neutral_numeric: "is_numeric s \<Longrightarrow> neutral s"
  using numeric_chars [of s] by (auto simp: neutral_def list_all_iff num_char_def is_digit_def)

lemma neutral_literal: "value_ok v \<Longrightarrow> neutral (buildExprLiteral MATCH_EQ v)"
  by (cases rule: literal_cases) (auto simp: neutral_def value_ok_def dest!: neutral_plain)

lemma neutral_name: "name_ok w \<Longrightarrow> neutral w"
  by (simp add: name_ok_def neutral_plain)

lemma neutral_time_func: "f \<in> set TIME_FUNCS \<Longrightarrow> neutral f \<and> f \<noteq> [] \<and> \<not> is_ws (hd f)"
  by (auto simp: TIME_FUNCS_def neutral_def is_ws_def)

lemma depth_neutral: "neutral s \<Longrightarrow> foldl depth_step d s = d"
  by (induction s) (auto simp: neutral_def depth_step_def)

definition quiet :: "jstr \<Rightarrow> bool" where
  "quiet e \<longleftrightarrow> e \<noteq> [] \<and> trimmed e \<and> 38 \<notin> set e \<and> 42 \<notin> set e \<and> foldl depth_step 0 e = 0"

lemma includes_bar: "js_includes e (js '' || '') \<Longrightarrow> 124 \<in> set e"
  by (auto simp: js_includes_iff sublist_def)

lemma depth_simps: "depth_step d 40 = d + 1" "depth_step d 41 = d - 1" "c \<noteq> 40 \<Longrightarrow> c \<noteq> 41 \<Longrightarrow> depth_step d c = d"
  by (simp_all add: depth_step_def)

lemma numeric_end: "is_numeric s \<Longrightarrow> \<not> is_ws (last s) \<and> s \<noteq> []"
  using numeric_chars [of s] num_char_ws by (auto simp: list_all_iff)

declare buildRequestConditionExpr.simps [simp del]

definition time_prefix :: "TimeCondition \<Rightarrow> jstr" where
  "time_prefix t = timeFunc t @ js ''(\"'' @ timezone t @ js ''\")''"

lemma time_text:
  assumes "cond_ok (TimeCond t)"
  shows "buildRequestConditionExpr (TimeCond t) =
    (if t_mode t = MATCH_RANGE
     then time_prefix t @ js '' >= '' @ rangeStart t @ js '' || '' @ time_prefix t @ js '' < '' @ rangeEnd t
     else time_prefix t @ js '' '' @ (if t_mode t = MATCH_GTE then js ''>='' else if t_mode t = MATCH_LT then js ''<'' else js ''=='')
       @ js '' '' @ t_value t)"
proof -
  have z: "json_quote (timezone t) = [34] @ timezone t @ [34]" using assms by (simp add: plain_quote zone_ok_def)
  have b: "buildRequestConditionExpr (TimeCond t) = timeExpr t"
    using normalize_ok [OF assms] by (simp add: buildRequestConditionExpr.simps buildTimeConditionExpr_def)
  show ?thesis
  proof (cases "t_mode t = MATCH_RANGE")
    case True
    then have "is_numeric (rangeStart t)" "is_numeric (rangeEnd t)" using assms by simp_all
    then show ?thesis unfolding b using True by (simp add: timeExpr_def Let_def z time_prefix_def numeric_trim)
  next
    case False
    then have "is_numeric (t_value t)" using assms by simp
    then show ?thesis unfolding b using False by (simp add: timeExpr_def Let_def z time_prefix_def numeric_trim)
  qed
qed

lemma ph_text:
  assumes "cond_ok (PHCond p)"
  shows "buildRequestConditionExpr (PHCond p) =
    (if ph_mode p = MATCH_EXISTS
     then source_name (ph_source p) @ js ''(\"'' @ ph_path p @ (if ph_source p = Header then js ''\") != \"\"'' else js ''\") != nil'')
     else if ph_mode p = MATCH_CONTAINS then js ''has(header(\"'' @ ph_path p @ js ''\"), '' @ json_quote (ph_value p) @ js '')''
     else source_name (ph_source p) @ js ''(\"'' @ ph_path p @ js ''\") == '' @ buildExprLiteral MATCH_EQ (ph_value p))"
proof -
  have nm: "name_ok (ph_path p)" using assms by simp
  then have z: "json_quote (ph_path p) = [34] @ ph_path p @ [34]" "js_trim (ph_path p) = ph_path p" "ph_path p \<noteq> []"
    by (simp_all add: plain_quote name_ok_def js_trim_id)
  have b: "buildRequestConditionExpr (PHCond p) = phExpr p"
    using normalize_ok [OF assms] by (simp add: buildRequestConditionExpr.simps)
  have m: "ph_mode p \<in> {MATCH_EXISTS, MATCH_CONTAINS, MATCH_EQ}" using assms by (auto split: if_splits)
  consider "ph_mode p = MATCH_EXISTS" | "ph_mode p = MATCH_CONTAINS" "ph_source p = Header" "value_ok (ph_value p)" | "ph_mode p = MATCH_EQ"
    using m assms by (auto simp: mode_neq)
  then show ?thesis
  proof cases
    case 2
    then have "buildExprLiteral MATCH_CONTAINS (ph_value p) = json_quote (ph_value p)"
      by (simp add: buildExprLiteral_def value_ok_def js_trim_id)
    then show ?thesis unfolding b using 2 by (simp add: phExpr_def Let_def z mode_neq)
  qed (simp_all add: b phExpr_def Let_def z source_name_def mode_neq)
qed

lemma time_read:
  assumes "cond_ok (TimeCond t)"
  shows "tryParseRequestCondition (buildRequestConditionExpr (TimeCond t)) = Found (TimeCond t)"
    and "t_mode t = MATCH_RANGE \<Longrightarrow>
      tryParseRequestCondition (js ''('' @ buildRequestConditionExpr (TimeCond t) @ js '')'') = Found (TimeCond t)"
proof -
  have f: "timeFunc t \<in> set TIME_FUNCS" and z: "zone_ok (timezone t)" using assms by simp_all
  have found: "tryParseRequestCondition s = Found c" if "tryParseTimeCondition s = Some c" for s c
    using that by (simp add: tryParseRequestCondition_def)
  have range: "rangeCondition [(4, b), (3, a), (2, timezone t), (1, timeFunc t)] = TimeCond t"
    if "t_mode t = MATCH_RANGE" "a = rangeStart t" "b = rangeEnd t" for a b
    using that assms by (simp add: rangeCondition_def capture_def cap_def)
  show "tryParseRequestCondition (buildRequestConditionExpr (TimeCond t)) = Found (TimeCond t)"
  proof (cases "t_mode t = MATCH_RANGE")
    case True
    then have n: "is_numeric (rangeStart t)" "is_numeric (rangeEnd t)" using assms by simp_all
    show ?thesis
      using time_range_match [OF f z n] range [OF True refl refl]
      by (intro found) (simp add: time_text [OF assms] True time_prefix_def tryParseTimeCondition_def)
  next
    case False
    define op where "op = (if t_mode t = MATCH_GTE then js ''>='' else if t_mode t = MATCH_LT then js ''<'' else js ''=='')"
    have n: "is_numeric (t_value t)" and op: "op \<in> {js ''=='', js ''>='', js ''<''}"
      using assms False by (auto simp: op_def)
    have "timeOpMode op = t_mode t" using assms False by (auto simp: op_def timeOpMode_def mode_neq)
    then have "tryParseTimeCondition (timeFunc t @ js ''(\"'' @ timezone t @ js ''\") '' @ op @ js '' '' @ t_value t) = Some (TimeCond t)"
      unfolding tryParseTimeCondition_def time_cmp_not_range [OF f z n op] time_cmp_match [OF f z n op]
      using assms False by (simp add: capture_def cap_def)
    then show ?thesis
      by (intro found) (simp add: time_text [OF assms] False time_prefix_def op_def)
  qed
  show "tryParseRequestCondition (js ''('' @ buildRequestConditionExpr (TimeCond t) @ js '')'') = Found (TimeCond t)"
    if True: "t_mode t = MATCH_RANGE"
  proof -
    have n: "is_numeric (rangeStart t)" "is_numeric (rangeEnd t)" using assms True by simp_all
    have "tryParseTimeCondition (js ''('' @ timeFunc t @ js ''(\"'' @ timezone t @ js ''\") >= '' @ rangeStart t @ js '' || '' @
        timeFunc t @ js ''(\"'' @ timezone t @ js ''\") < '' @ rangeEnd t @ js '')'') = Some (TimeCond t)"
      unfolding tryParseTimeCondition_def paren_not_range time_range_paren_match [OF f z n] using range [OF True refl refl] by simp
    then show ?thesis
      by (intro found) (simp add: time_text [OF assms] True time_prefix_def)
  qed
qed

lemma ph_read:
  assumes "cond_ok (PHCond p)"
  shows "tryParseRequestCondition (buildRequestConditionExpr (PHCond p)) = Found (PHCond p)"
proof -
  have nm: "name_ok (ph_path p)" using assms by simp
  have p: "PHCond p = ph (ph_source p) (ph_path p) (ph_mode p) (ph_value p)" by (simp add: ph_def)
  consider "ph_mode p = MATCH_EXISTS" "ph_value p = []" | "ph_mode p = MATCH_CONTAINS" "ph_source p = Header" "value_ok (ph_value p)"
    | "ph_mode p = MATCH_EQ" "value_ok (ph_value p)"
    using assms by (auto split: if_splits)
  then show ?thesis
  proof cases
    case 1
    then show ?thesis
      unfolding ph_text [OF assms] using read_header_exists [OF nm] read_param_exists [OF nm] p
      by (cases "ph_source p") (simp_all add: source_name_def)
  next
    case 2
    then show ?thesis
      unfolding ph_text [OF assms] using read_header_contains [OF nm, of "ph_value p"] p by (simp add: mode_neq value_ok_def)
  next
    case 3
    then show ?thesis
      unfolding ph_text [OF assms] using read_equals [OF nm 3(2), of "ph_source p"] p by (simp add: mode_neq)
  qed
qed

lemma literal_end:
  assumes "value_ok v"
  shows "\<not> is_ws (last (buildExprLiteral MATCH_EQ v))"
  using assms
proof (cases rule: literal_cases)
  case 1
  have "\<not> is_ws (last (js ''true''))" "\<not> is_ws (last (js ''false''))" by (simp_all add: is_ws_def)
  then show ?thesis using 1 numeric_end [of v] by (elim disjE) (simp_all only: simp_thms)
next
  case 2
  then show ?thesis by (simp add: is_ws_def)
qed

text \<open>The text of a condition is one part of a conjunction.\<close>

lemma quiet_cond: "cond_ok c \<Longrightarrow> quiet (buildRequestConditionExpr c)"
proof (cases c)
  case (TimeCond t)
  assume c: "cond_ok c"
  then have ok: "cond_ok (TimeCond t)" unfolding TimeCond .
  note f = neutral_time_func [of "timeFunc t"]
  have z: "neutral (timezone t)" and fn: "timeFunc t \<in> set TIME_FUNCS" using ok by (auto simp: zone_ok_def neutral_plain)
  have pre: "foldl depth_step d (time_prefix t) = d" "38 \<notin> set (time_prefix t)" "42 \<notin> set (time_prefix t)"
    "time_prefix t \<noteq> []" "\<not> is_ws (hd (time_prefix t))" for d
    using f [OF fn] z by (auto simp: time_prefix_def depth_neutral depth_simps neutral_def)
  show ?thesis
  proof (cases "t_mode t = MATCH_RANGE")
    case True
    then have n: "is_numeric (rangeStart t)" "is_numeric (rangeEnd t)" using ok by simp_all
    show ?thesis
      unfolding quiet_def TimeCond time_text [OF ok] using True pre numeric_end [OF n(2)] n [THEN neutral_numeric]
      by (simp add: trimmed_def depth_neutral depth_simps) (simp add: neutral_def)
  next
    case False
    then have n: "is_numeric (t_value t)" using ok by simp
    show ?thesis
      unfolding quiet_def TimeCond time_text [OF ok] using False pre numeric_end [OF n] neutral_numeric [OF n]
      by (simp add: trimmed_def depth_neutral depth_simps) (simp add: neutral_def)
  qed
next
  case (PHCond p)
  assume c: "cond_ok c"
  then have ok: "cond_ok (PHCond p)" unfolding PHCond .
  have nm: "neutral (ph_path p)" using ok by (simp add: neutral_name)
  consider "ph_mode p = MATCH_EXISTS" "ph_value p = []" | "ph_mode p = MATCH_CONTAINS" "value_ok (ph_value p)"
    | "ph_mode p = MATCH_EQ" "value_ok (ph_value p)"
    using ok by (auto split: if_splits)
  then show ?thesis
  proof cases
    case 1
    then show ?thesis unfolding quiet_def PHCond ph_text [OF ok] using nm
      by (simp add: source_name_def trimmed_def depth_neutral depth_simps is_ws_def) (simp add: neutral_def)
  next
    case 2
    then have v: "plain (ph_value p)" "neutral (ph_value p)" by (simp_all add: value_ok_def neutral_plain)
    then show ?thesis unfolding quiet_def PHCond ph_text [OF ok] using nm 2
      by (simp add: mode_neq plain_quote trimmed_def depth_neutral depth_simps is_ws_def) (simp add: neutral_def)
  next
    case 3
    note l = literal_end [OF 3(2)] literal_chars(1) [OF 3(2)]
    show ?thesis unfolding quiet_def PHCond ph_text [OF ok] using l nm 3(1) neutral_literal [OF 3(2)]
      by (simp add: mode_neq source_name_def trimmed_def depth_neutral depth_simps is_ws_def) (simp add: neutral_def)
  qed
qed

lemma bar_range: "cond_ok (TimeCond t) \<Longrightarrow> t_mode t \<noteq> MATCH_RANGE \<Longrightarrow> 124 \<notin> set (buildRequestConditionExpr (TimeCond t))"
proof -
  assume ok: "cond_ok (TimeCond t)" and m: "t_mode t \<noteq> MATCH_RANGE"
  have z: "neutral (timezone t)" "timeFunc t \<in> set TIME_FUNCS" "is_numeric (t_value t)"
    using ok m by (auto simp: zone_ok_def neutral_plain)
  show ?thesis
    using z(1) neutral_numeric [OF z(3)] neutral_time_func [OF z(2)]
    unfolding time_text [OF ok] by (simp add: m time_prefix_def neutral_def)
qed

lemma bar_ph: "cond_ok (PHCond p) \<Longrightarrow> 124 \<notin> set (buildRequestConditionExpr (PHCond p))"
proof -
  assume ok: "cond_ok (PHCond p)"
  have nm: "neutral (ph_path p)" using ok by (simp add: neutral_name)
  consider "ph_mode p = MATCH_EXISTS" | "ph_mode p = MATCH_CONTAINS" "value_ok (ph_value p)" | "ph_mode p = MATCH_EQ" "value_ok (ph_value p)"
    using ok by (auto split: if_splits)
  then show ?thesis
  proof cases
    case 1
    then show ?thesis using nm unfolding ph_text [OF ok] by (simp add: source_name_def neutral_def)
  next
    case 2
    then have "plain (ph_value p)" "neutral (ph_value p)" by (simp_all add: value_ok_def neutral_plain)
    then show ?thesis using nm 2(1) unfolding ph_text [OF ok] by (simp add: plain_quote mode_neq neutral_def)
  next
    case 3
    then show ?thesis using nm neutral_literal [OF 3(2)] unfolding ph_text [OF ok] by (simp add: source_name_def mode_neq neutral_def)
  qed
qed

lemma protected_read:
  assumes "cond_ok c"
  shows "tryParseRequestCondition (protectOr (buildRequestConditionExpr c)) = Found c"
proof (cases c)
  case (TimeCond t)
  have ok: "cond_ok (TimeCond t)" using assms unfolding TimeCond .
  show ?thesis
  proof (cases "t_mode t = MATCH_RANGE")
    case True
    then show ?thesis using time_read [OF ok] TimeCond by (simp add: protectOr_def del: js_Cons)
  next
    case False
    then have "\<not> js_includes (buildRequestConditionExpr c) (js '' || '')" using bar_range [OF ok] includes_bar TimeCond by blast
    then show ?thesis using time_read(1) [OF ok] TimeCond by (simp add: protectOr_def del: js_Cons)
  qed
next
  case (PHCond p)
  then have "\<not> js_includes (buildRequestConditionExpr c) (js '' || '')" using bar_ph assms includes_bar by blast
  then show ?thesis using assms ph_read [of p] PHCond by (simp add: protectOr_def del: js_Cons)
qed

end
