(* ===== verification/Billing_Groups.thy ===== *)
theory Billing_Groups
  imports Billing_Rules
begin

text \<open>
  Rule groups and whole billing expressions of \<^verbatim>\<open>features/pricing/lib/billing-expr.ts\<close>: the splitters cut
  a joined text at its separators only, so that the printed rules are read back, and a base price
  combined with rules is taken apart again.
\<close>

section \<open>Cutting at the top level\<close>

text \<open>No separator starts inside \<open>s\<close> at depth zero, whatever follows.\<close>

fun unsplit :: "jstr \<Rightarrow> int \<Rightarrow> jstr \<Rightarrow> jstr \<Rightarrow> bool" where
  "unsplit sep d [] r = True"
| "unsplit sep d (c # cs) r = (\<not> (depth_step d c = 0 \<and> prefix sep (c # cs @ r)) \<and> unsplit sep (depth_step d c) cs r)"

lemma splitTop_run:
  "unsplit sep d s r \<Longrightarrow> splitTop sep d cur (s @ r) = splitTop sep (foldl depth_step d s) (rev s @ cur) r"
  by (induction sep d s r arbitrary: cur rule: unsplit.induct) auto

lemma unsplit_free: "x \<notin> set s \<Longrightarrow> s = [] \<or> last s \<noteq> 32 \<Longrightarrow> unsplit (32 # x # ys) d s r"
proof (induction s arbitrary: d)
  case (Cons c cs)
  then have "\<not> prefix (32 # x # ys) (c # cs @ r)" by (cases cs) auto
  then show ?case using Cons by (auto split: if_splits)
qed simp

lemma unsplit_parens: "outer_loop d s \<Longrightarrow> s = [] \<or> last s \<noteq> 32 \<Longrightarrow> unsplit (32 # ys) d s r"
  by (induction d s rule: outer_loop.induct) (auto split: if_splits)

lemma outer_balanced: "outer_loop d s \<Longrightarrow> foldl depth_step d s = 0"
  by (induction d s rule: outer_loop.induct) (auto split: if_splits)

definition part :: "jstr \<Rightarrow> jstr \<Rightarrow> bool" where
  "part sep p \<longleftrightarrow> p \<noteq> [] \<and> trimmed p \<and> (\<forall>r. unsplit sep 0 p r) \<and> foldl depth_step 0 p = 0"

lemma split_join:
  assumes "\<forall>p \<in> set ps. part (32 # sep) p" "ps \<noteq> []"
  shows "splitTop (32 # sep) 0 [] (js_join (32 # sep) ps) = ps"
  using assms
proof (induction ps)
  case (Cons p ps)
  then have p: "\<And>r. unsplit (32 # sep) 0 p r" "foldl depth_step 0 p = 0" by (auto simp: part_def)
  show ?case
  proof (cases "ps = []")
    case True
    then show ?thesis using splitTop_run [OF p(1), of "[]" "[]"] by simp
  next
    case False
    then show ?thesis using Cons splitTop_run [OF p(1), of "[]" "32 # sep @ js_join (32 # sep) ps"] p(2)
      by (simp add: js_join_Cons depth_step_def)
  qed
qed simp

lemma split_parts:
  assumes "\<forall>p \<in> set ps. part (32 # sep) p" "ps \<noteq> []"
  shows "filter (\<lambda>p. p \<noteq> []) (map js_trim (splitTop (32 # sep) 0 [] (js_join (32 # sep) ps))) = ps"
proof -
  have "map js_trim ps = ps" by (rule map_idI) (use assms in \<open>auto simp: part_def js_trim_id\<close>)
  moreover have "filter (\<lambda>p. p \<noteq> []) ps = ps" using assms by (auto simp: part_def)
  ultimately show ?thesis using split_join [OF assms] by simp
qed

lemma not_ws_space: "\<not> is_ws c \<Longrightarrow> c \<noteq> 32"
  by (auto simp: is_ws_def)

lemma quiet_part: "quiet e \<Longrightarrow> x = 38 \<or> x = 42 \<Longrightarrow> part (32 # x # ys) e"
  unfolding part_def quiet_def trimmed_def using unsplit_free not_ws_space by blast

lemma quiet_part_star:
  "42 \<notin> set e \<Longrightarrow> foldl depth_step 0 e = 0 \<Longrightarrow> e \<noteq> [] \<Longrightarrow> trimmed e \<Longrightarrow> part (32 # 42 # ys) e"
  unfolding part_def trimmed_def using unsplit_free not_ws_space by blast

lemma depth_shift: "foldl depth_step (d + k) e = foldl depth_step d e + k"
proof (induction e arbitrary: d)
  case (Cons c e)
  then show ?case using Cons [of "depth_step d c"] by (simp add: depth_step_def algebra_simps split: if_splits)
qed simp

lemma quiet_parens: "quiet e \<Longrightarrow> quiet (js ''('' @ e @ js '')'')"
  using depth_shift [of 0 1 e] by (auto simp: quiet_def trimmed_def is_ws_def depth_simps)

lemma quiet_protect: "quiet e \<Longrightarrow> quiet (protectOr e)"
  using quiet_parens by (simp add: protectOr_def del: js_Cons)

section \<open>Groups\<close>

definition group_ok :: "RequestRuleGroup \<Rightarrow> bool" where
  "group_ok g \<longleftrightarrow> conditions g \<noteq> [] \<and> list_all cond_ok (conditions g) \<and> is_numeric (multiplier g)"

text \<open>The texts of the conditions of a group, as they stand in the conjunction.\<close>

definition pieces :: "RequestRuleGroup \<Rightarrow> jstr list" where
  "pieces g = (if length (conditions g) = 1 then map buildRequestConditionExpr (conditions g)
     else map (protectOr \<circ> buildRequestConditionExpr) (conditions g))"

lemma pieces_quiet: "group_ok g \<Longrightarrow> e \<in> set (pieces g) \<Longrightarrow> quiet e"
  using quiet_cond quiet_protect by (auto simp: group_ok_def pieces_def list_all_iff split: if_splits)

lemma pieces_nonempty: "group_ok g \<Longrightarrow> pieces g \<noteq> []"
  by (auto simp: group_ok_def pieces_def)

lemma group_text:
  assumes "group_ok g"
  shows "buildRuleGroupFactor g = js ''('' @ js_join (js '' && '') (pieces g) @ js '' ? '' @ multiplier g @ js '' : 1)''"
proof -
  have "buildRequestConditionExpr c \<noteq> []" if "c \<in> set (conditions g)" for c
    using that assms quiet_cond [of c] by (auto simp: group_ok_def list_all_iff quiet_def)
  then have f: "filter (\<lambda>e. e \<noteq> []) (map buildRequestConditionExpr (conditions g)) = map buildRequestConditionExpr (conditions g)"
    by (auto simp: filter_id_conv)
  have m: "js_trim (multiplier g) = multiplier g" "is_numeric (multiplier g)" "conditions g \<noteq> []"
    using assms by (auto simp: group_ok_def numeric_trim)
  show ?thesis
  proof (cases "length (conditions g) = 1")
    case True
    then obtain c where "conditions g = [c]" by (auto simp: length_Suc_conv)
    then show ?thesis using f m by (simp add: buildRuleGroupFactor_def pieces_def Let_def del: js_Cons)
  next
    case False
    then show ?thesis using f m by (simp add: buildRuleGroupFactor_def pieces_def Let_def comp_def del: js_Cons)
  qed
qed

lemma group_match:
  assumes "u \<noteq> []" "is_numeric m"
  shows "match_start group_re (js ''('' @ u @ js '' ? '' @ m @ js '' : 1)'') = Some [(2, m), (1, u)]"
proof -
  have n: "m \<noteq> []" "list_all num_char m" using numeric_chars [OF assms(2)] by simp_all
  let ?v = "m @ js '' : 1)''"
  let ?k = "seq [number 2, Lit (js '' : 1)''), End]"
  have q: "63 \<notin> set ?v" using n by (auto simp: list_all_iff num_char_def is_digit_def)
  have last: "\<not> prefix (js '' ? '') (drop i (js '' ? '' @ ?v))" if "0 < i" for i
  proof
    assume "prefix (js '' ? '') (drop i (js '' ? '' @ ?v))"
    then obtain w where "drop i (js '' ? '' @ ?v) = js '' ? '' @ w" by (auto simp: prefix_def)
    then have "63 \<in> set (drop 1 (drop i (js '' ? '' @ ?v)))" by (simp add: drop_Cons split: nat.splits)
    moreover have "set (drop 1 (drop i (js '' ? '' @ ?v))) \<subseteq> set (drop 2 (js '' ? '' @ ?v))"
      unfolding drop_drop using that by (intro set_drop_subset_set_drop) simp
    ultimately show False using q by auto
  qed
  obtain rest where rest: "rm (Seq (Cap 1 (plus (Cls (\<lambda>_. True)))) (Seq (Lit (js '' ? '')) ?k)) (Some 40, u @ js '' ? '' @ ?v, []) =
      rm ?k (if js '' ? '' = [] then Some (last u) else Some (last (js '' ? '')), ?v, [(1, u)]) @ rest"
    using cap_last [OF assms(1) _ last, of "\<lambda>_. True" 1 ?k "Some 40" "[]"] by (auto simp: list_all_iff simp del: js_Cons)
  have k: "rm ?k (p, ?v, [(1, u)]) = [(Some 41, [], [(2, m), (1, u)])]" for p
  proof -
    have "rm ?k (p, ?v, [(1, u)]) = rm (Seq (Lit (32 # js '': 1)'')) End) (Some (last m), 32 # js '': 1)'', (2, m) # [(1, u)])"
      using rx_number [OF n num_char_simps(1) num_char_simps(1), of 2 "js '': 1)''" End p "js '': 1)''" "[(1, u)]"] by (simp only: seq.simps js_Cons of_char_eq_iff) simp
    then show ?thesis by (simp add: advance_def)
  qed
  have "rm group_re (None, js ''('' @ u @ js '' ? '' @ m @ js '' : 1)'', []) =
      rm (Seq (Cap 1 (plus (Cls (\<lambda>_. True)))) (Seq (Lit (js '' ? '')) ?k)) (Some 40, u @ js '' ? '' @ ?v, [])"
    unfolding group_re_def by (simp add: advance_def)
  also have "\<dots> = (Some 41, [], [(2, m), (1, u)]) # rest" unfolding rest k by simp
  finally show ?thesis by (simp add: match_start_def)
qed

lemma parseAll_map: "(\<And>x. x \<in> set xs \<Longrightarrow> f (h x) = Found (k x)) \<Longrightarrow> parseAll f (map h xs) = Found (map k xs)"
  by (induction xs) auto

lemma pieces_read:
  assumes "group_ok g"
  shows "parseAll tryParseRequestCondition (pieces g) = Found (conditions g)"
proof -
  have ok: "cond_ok c" if "c \<in> set (conditions g)" for c using that assms by (auto simp: group_ok_def list_all_iff)
  have one: "tryParseRequestCondition (buildRequestConditionExpr c) = Found c" if "cond_ok c" for c
    using that time_read(1) ph_read by (cases c) blast+
  show ?thesis
  proof (cases "length (conditions g) = 1")
    case True
    then show ?thesis using parseAll_map [of "conditions g" tryParseRequestCondition buildRequestConditionExpr id] one ok
      by (simp add: pieces_def)
  next
    case False
    then show ?thesis
      using parseAll_map [of "conditions g" tryParseRequestCondition "protectOr \<circ> buildRequestConditionExpr" id] protected_read ok
      by (simp add: pieces_def)
  qed
qed

lemma group_read:
  assumes "group_ok g"
  shows "tryParseRuleGroupFactor (buildRuleGroupFactor g) = Found g"
proof -
  have q: "\<forall>e \<in> set (pieces g). part (32 # 38 # js ''& '') e" using pieces_quiet [OF assms] quiet_part by blast
  have "js_join (js '' && '') (pieces g) \<noteq> []"
    using q pieces_nonempty [OF assms] by (cases "pieces g" rule: list.exhaust; cases "tl (pieces g)") (auto simp: part_def)
  moreover have "is_numeric (multiplier g)" using assms by (simp add: group_ok_def)
  ultimately have m: "match_start group_re (buildRuleGroupFactor g) = Some [(2, multiplier g), (1, js_join (js '' && '') (pieces g))]"
    unfolding group_text [OF assms] by (rule group_match)
  have s: "splitTopLevelAnd (js_join (js '' && '') (pieces g)) = pieces g"
    using split_parts [OF q pieces_nonempty [OF assms]] by (simp add: splitTopLevelAnd_def)
  have "map js_trim (pieces g) = pieces g" by (rule map_idI) (use q in \<open>auto simp: part_def js_trim_id\<close>)
  then show ?thesis
    unfolding tryParseRuleGroupFactor_def m using s pieces_read [OF assms] assms
    by (simp add: capture_def cap_def group_ok_def del: js_Cons)
qed

lemma join_depth: "(\<And>p. p \<in> set ps \<Longrightarrow> foldl depth_step 0 p = 0) \<Longrightarrow> foldl depth_step 0 (js_join (js '' && '') ps) = 0"
  by (induction "js '' && ''" ps rule: js_join.induct) (auto simp: depth_step_def)

lemma group_part:
  assumes "group_ok g"
  shows "part (32 # 42 # ys) (buildRuleGroupFactor g)"
proof (rule quiet_part_star)
  have "neutral (multiplier g)" using assms by (simp add: group_ok_def neutral_numeric)
  moreover have "42 \<notin> set (js_join (js '' && '') (pieces g))"
    using pieces_quiet [OF assms] js_join_mem [of 42 "js '' && ''" "pieces g"] by (auto simp: quiet_def)
  ultimately show "42 \<notin> set (buildRuleGroupFactor g)" unfolding group_text [OF assms] by (simp add: neutral_def)
  show "foldl depth_step 0 (buildRuleGroupFactor g) = 0"
    using join_depth [of "pieces g"] pieces_quiet [OF assms] depth_shift [of 0 1 "js_join (js '' && '') (pieces g)"] \<open>neutral (multiplier g)\<close>
    unfolding group_text [OF assms] by (simp add: depth_simps depth_neutral quiet_def)
qed (simp_all add: group_text [OF assms] trimmed_def is_ws_def)

section \<open>Rules and expressions\<close>

abbreviation star :: jstr where "star \<equiv> js '' * ''"

lemma build_groups:
  "list_all group_ok gs \<Longrightarrow> buildRequestRuleExpr gs = js_join star (map buildRuleGroupFactor gs)"
proof -
  assume "list_all group_ok gs"
  then have "buildRuleGroupFactor g \<noteq> []" if "g \<in> set gs" for g
    using that by (simp add: list_all_iff group_text)
  then have "filter (\<lambda>f. f \<noteq> []) (map buildRuleGroupFactor gs) = map buildRuleGroupFactor gs" by (auto simp: filter_id_conv)
  then show ?thesis by (simp add: buildRequestRuleExpr_def del: js_Cons)
qed

lemma trimmed_append: "x \<noteq> [] \<Longrightarrow> trimmed x \<Longrightarrow> y \<noteq> [] \<Longrightarrow> trimmed y \<Longrightarrow> trimmed (x @ s @ y)"
  by (simp add: trimmed_def)

lemma trimmed_join: "\<forall>p \<in> set ps. p \<noteq> [] \<and> trimmed p \<Longrightarrow> ps \<noteq> [] \<Longrightarrow> js_join sep ps \<noteq> [] \<and> trimmed (js_join sep ps)"
  by (induction sep ps rule: js_join.induct) (simp_all add: trimmed_append)

lemma split_star:
  assumes "\<forall>p \<in> set ps. part star p" "ps \<noteq> []"
  shows "splitTopLevelMultiply (js_join star ps) = ps" "js_trim (js_join star ps) = js_join star ps" "js_join star ps \<noteq> []"
proof -
  show "splitTopLevelMultiply (js_join star ps) = ps"
    using split_parts [of ps "42 # [32]"] assms by (simp add: splitTopLevelMultiply_def)
  have t: "js_join star ps \<noteq> [] \<and> trimmed (js_join star ps)"
    using trimmed_join [of ps star] assms by (auto simp: part_def simp del: js_Cons)
  then show "js_trim (js_join star ps) = js_join star ps" "js_join star ps \<noteq> []" by (simp_all add: js_trim_id del: js_Cons)
qed

lemma factor_star: "group_ok g \<Longrightarrow> part star (buildRuleGroupFactor g)"
  using group_part [of g "[32]"] by simp

lemma groups_read:
  assumes "list_all group_ok gs"
  shows "tryParseRequestRuleExpr (buildRequestRuleExpr gs) = Found gs"
proof (cases "gs = []")
  case True
  then show ?thesis by (simp add: buildRequestRuleExpr_def tryParseRequestRuleExpr_def)
next
  case False
  have "\<forall>p \<in> set (map buildRuleGroupFactor gs). part star p" using assms factor_star by (auto simp: list_all_iff simp del: js_Cons)
  moreover have "parseAll tryParseRuleGroupFactor (map buildRuleGroupFactor gs) = Found (map id gs)"
    by (rule parseAll_map) (use assms group_read in \<open>auto simp: list_all_iff\<close>)
  ultimately show ?thesis
    using False split_star [of "map buildRuleGroupFactor gs"]
    by (simp add: tryParseRequestRuleExpr_def build_groups [OF assms] del: js_Cons)
qed

lemma classify_factor:
  assumes "group_ok g"
  shows "classifyPart (buildRuleGroupFactor g) = Found (buildRuleGroupFactor g, True)"
  using groups_read [of "[g]"] assms build_groups [of "[g]"] by (simp add: classifyPart_def del: js_Cons)

lemma parens_part: "hasFullOuterParens e \<Longrightarrow> trimmed e \<Longrightarrow> part star e"
  using unsplit_parens [of 0 e "[42, 32]"] outer_balanced [of 0 e]
  by (auto simp: part_def hasFullOuterParens_def split: if_splits)

lemma unwrap_parens: "hasFullOuterParens (js ''('' @ b @ js '')'') \<Longrightarrow> unwrapOuterParens (js ''('' @ b @ js '')'') = unwrapOuterParens b"
proof -
  assume h: "hasFullOuterParens (js ''('' @ b @ js '')'')"
  have "js_trim (js ''('' @ b @ js '')'') = js ''('' @ b @ js '')''" by (rule js_trim_id) (simp add: trimmed_def is_ws_def)
  moreover have "inner (js ''('' @ b @ js '')'') = js_trim b" by (simp add: inner_def butlast_append)
  ultimately show ?thesis using h unfolding unwrapOuterParens_def by (metis unwrapLoop.simps)
qed

lemma split_combined:
  fixes base gs
  defines "b \<equiv> js ''('' @ js_trim base @ js '')''"
  assumes base: "js_trim base \<noteq> []" "hasFullOuterParens b" "tryParseRequestRuleExpr b = Null"
    and gs: "list_all group_ok gs" "gs \<noteq> []"
  shows "splitBillingExprAndRequestRules (combineBillingExpr base (buildRequestRuleExpr gs)) =
    Found (unwrapOuterParens base, buildRequestRuleExpr gs)"
proof -
  let ?fs = "map buildRuleGroupFactor gs"
  have tb: "trimmed b" by (simp add: b_def trimmed_def is_ws_def)
  have fs: "\<forall>p \<in> set ?fs. part star p" using gs factor_star by (auto simp: list_all_iff simp del: js_Cons)
  then have all: "\<forall>p \<in> set (b # ?fs). part star p" using parens_part [OF base(2) tb] by (simp del: js_Cons)
  have rules: "buildRequestRuleExpr gs = js_join star ?fs" using gs(1) by (rule build_groups)
  have c: "combineBillingExpr base (buildRequestRuleExpr gs) = js_join star (b # ?fs)"
    using split_star(2,3) [OF fs] gs base(1) unfolding combineBillingExpr_def rules
    by (simp add: js_join_Cons b_def)
  have "parseAll classifyPart (map buildRuleGroupFactor gs) = Found (map (\<lambda>g. (buildRuleGroupFactor g, True)) gs)"
    by (rule parseAll_map) (use gs classify_factor in \<open>auto simp: list_all_iff\<close>)
  then have m: "parseAll classifyPart (b # ?fs) = Found ((b, False) # map (\<lambda>g. (buildRuleGroupFactor g, True)) gs)"
    using base(3) by (simp add: classifyPart_def)
  have p: "map fst (filter snd (map (\<lambda>g. (buildRuleGroupFactor g, True)) gs)) = ?fs"
    "filter (\<lambda>m. \<not> snd m) (map (\<lambda>g. (buildRuleGroupFactor g, True)) gs) = []"
    by (induction gs) simp_all
  have u: "unwrapOuterParens b = unwrapOuterParens base"
    using unwrap_parens [of "js_trim base"] base(2) by (simp add: b_def unwrapOuterParens_def js_trim_idem)
  show ?thesis
    unfolding c unfolding splitBillingExprAndRequestRules_def rules
    using split_star [OF all] m p u gs(2) by (simp add: Let_def comp_def del: js_Cons)
qed

text \<open>Unwrapping ends with a text that is not wrapped.\<close>

lemma unwrapLoop_trimmed: "trimmed e \<Longrightarrow> trimmed (unwrapLoop e)"
proof (induction e rule: unwrapLoop.induct)
  case (1 e)
  then show ?case using trimmed_js_trim [of "butlast (tl e)"] by (subst unwrapLoop.simps) (auto simp: inner_def)
qed

lemma unwrapLoop_done: "\<not> hasFullOuterParens (unwrapLoop e)"
proof (induction e rule: unwrapLoop.induct)
  case (1 e)
  then show ?case by (subst unwrapLoop.simps) auto
qed

text \<open>Matching parentheses, said without the loop: as many closed as opened, and never more closed than
  opened in any prefix.\<close>

definition paren_depth :: "jstr \<Rightarrow> int" where
  "paren_depth s = int (count_list s 40) - int (count_list s 41)"

definition balanced :: "jstr \<Rightarrow> bool" where
  "balanced s \<longleftrightarrow> paren_depth s = 0 \<and> (\<forall>p \<in> set (prefixes s). 0 \<le> paren_depth p)"

text \<open>An expression under layers of white space and of parentheses that match each other.\<close>

inductive layered :: "jstr \<Rightarrow> jstr \<Rightarrow> bool" where
  core: "layered r r"
| space: "layered r t \<Longrightarrow> \<forall>c \<in> set a \<union> set b. is_ws c \<Longrightarrow> layered r (a @ t @ b)"
| pair: "layered r t \<Longrightarrow> balanced t \<Longrightarrow> layered r (40 # t @ [41])"

lemma paren_depth_simps [simp]:
  "paren_depth [] = 0" "paren_depth (c # s) = depth_step 0 c + paren_depth s"
  by (auto simp: paren_depth_def depth_step_def)

lemma outer_loop_balanced:
  "1 \<le> d \<Longrightarrow> outer_loop d (m @ [41]) \<longleftrightarrow> d + paren_depth m = 1 \<and> (\<forall>p \<in> set (prefixes m). 1 \<le> d + paren_depth p)"
proof (induction m arbitrary: d)
  case (Cons c m)
  have d: "depth_step d c = d + depth_step 0 c" "0 \<le> depth_step d c" using Cons.prems by (auto simp: depth_step_def)
  show ?case
  proof (cases "depth_step d c = 0")
    case True
    then show ?thesis using d by (auto intro!: bexI [of _ "[]"])
  next
    case False
    then show ?thesis using Cons.IH [of "depth_step d c"] Cons.prems d by (auto simp: add.assoc)
  qed
qed (auto simp: depth_step_def)

lemma full_parens: "hasFullOuterParens e \<longleftrightarrow> (\<exists>m. e = 40 # m @ [41] \<and> balanced m)"
proof -
  have "hasFullOuterParens (40 # m @ [41]) \<longleftrightarrow> balanced m" for m
    using outer_loop_balanced [of 1 m] by (simp add: hasFullOuterParens_def balanced_def depth_step_def)
  moreover have "\<exists>m. e = 40 # m @ [41]" if "hasFullOuterParens e"
  proof -
    have "e \<noteq> []" "hd e = 40" "last e = 41" using that by (auto simp: hasFullOuterParens_def split: if_splits)
    then show ?thesis by (cases e; cases "tl e" rule: rev_cases) auto
  qed
  ultimately show ?thesis by blast
qed

lemma trim_layers: obtains a b where "s = a @ js_trim s @ b" "\<forall>c \<in> set a \<union> set b. is_ws c"
proof -
  let ?d = "dropWhile is_ws s"
  have "s = takeWhile is_ws s @ ?d" by simp
  also have "?d = rev (dropWhile is_ws (rev ?d)) @ rev (takeWhile is_ws (rev ?d))"
    by (metis rev_append rev_rev_ident takeWhile_dropWhile_id)
  finally show ?thesis
    by (intro that [of "takeWhile is_ws s" "rev (takeWhile is_ws (rev ?d))"]) (auto simp: js_trim_def dest: set_takeWhileD)
qed

lemma js_trim_pad: "\<forall>c \<in> set a \<union> set b. is_ws c \<Longrightarrow> js_trim (a @ t @ b) = js_trim t"
proof -
  assume ws: "\<forall>c \<in> set a \<union> set b. is_ws c"
  then have "dropWhile is_ws (a @ t @ b) = dropWhile is_ws (t @ b)" by simp
  moreover have "rev (dropWhile is_ws (rev (dropWhile is_ws (t @ b)))) = js_trim t"
  proof (cases "\<forall>c \<in> set t. is_ws c")
    case True
    have "js_trim t = []" using True by (simp add: js_trim_eq_Nil)
    have "\<forall>c \<in> set (t @ b). is_ws c" using True ws by auto
    then have "dropWhile is_ws (t @ b) = []" by (simp only: dropWhile_eq_Nil_conv)
    then show ?thesis unfolding \<open>js_trim t = []\<close> by (simp del: dropWhile_eq_Nil_conv)
  next
    case False
    then have "dropWhile is_ws (t @ b) = dropWhile is_ws t @ b" by (meson dropWhile_append1)
    moreover have "dropWhile is_ws (rev b @ u) = dropWhile is_ws u" for u using ws by (intro dropWhile_append2) auto
    ultimately show ?thesis by (simp add: js_trim_def)
  qed
  ultimately show ?thesis by (simp add: js_trim_def)
qed

lemma unwrapLoop_layered: "layered (unwrapLoop e) e"
proof (induction e rule: unwrapLoop.induct)
  case (1 e)
  show ?case
  proof (cases "hasFullOuterParens e")
    case True
    then obtain m where m: "e = 40 # m @ [41]" "balanced m" by (auto simp: full_parens)
    then have u: "unwrapLoop e = unwrapLoop (js_trim m)" "layered (unwrapLoop (js_trim m)) (js_trim m)"
      using 1 [OF True] True unwrapLoop.simps [of e] by (simp_all add: inner_def)
    obtain a b where "m = a @ js_trim m @ b" "\<forall>c \<in> set a \<union> set b. is_ws c" by (rule trim_layers)
    then have "layered (unwrapLoop (js_trim m)) m" using layered.space [OF u(2)] by metis
    then show ?thesis using layered.pair m u(1) by metis
  qed (subst unwrapLoop.simps, simp add: layered.core)
qed

lemma unwrap_layered: "layered r e \<Longrightarrow> unwrapOuterParens e = unwrapOuterParens r"
proof (induction rule: layered.induct)
  case (space r t a b)
  then show ?case by (simp add: unwrapOuterParens_def js_trim_pad)
next
  case (pair r t)
  then have "hasFullOuterParens (js ''('' @ t @ js '')'')" by (auto simp: full_parens)
  from unwrap_parens [OF this] pair show ?case by simp
qed simp

text \<open>
  C40.  Stripping the outer parentheses of an expression gives exactly its core: the result is the one text that
  has no white space around it, is not itself a pair of matching parentheses around a balanced text, and from which
  the expression is obtained by putting white space around it and pairs of parentheses around balanced texts.\<close>

theorem unwrap_core:
  "unwrapOuterParens e = r \<longleftrightarrow> layered r e \<and> trimmed r \<and> (\<nexists>m. r = 40 # m @ [41] \<and> balanced m)"
proof
  assume r: "unwrapOuterParens e = r"
  obtain a b where "e = a @ js_trim e @ b" "\<forall>c \<in> set a \<union> set b. is_ws c" by (rule trim_layers)
  then have "layered r e"
    using r layered.space [OF unwrapLoop_layered [of "js_trim e"]] by (metis unwrapOuterParens_def)
  then show "layered r e \<and> trimmed r \<and> (\<nexists>m. r = 40 # m @ [41] \<and> balanced m)"
    using r unwrapLoop_done [of "js_trim e"] unwrapLoop_trimmed [of "js_trim e"] full_parens [of r]
    by (auto simp: unwrapOuterParens_def)
next
  assume r: "layered r e \<and> trimmed r \<and> (\<nexists>m. r = 40 # m @ [41] \<and> balanced m)"
  then have "unwrapOuterParens e = unwrapOuterParens r" using unwrap_layered by blast
  also have "\<dots> = r" using r full_parens [of r] unwrapLoop.simps [of r] by (auto simp: unwrapOuterParens_def js_trim_id)
  finally show "unwrapOuterParens e = r" .
qed



definition night_rule :: RequestRuleGroup where
  "night_rule = \<lparr>conditions = [TimeCond \<lparr>timeFunc = js ''hour'', timezone = js ''UTC'', t_mode = MATCH_RANGE, t_value = [],
       rangeStart = js ''22'', rangeEnd = js ''6''\<rparr>,
     ph Header (js ''x-tier'') MATCH_CONTAINS (js ''pro'')], multiplier = js ''0.5''\<rparr>"


text \<open>
  C4.  A base price combined with rules is taken apart again.  For a non-blank base whose parentheses match
  and which, in parentheses, is not itself read as a rule, and for a non-empty list of groups of the kind that is read
  back (see \<open>group_ok\<close>: in particular no numeric or substring comparison of a parameter, which the editor writes with
  a guard), splitting the combination returns the base, freed of outer parentheses, and the text of the rules.\<close>

theorem combine_split:
  assumes "js_trim base \<noteq> []" "balanced (js_trim base)"
    and "tryParseRequestRuleExpr (js ''('' @ js_trim base @ js '')'') = Null"
    and "list_all group_ok gs" "gs \<noteq> []"
  shows "splitBillingExprAndRequestRules (combineBillingExpr base (buildRequestRuleExpr gs)) =
    Found (unwrapOuterParens base, buildRequestRuleExpr gs)"
proof -
  have "hasFullOuterParens (js ''('' @ js_trim base @ js '')'')" using assms(2) by (auto simp: full_parens)
  then show ?thesis using assms by (intro split_combined)
qed

definition base_price :: jstr where
  "base_price = js ''tier(\"base\", p * 2.5 + c * 10)''"

theorem combine_split_witness:
  "splitBillingExprAndRequestRules (combineBillingExpr base_price (buildRequestRuleExpr [night_rule])) =
    Found (base_price, buildRequestRuleExpr [night_rule])"
proof -
  have "js_trim base_price \<noteq> []" by code_simp
  moreover have "balanced (js_trim base_price)" by code_simp
  moreover have "tryParseRequestRuleExpr (js ''('' @ js_trim base_price @ js '')'') = Null" by code_simp
  moreover have "list_all group_ok [night_rule]" "[night_rule] \<noteq> []" by code_simp+
  moreover have "unwrapOuterParens base_price = base_price" by code_simp
  ultimately show ?thesis using combine_split [of base_price "[night_rule]"] by simp
qed

text \<open>The conditions on parameters that the editor writes with a guard against \<^verbatim>\<open>nil\<close> are not read back:
  the conjunction of the guard is cut apart before the pattern for the guarded form is tried.\<close>

definition guarded_rule :: "jstr \<Rightarrow> RequestRuleGroup" where
  "guarded_rule m = \<lparr>conditions = [ph Param (js ''n'') m (js ''5'')], multiplier = js ''2''\<rparr>"

lemma guarded_rules_lost:
  "list_all (\<lambda>m. tryParseRequestCondition (buildRequestConditionExpr (hd (conditions (guarded_rule m)))) = Found (ph Param (js ''n'') m (js ''5'')) \<and>
     tryParseRequestRuleExpr (buildRequestRuleExpr [guarded_rule m]) = Null)
   [MATCH_CONTAINS, MATCH_GTE]"
  by code_simp

text \<open>A string literal with an escape that JSON does not know makes the reader of rules raise.\<close>

lemma rule_reader_raises:
  "tryParseRequestRuleExpr (js ''(has(header(\"a\"), \"'' @ [92] @ js ''q\") ? 2 : 1)'') = Raised"
  by code_simp

end
