(* ===== verification/Tier_Expr.thy ===== *)
theory Tier_Expr
  imports Billing_Expr
begin

text \<open>
  Tiered prices: the registry of billing variables and the reader of tiers in
  \<^verbatim>\<open>features/pricing/lib/billing-expr.ts\<close>, and the visual editor of tiers with its printer, its reader and
  the cost estimator in \<^verbatim>\<open>features/pricing/lib/tier-expr.ts\<close>.
\<close>

section \<open>Billing variables\<close>

datatype Side = SInput | SOutput | SCondition

record BillingVar =
  bv_key :: jstr
  bv_field :: "jstr option"
  bv_tierField :: "jstr option"
  bv_label :: jstr
  bv_shortLabel :: jstr
  bv_side :: Side
  bv_isBase :: bool
  bv_isConditionOnly :: bool
  bv_group :: "jstr option"

definition BILLING_VARS :: "BillingVar list" where
  "BILLING_VARS = [
     \<lparr>bv_key = js ''p'', bv_field = Some (js ''inputPrice''), bv_tierField = Some (js ''input_unit_cost''), bv_label = js ''Input price'',
      bv_shortLabel = js ''Input'', bv_side = SInput, bv_isBase = True, bv_isConditionOnly = False, bv_group = None\<rparr>,
     \<lparr>bv_key = js ''c'', bv_field = Some (js ''outputPrice''), bv_tierField = Some (js ''output_unit_cost''), bv_label = js ''Completion price'',
      bv_shortLabel = js ''Output'', bv_side = SOutput, bv_isBase = True, bv_isConditionOnly = False, bv_group = None\<rparr>,
     \<lparr>bv_key = js ''len'', bv_field = None, bv_tierField = None, bv_label = js ''Input length'',
      bv_shortLabel = js ''Length'', bv_side = SCondition, bv_isBase = False, bv_isConditionOnly = True, bv_group = None\<rparr>,
     \<lparr>bv_key = js ''cr'', bv_field = Some (js ''cacheReadPrice''), bv_tierField = Some (js ''cache_read_unit_cost''), bv_label = js ''Cache read price'',
      bv_shortLabel = js ''Cache Read'', bv_side = SInput, bv_isBase = False, bv_isConditionOnly = False, bv_group = Some (js ''cache'')\<rparr>,
     \<lparr>bv_key = js ''cc'', bv_field = Some (js ''cacheCreatePrice''), bv_tierField = Some (js ''cache_create_unit_cost''), bv_label = js ''Cache create price'',
      bv_shortLabel = js ''Cache Write'', bv_side = SInput, bv_isBase = False, bv_isConditionOnly = False, bv_group = Some (js ''cache'')\<rparr>,
     \<lparr>bv_key = js ''cc1h'', bv_field = Some (js ''cacheCreate1hPrice''), bv_tierField = Some (js ''cache_create_1h_unit_cost''), bv_label = js ''Cache create (1h) price'',
      bv_shortLabel = js ''Cache Write (1h)'', bv_side = SInput, bv_isBase = False, bv_isConditionOnly = False, bv_group = Some (js ''cache'')\<rparr>,
     \<lparr>bv_key = js ''img'', bv_field = Some (js ''imagePrice''), bv_tierField = Some (js ''image_unit_cost''), bv_label = js ''Image input price'',
      bv_shortLabel = js ''Image In'', bv_side = SInput, bv_isBase = False, bv_isConditionOnly = False, bv_group = Some (js ''media'')\<rparr>,
     \<lparr>bv_key = js ''img_o'', bv_field = Some (js ''imageOutputPrice''), bv_tierField = Some (js ''image_output_unit_cost''), bv_label = js ''Image output price'',
      bv_shortLabel = js ''Image Out'', bv_side = SOutput, bv_isBase = False, bv_isConditionOnly = False, bv_group = Some (js ''media'')\<rparr>,
     \<lparr>bv_key = js ''ai'', bv_field = Some (js ''audioInputPrice''), bv_tierField = Some (js ''audio_input_unit_cost''), bv_label = js ''Audio input price'',
      bv_shortLabel = js ''Audio In'', bv_side = SInput, bv_isBase = False, bv_isConditionOnly = False, bv_group = Some (js ''media'')\<rparr>,
     \<lparr>bv_key = js ''ao'', bv_field = Some (js ''audioOutputPrice''), bv_tierField = Some (js ''audio_output_unit_cost''), bv_label = js ''Audio output price'',
      bv_shortLabel = js ''Audio Out'', bv_side = SOutput, bv_isBase = False, bv_isConditionOnly = False, bv_group = Some (js ''media'')\<rparr>
   ]"

definition BILLING_PRICING_VARS :: "BillingVar list" where
  "BILLING_PRICING_VARS = filter (\<lambda>v. \<not> bv_isConditionOnly v) BILLING_VARS"

definition BILLING_CONDITION_VARS :: "jstr list" where
  "BILLING_CONDITION_VARS = map bv_key (filter (\<lambda>v. bv_isBase v \<or> bv_isConditionOnly v) BILLING_VARS)"

definition BILLING_VAR_KEY_TO_FIELD :: "(jstr \<times> jstr) list" where
  "BILLING_VAR_KEY_TO_FIELD = map (\<lambda>v. (bv_key v, the (bv_field v))) BILLING_PRICING_VARS"

definition BILLING_EXTRA_VARS :: "BillingVar list" where
  "BILLING_EXTRA_VARS = filter (\<lambda>v. \<not> bv_isBase v \<and> \<not> bv_isConditionOnly v) BILLING_VARS"

text \<open>Pairs of the field of a tier and the variable of expressions.\<close>

definition BILLING_CACHE_VAR_MAP :: "(jstr \<times> jstr) list" where
  "BILLING_CACHE_VAR_MAP = map (\<lambda>v. (the (bv_tierField v), bv_key v)) BILLING_EXTRA_VARS"

definition BILLING_VAR_REGEX :: re where
  "BILLING_VAR_REGEX = seq [Boundary, Cap 1 (alts (map (Lit \<circ> bv_key) BILLING_PRICING_VARS)), ws_star, Lit (js ''*''), ws_star, number 2]"

section \<open>Reading tiers\<close>

record TierCondition =
  tc_var :: jstr
  tc_op :: jstr
  tc_value :: jsnum

record ParsedTier =
  pt_label :: jstr
  pt_conditions :: "TierCondition list"
  pt_prices :: "(jstr \<times> jsnum) list"

text \<open>The pattern \<^verbatim>\<open>/^v(\d+):([\s\S]*)$/\<close>.\<close>

definition version_re :: re where
  "version_re = seq [Lit (js ''v''), Cap 1 (plus digits), Lit (js '':''), Cap 2 (Star (Cls (\<lambda>_. True))), End]"

definition stripExprVersion :: "jstr \<Rightarrow> jsnum \<times> jstr" where
  "stripExprVersion exprStr =
     (if exprStr = [] then (Fin 1, [])
      else (case match_start version_re exprStr of
         Some m \<Rightarrow> (str_num (capture m 1), capture m 2)
       | None \<Rightarrow> (Fin 1, exprStr)))"

definition addCoeff :: "(jstr \<times> jsnum) list \<Rightarrow> caps \<Rightarrow> (jstr \<times> jsnum) list" where
  "addCoeff coeffs m = (if capture m 1 \<in> fst ` set coeffs then coeffs else coeffs @ [(capture m 1, str_num (capture m 2))])"

definition parseTierBody :: "jstr \<Rightarrow> (jstr \<times> jsnum) list" where
  "parseTierBody bodyStr =
     (let coeffs = foldl addCoeff [] (scan_all BILLING_VAR_REGEX None bodyStr) in
      map (\<lambda>(varName, field). (field, case map_of coeffs varName of Some x \<Rightarrow> num_or_zero x | None \<Rightarrow> Fin 0)) BILLING_VAR_KEY_TO_FIELD)"

definition cond_char :: "nat \<Rightarrow> bool" where
  "cond_char c \<longleftrightarrow> is_digit c \<or> c = 46 \<or> c = 101 \<or> c = 69 \<or> c = 43"

definition cond_vars :: re where
  "cond_vars = alts (map (Lit \<circ> js) [''p'', ''c'', ''len''])"

definition cond_ops :: re where
  "cond_ops = alts (map (Lit \<circ> js) [''<'', ''<='', ''>'', ''>=''])"

definition cond_item :: re where
  "cond_item = seq [cond_vars, ws_star, cond_ops, ws_star, plus (Cls cond_char)]"

definition and_re :: re where
  "and_re = seq [ws_star, Lit (js ''&&''), ws_star]"

definition condGroup :: re where
  "condGroup = Cap 1 (Seq cond_item (Star (Seq and_re cond_item)))"

definition tier_head :: "re list" where
  "tier_head = [Lit (js ''tier(\"''), Cap 2 (Star (Cls (\<lambda>c. c \<noteq> 34))), Lit (js ''\",''), ws_star]"

definition tier_cond :: re where
  "tier_cond = Opt (seq [condGroup, ws_star, Lit (js ''?''), ws_star])"

definition tierRe :: re where
  "tierRe = seq (tier_cond # tier_head @ [Cap 3 (plus (Cls (\<lambda>c. c \<noteq> 41))), Lit (js '')'')])"

text \<open>\<^verbatim>\<open>split\<close> with a pattern; \<open>cur\<close> is the part read so far, reversed.\<close>

function splitRe :: "re \<Rightarrow> jstr \<Rightarrow> nat option \<Rightarrow> jstr \<Rightarrow> jstr list" where
  "splitRe r cur p [] = [rev cur]"
| "splitRe r cur p (x # xs) =
     (case rm r (p, x # xs, []) of
        [] \<Rightarrow> splitRe r (x # cur) (Some x) xs
      | (p', s', _) # _ \<Rightarrow>
          if length s' \<le> length xs then rev cur # splitRe r [] p' s' else splitRe r (x # cur) (Some x) xs)"
  by pat_completeness auto
termination by (relation "measure (\<lambda>(r, cur, p, s). length s)") auto

definition cond_re :: re where
  "cond_re = seq [Cap 1 cond_vars, ws_star, Cap 2 cond_ops, ws_star, Cap 3 (plus (Cls cond_char)), End]"

definition readCondition :: "jstr \<Rightarrow> TierCondition option" where
  "readCondition cp = map_option (\<lambda>cm. \<lparr>tc_var = capture cm 1, tc_op = capture cm 2, tc_value = str_num (capture cm 3)\<rparr>)
     (match_start cond_re (js_trim cp))"

definition readConditions :: "jstr \<Rightarrow> TierCondition list" where
  "readConditions condStr = (if condStr = [] then [] else List.map_filter readCondition (splitRe and_re [] None condStr))"

definition parsedTier :: "caps \<Rightarrow> ParsedTier" where
  "parsedTier m = \<lparr>pt_label = capture m 2, pt_conditions = readConditions (capture m 1), pt_prices = parseTierBody (capture m 3)\<rparr>"

definition parseTiersFromExpr :: "jstr \<Rightarrow> ParsedTier list" where
  "parseTiersFromExpr exprStr =
     (if exprStr = [] then [] else map parsedTier (scan_all tierRe None (snd (stripExprVersion exprStr))))"

section \<open>The visual editor\<close>

datatype CacheMode = Timed | Generic

text \<open>The value of a condition in the editor: a number, a text, or null.\<close>

datatype CondValue = CNum jsnum | CStr jstr | CNull

record TierConditionInput =
  ci_var :: jstr
  ci_op :: jstr
  ci_value :: CondValue

text \<open>A tier of the editor, possibly partial: \<open>None\<close> stands for a property the object does not have (the editor never
  sets one to undefined).  The costs are listed by the name of their field.\<close>

record VisualTier =
  vt_label :: "jstr option"
  vt_conditions :: "TierConditionInput list option"
  vt_cache_mode :: "CacheMode option"
  vt_costs :: "(jstr \<times> jsnum) list"

record VisualConfig =
  tiers :: "VisualTier list"

text \<open>\<^verbatim>\<open>Number\<close> of a cost; an absent one is NaN.\<close>

definition cost :: "VisualTier \<Rightarrow> jstr \<Rightarrow> jsnum" where
  "cost tier f = (case map_of (vt_costs tier) f of Some x \<Rightarrow> x | None \<Rightarrow> NaN)"

definition getTierCacheMode :: "VisualTier option \<Rightarrow> CacheMode" where
  "getTierCacheMode tier =
     (case tier of
        None \<Rightarrow> Generic
      | Some t \<Rightarrow>
          if vt_cache_mode t = Some Timed then Timed
          else if vt_cache_mode t = Some Generic then Generic
          else if num_less (Fin 0) (cost t (js ''cache_create_1h_unit_cost'')) then Timed else Generic)"

text \<open>The costs that keep the value given, and those that are made numbers after the spread.\<close>

definition base_costs :: "jstr list" where
  "base_costs = map js [''input_unit_cost'', ''output_unit_cost'']"

definition extra_costs :: "jstr list" where
  "extra_costs = map js [''cache_read_unit_cost'', ''cache_create_unit_cost'', ''cache_create_1h_unit_cost'', ''image_unit_cost'',
     ''image_output_unit_cost'', ''audio_input_unit_cost'', ''audio_output_unit_cost'']"

definition normalizeVisualTier :: "VisualTier \<Rightarrow> VisualTier" where
  "normalizeVisualTier tier =
     \<lparr>vt_label = Some (case vt_label tier of Some l \<Rightarrow> l | None \<Rightarrow> []),
      vt_conditions = Some (case vt_conditions tier of Some cs \<Rightarrow> cs | None \<Rightarrow> []),
      vt_cache_mode = Some (case vt_cache_mode tier of Some m \<Rightarrow> m | None \<Rightarrow> getTierCacheMode (Some tier)),
      vt_costs = map (\<lambda>f. (f, case map_of (vt_costs tier) f of Some x \<Rightarrow> x | None \<Rightarrow> Fin 0)) base_costs
        @ map (\<lambda>f. (f, num_or_zero (cost tier f))) extra_costs\<rparr>"

definition createDefaultVisualConfig :: VisualConfig where
  "createDefaultVisualConfig = \<lparr>tiers = [normalizeVisualTier
     \<lparr>vt_label = Some (js ''base''), vt_conditions = Some [], vt_cache_mode = Some Generic,
      vt_costs = map (\<lambda>f. (f, Fin 0)) base_costs\<rparr>]\<rparr>"

definition normalizeVisualConfig :: "VisualConfig option \<Rightarrow> VisualConfig" where
  "normalizeVisualConfig config =
     (case config of
        None \<Rightarrow> createDefaultVisualConfig
      | Some c \<Rightarrow> if tiers c = [] then createDefaultVisualConfig else \<lparr>tiers = map normalizeVisualTier (tiers c)\<rparr>)"

section \<open>Printing\<close>

fun condValueStr :: "CondValue \<Rightarrow> jstr" where
  "condValueStr (CNum x) = num_str x"
| "condValueStr (CStr t) = t"
| "condValueStr CNull = js ''null''"

definition buildConditionStr :: "TierConditionInput list option \<Rightarrow> jstr" where
  "buildConditionStr conds =
     (case conds of
        None \<Rightarrow> []
      | Some cs \<Rightarrow> js_join (js '' && '')
          (map (\<lambda>c. ci_var c @ js '' '' @ ci_op c @ js '' '' @ condValueStr (ci_value c))
            (filter (\<lambda>c. ci_var c \<noteq> [] \<and> ci_op c \<noteq> [] \<and> ci_value c \<noteq> CNull \<and> ci_value c \<noteq> CStr []) cs)))"

definition buildTierBodyExpr :: "VisualTier \<Rightarrow> jstr" where
  "buildTierBodyExpr tier =
     js_join (js '' + '')
       ((js ''p * '' @ num_str (num_or_zero (cost tier (js ''input_unit_cost''))))
        # (js ''c * '' @ num_str (num_or_zero (cost tier (js ''output_unit_cost''))))
        # map (\<lambda>(f, v). v @ js '' * '' @ num_str (num_or_zero (cost tier f)))
            (filter (\<lambda>(f, v). num_or_zero (cost tier f) \<noteq> Fin 0) BILLING_CACHE_VAR_MAP))"

definition tierCall :: "jstr \<Rightarrow> VisualTier \<Rightarrow> jstr" where
  "tierCall fallback tier = js ''tier(\"'' @ text_or (vt_label tier) fallback @ js ''\", '' @ buildTierBodyExpr tier @ js '')''"

definition zero_expr :: jstr where
  "zero_expr = js ''p * 0 + c * 0''"

text \<open>The text of tier \<open>i\<close> (from 0) of \<open>n\<close>: the condition of the last one is not printed.\<close>

definition tierPart :: "nat \<Rightarrow> nat \<times> VisualTier \<Rightarrow> jstr" where
  "tierPart n it =
     (let cond = buildConditionStr (vt_conditions (snd it)); body = tierCall (js ''tier_'' @ dec (fst it + 1)) (snd it) in
      if fst it + 1 < n \<and> cond \<noteq> [] then cond @ js '' ? '' @ body else body)"

definition generateExprFromVisualConfig :: "VisualConfig option \<Rightarrow> jstr" where
  "generateExprFromVisualConfig config =
     (case config of
        None \<Rightarrow> zero_expr
      | Some c \<Rightarrow>
          (case tiers c of
             [] \<Rightarrow> zero_expr
           | [tier] \<Rightarrow>
               (let body = tierCall (js ''default'') tier; cond = buildConditionStr (vt_conditions tier) in
                if cond \<noteq> [] then cond @ js '' ? '' @ body @ js '' : '' @ zero_expr else body)
           | ts \<Rightarrow> js_join (js '' : '') (map (tierPart (length ts)) (enumerate 0 ts))))"

section \<open>Reading into the editor\<close>

definition optCache :: "nat \<Rightarrow> jstr list \<Rightarrow> re list" where
  "optCache n vs = map (\<lambda>(i, v). Opt (seq [ws_star, Lit (js ''+''), ws_star, Lit v, ws_star, Lit (js ''*''), ws_star, number i])) (enumerate n vs)"

text \<open>The costs of a tier; the captures are numbered from \<open>n\<close>.\<close>

definition bodyPat :: "nat \<Rightarrow> re list" where
  "bodyPat n = [Lit (js ''p''), ws_star, Lit (js ''*''), ws_star, number n, ws_star, Lit (js ''+''), ws_star,
     Lit (js ''c''), ws_star, Lit (js ''*''), ws_star, number (n + 1)] @ optCache (n + 2) (map snd BILLING_CACHE_VAR_MAP)"

definition singleRe :: re where
  "singleRe = seq ([Lit (js ''tier(\"''), Cap 1 (Star (Cls (\<lambda>c. c \<noteq> 34))), Lit (js ''\",''), ws_star] @ bodyPat 2 @ [Lit (js '')''), End])"

definition visualTierRe :: re where
  "visualTierRe = seq (tier_cond # tier_head @ bodyPat 3 @ [Lit (js '')'')])"

text \<open>The tier of a match whose costs are numbered from \<open>n\<close>.\<close>

definition matchedTier :: "caps \<Rightarrow> nat \<Rightarrow> jstr \<Rightarrow> TierConditionInput list \<Rightarrow> VisualTier" where
  "matchedTier m n label conds =
     \<lparr>vt_label = Some label, vt_conditions = Some conds, vt_cache_mode = None,
      vt_costs = [(js ''input_unit_cost'', str_num (capture m n)), (js ''output_unit_cost'', str_num (capture m (n + 1)))]
        @ List.map_filter (\<lambda>(i, f, v). map_option (\<lambda>t. (f, str_num t)) (cap m i)) (enumerate (n + 2) BILLING_CACHE_VAR_MAP)\<rparr>"

definition conditionInput :: "TierCondition \<Rightarrow> TierConditionInput" where
  "conditionInput c = \<lparr>ci_var = tc_var c, ci_op = tc_op c, ci_value = CNum (tc_value c)\<rparr>"

definition visualTier :: "caps \<Rightarrow> VisualTier" where
  "visualTier m = normalizeVisualTier (matchedTier m 3 (capture m 2) (map conditionInput (readConditions (capture m 1))))"

definition without_ws :: "jstr \<Rightarrow> jstr" where
  "without_ws s = filter (\<lambda>c. \<not> is_ws c) s"

definition stripVersion :: "jstr \<Rightarrow> jstr" where
  "stripVersion s = (case match_start version_re s of Some m \<Rightarrow> capture m 2 | None \<Rightarrow> s)"

definition tryParseVisualConfig :: "jstr option \<Rightarrow> VisualConfig option" where
  "tryParseVisualConfig exprStr =
     (case exprStr of
        None \<Rightarrow> None
      | Some s \<Rightarrow>
          if s = [] then None
          else (let body = stripVersion s in
            (case match_start singleRe body of
               Some m \<Rightarrow> Some (normalizeVisualConfig (Some \<lparr>tiers = [normalizeVisualTier (matchedTier m 2 (capture m 1) [])]\<rparr>))
             | None \<Rightarrow>
                 (let ts = map visualTier (scan_all visualTierRe None body) in
                  if ts = [] then None
                  else (let cfg = normalizeVisualConfig (Some \<lparr>tiers = ts\<rparr>) in
                    if without_ws (generateExprFromVisualConfig (Some cfg)) \<noteq> without_ws body then None else Some cfg)))))"

section \<open>The estimator\<close>

definition ESTIMATOR_VARS :: "(jstr \<times> jstr) list" where
  "ESTIMATOR_VARS = map (\<lambda>(v, k). (js v, js k))
     [(''cr'', ''cacheReadTokens''), (''cc'', ''cacheCreateTokens''), (''cc1h'', ''cacheCreate1hTokens''), (''img'', ''imageTokens''),
      (''img_o'', ''imageOutputTokens''), (''ai'', ''audioInputTokens''), (''ao'', ''audioOutputTokens'')]"

record EvalResult =
  er_cost :: jsnum
  er_matchedTier :: jstr
  er_error :: "jstr option"

definition tokens :: "(jstr \<times> jsnum) list \<Rightarrow> jstr \<Rightarrow> jsnum" where
  "tokens extra k = (case map_of extra k of Some x \<Rightarrow> num_or_zero x | None \<Rightarrow> Fin 0)"

definition estimatorEnv :: "jsnum \<Rightarrow> jsnum \<Rightarrow> (jstr \<times> jsnum) list \<Rightarrow> (jstr \<times> jsnum) list" where
  "estimatorEnv promptTokens completionTokens extra =
     [(js ''p'', promptTokens), (js ''c'', completionTokens),
      (js ''len'', num_plus (num_plus (num_plus promptTokens (tokens extra (js ''cacheReadTokens''))) (tokens extra (js ''cacheCreateTokens'')))
         (tokens extra (js ''cacheCreate1hTokens'')))]
     @ map (\<lambda>(v, k). (v, tokens extra k)) ESTIMATOR_VARS"

text \<open>
  \<open>run expr env\<close> is the evaluation of the text by the engine (\<^verbatim>\<open>new Function\<close>) with the numbers bound: the
  message of the exception, or the number obtained with the names handed to \<^verbatim>\<open>tier\<close>, in order.
\<close>

definition evalExprLocally ::
    "(jstr \<Rightarrow> (jstr \<times> jsnum) list \<Rightarrow> jstr + jsnum \<times> jstr list) \<Rightarrow> jstr \<Rightarrow> jsnum \<Rightarrow> jsnum \<Rightarrow> (jstr \<times> jsnum) list \<Rightarrow> EvalResult" where
  "evalExprLocally run exprStr promptTokens completionTokens extra =
     (if js_trim exprStr = [] then \<lparr>er_cost = Fin 0, er_matchedTier = [], er_error = None\<rparr>
      else (case run exprStr (estimatorEnv promptTokens completionTokens extra) of
         Inl message \<Rightarrow> \<lparr>er_cost = Fin 0, er_matchedTier = [], er_error = Some message\<rparr>
       | Inr (x, names) \<Rightarrow> \<lparr>er_cost = num_or_zero x, er_matchedTier = (if names = [] then [] else last names), er_error = None\<rparr>))"

definition exprUsesExtraVars :: "jstr \<Rightarrow> bool" where
  "exprUsesExtraVars exprStr =
     (exprStr \<noteq> [] \<and> scan (seq [Boundary, alts (map (Lit \<circ> fst) ESTIMATOR_VARS), Boundary]) None exprStr \<noteq> None)"

end
