(* ===== verification/JS_Match.thy ===== *)
theory JS_Match
  imports JS_Regex
begin

text \<open>
  First matches of regular expressions: rules to show which prefix of a text a pattern takes first, that it
  takes none, and what a global search finds in a text made of matching parts.
\<close>

section \<open>The first way to match\<close>

definition after :: "nat option \<Rightarrow> jstr \<Rightarrow> nat option" where
  "after p w = (if w = [] then p else Some (last w))"

lemma after_simps [simp]: "after p [] = p" "after (after p u) v = after p (u @ v)"
  by (simp_all add: after_def)

text \<open>Before \<open>s\<close>, the pattern first takes \<open>w\<close> and leaves the captures \<open>c'\<close>.\<close>

definition eats :: "re \<Rightarrow> jstr \<Rightarrow> jstr \<Rightarrow> caps \<Rightarrow> caps \<Rightarrow> bool" where
  "eats r w s c c' \<longleftrightarrow> (\<forall>p. \<exists>rest. rm r (p, w @ s, c) = (after p w, s, c') # rest)"

definition misses :: "re \<Rightarrow> jstr \<Rightarrow> caps \<Rightarrow> bool" where
  "misses r s c \<longleftrightarrow> (\<forall>p. rm r (p, s, c) = [])"

lemma eats_Seq: "eats a u (v @ s) c c1 \<Longrightarrow> eats b v s c1 c2 \<Longrightarrow> eats (Seq a b) (u @ v) s c c2"
  unfolding eats_def
proof
  fix p
  assume a: "\<forall>p. \<exists>rest. rm a (p, u @ v @ s, c) = (after p u, v @ s, c1) # rest"
    and b: "\<forall>p. \<exists>rest. rm b (p, v @ s, c1) = (after p v, s, c2) # rest"
  obtain ra where "rm a (p, u @ v @ s, c) = (after p u, v @ s, c1) # ra" using a by blast
  moreover obtain rb where "rm b (after p u, v @ s, c1) = (after (after p u) v, s, c2) # rb" using b by blast
  ultimately show "\<exists>rest. rm (Seq a b) (p, (u @ v) @ s, c) = (after p (u @ v), s, c2) # rest" by simp
qed

lemma eats_Lit: "eats (Lit l) l s c c"
  by (auto simp: eats_def after_def advance_def nth_append last_conv_nth)

lemma eats_star:
  assumes "list_all P w" "s = [] \<or> \<not> P (hd s)"
  shows "eats (Star (Cls P)) w s c c"
  unfolding eats_def
proof
  fix p
  have "rm (Star (Cls P)) (p, w @ s, c) = map (\<lambda>i. advance i (p, w @ s, c)) (rev [0..<Suc (length w)])"
    by (simp only: rm.simps(5) fst_conv snd_conv star_list [OF assms] length_append order_refl)
  then have "rm (Star (Cls P)) (p, w @ s, c) = advance (length w) (p, w @ s, c) # map (\<lambda>i. advance i (p, w @ s, c)) (rev [0..<length w])"
    by simp
  moreover have "advance (length w) (p, w @ s, c) = (after p w, s, c)"
    by (auto simp: after_def advance_def nth_append last_conv_nth)
  ultimately show "\<exists>rest. rm (Star (Cls P)) (p, w @ s, c) = (after p w, s, c) # rest" by simp
qed

lemma eats_Cls: "P x \<Longrightarrow> eats (Cls P) [x] s c c"
  by (simp add: eats_def after_def)

lemma eats_plus: "w \<noteq> [] \<Longrightarrow> list_all P w \<Longrightarrow> s = [] \<or> \<not> P (hd s) \<Longrightarrow> eats (plus (Cls P)) w s c c"
  unfolding plus_def using eats_Seq [of "Cls P" "[hd w]" "tl w" s c c "Star (Cls P)" c] eats_Cls eats_star
  by (cases w) auto

lemma eats_Cap: "eats r w s c c' \<Longrightarrow> eats (Cap n r) w s c ((n, w) # c')"
  unfolding eats_def
proof
  fix p
  assume a: "\<forall>p. \<exists>rest. rm r (p, w @ s, c) = (after p w, s, c') # rest"
  obtain ra where "rm r (p, w @ s, c) = (after p w, s, c') # ra" using a by blast
  then show "\<exists>rest. rm (Cap n r) (p, w @ s, c) = (after p w, s, (n, w) # c') # rest" by simp
qed

lemma eats_Opt: "eats r w s c c' \<Longrightarrow> eats (Opt r) w s c c'"
  unfolding eats_def by (metis append_Cons rm.simps(6))

lemma eats_skip: "misses r s c \<Longrightarrow> eats (Opt r) [] s c c"
  by (simp add: eats_def misses_def)

lemma eats_End: "eats End [] [] c c"
  by (simp add: eats_def)

lemma Seq_Alt: "rm (Seq (Alt a b) k) st = rm (Seq a k) st @ rm (Seq b k) st"
  by simp

lemma eats_Alt1: "eats (Seq a k) w s c c' \<Longrightarrow> eats (Seq (Alt a b) k) w s c c'"
  unfolding eats_def Seq_Alt by (metis append_Cons)

lemma eats_Alt2: "misses (Seq a k) (w @ s) c \<Longrightarrow> eats (Seq b k) w s c c' \<Longrightarrow> eats (Seq (Alt a b) k) w s c c'"
  unfolding eats_def misses_def Seq_Alt by (simp only: append_Nil) simp

lemma cap_alt: "rm (Seq (Cap n (Alt a b)) k) st = rm (Seq (Alt (Cap n a) (Cap n b)) k) st"
  by simp

lemma eats_cong: "(\<And>st. rm a st = rm b st) \<Longrightarrow> eats a w s c c' = eats b w s c c'"
  by (simp add: eats_def)

lemma star_fuel: "length (fst (snd st)) \<le> n \<Longrightarrow> star_iter f n st = star_iter f (length (fst (snd st))) st"
proof (induction n arbitrary: st rule: less_induct)
  case (less n)
  let ?m = "length (fst (snd st))"
  show ?case
  proof (cases n)
    case 0
    then show ?thesis using less.prems by simp
  next
    case (Suc k)
    let ?next = "filter (\<lambda>st'. length (fst (snd st')) < ?m) (f st)"
    have eq: "star_iter f i st' = star_iter f (length (fst (snd st'))) st'"
      if "st' \<in> set ?next" "?m \<le> Suc i" "i < n" for st' i
      using that less.IH [of i st'] by auto
    show ?thesis
    proof (cases ?m)
      case 0
      then show ?thesis using Suc by simp
    next
      case m: (Suc j)
      have "map (star_iter f k) ?next = map (star_iter f j) ?next"
        using eq [of _ k] eq [of _ j] m Suc less.prems by (intro map_cong) auto
      then show ?thesis unfolding m Suc star_iter.simps by (simp only: m)
    qed
  qed
qed

lemma eats_more:
  assumes "eats r u (v @ s) c c1" "u \<noteq> []" "eats (Star r) v s c1 c2"
  shows "eats (Star r) (u @ v) s c c2"
  unfolding eats_def
proof
  fix p
  obtain ra where ra: "rm r (p, u @ v @ s, c) = (after p u, v @ s, c1) # ra" using assms(1) unfolding eats_def by blast
  obtain rb where rb: "rm (Star r) (after p u, v @ s, c1) = (after (after p u) v, s, c2) # rb" using assms(3) unfolding eats_def by blast
  obtain k where k: "length (u @ v @ s) = Suc k" "length (v @ s) \<le> k" using assms(2) by (cases u) auto
  have "star_iter (rm r) k (after p u, v @ s, c1) = rm (Star r) (after p u, v @ s, c1)"
    using star_fuel [of "(after p u, v @ s, c1)" k "rm r"] k(2) by simp
  moreover have "length (v @ s) < length (u @ v @ s)" using k by simp
  ultimately show "\<exists>rest. rm (Star r) (p, (u @ v) @ s, c) = (after p (u @ v), s, c2) # rest"
    using k(1) ra rb by (simp only: rm.simps(5) fst_conv snd_conv append_assoc star_iter.simps filter.simps list.map concat.simps if_True append_Cons after_simps) simp
qed

lemma eats_stop: "misses r s c \<Longrightarrow> eats (Star r) [] s c c"
proof -
  assume m: "misses r s c"
  have "star_iter (rm r) (length s) (p, s, c) = [(p, s, c)]" for p
    using m by (cases "length s") (simp_all add: misses_def)
  then show ?thesis by (simp add: eats_def)
qed

lemma eats_nil: "eats (Lit []) v s c1 c2 \<Longrightarrow> v = [] \<and> c1 = c2"
proof -
  assume "eats (Lit []) v s c1 c2"
  then obtain rest where "rm (Lit []) (None, v @ s, c1) = (after None v, s, c2) # rest" unfolding eats_def by blast
  then show ?thesis by simp
qed

lemma eats_Cons: "eats r u (v @ s) c c1 \<Longrightarrow> eats (seq rs) v s c1 c2 \<Longrightarrow> eats (seq (r # rs)) (u @ v) s c c2"
proof (cases rs)
  case Nil
  assume "eats r u (v @ s) c c1" "eats (seq rs) v s c1 c2"
  then show ?thesis using Nil eats_nil [of v s c1 c2] by auto
next
  case (Cons a list)
  assume "eats r u (v @ s) c c1" "eats (seq rs) v s c1 c2"
  then show ?thesis using Cons eats_Seq by simp
qed

lemma seq_append: "rm (seq (as @ bs)) st = rm (Seq (seq as) (seq bs)) st"
proof (induction as arbitrary: st)
  case Nil
  have "rm (Lit []) st = [st]" by (simp add: advance_def split: prod.split)
  then show ?case by simp
next
  case (Cons a as)
  show ?case
  proof (cases "as = []")
    case True
    have "rm (Lit []) st = [st]" for st by (simp add: advance_def split: prod.split)
    then have "concat (map (rm (Lit [])) xs) = xs" for xs by (induction xs) (simp_all only: list.map concat.simps append_Cons append_Nil)
    then show ?thesis using True by (cases bs) auto
  next
    case False
    then have "rm (seq ((a # as) @ bs)) st = rm (Seq a (seq (as @ bs))) st" by (cases as) auto
    also have "\<dots> = rm (Seq a (Seq (seq as) (seq bs))) st" using Cons by (simp cong: map_cong)
    also have "\<dots> = rm (Seq (seq (a # as)) (seq bs)) st" using False by (cases as) (auto simp: concat_map_map)
    finally show ?thesis .
  qed
qed

lemma eats_append: "eats (seq as) u (v @ s) c c1 \<Longrightarrow> eats (seq bs) v s c1 c2 \<Longrightarrow> eats (seq (as @ bs)) (u @ v) s c c2"
  using eats_Seq eats_cong [OF seq_append] by blast

section \<open>No way to match\<close>

lemma misses_Seq: "misses a s c \<Longrightarrow> misses (Seq a b) s c"
  by (simp add: misses_def)

lemma misses_Cap: "misses a s c \<Longrightarrow> misses (Cap n a) s c"
  by (simp add: misses_def)

lemma misses_Lit: "\<not> prefix l s \<Longrightarrow> misses (Lit l) s c"
  by (simp add: misses_def)

lemma misses_LitSeq: "(\<And>r. s = l @ r \<Longrightarrow> misses k r c) \<Longrightarrow> misses (Seq (Lit l) k) s c"
  by (auto simp: misses_def prefix_def advance_def split: if_splits)

lemma misses_plus: "s = [] \<or> \<not> P (hd s) \<Longrightarrow> misses (plus (Cls P)) s c"
  by (simp add: misses_def plus_none)

lemma misses_ws:
  assumes "\<not> is_ws x" "list_all is_ws w" "s = [] \<or> \<not> is_ws (hd s)" "misses (Seq (Lit (x # l)) k) s c"
  shows "misses (Seq ws_star (Seq (Lit (x # l)) k)) (w @ s) c"
proof -
  have "rm (Seq ws_star (Seq (Lit (x # l)) k)) (p, w @ s, c) = rm (Seq (Lit (x # l)) k) (if w = [] then p else Some (last w), s, c)" for p
    unfolding ws_star_def using assms(1-3) by (intro star_run refuses_Lit) auto
  then show ?thesis using assms(4) unfolding misses_def by presburger
qed

section \<open>Searching a text\<close>

text \<open>A text of parts separated by \<open>[32, x, 32]\<close>, with a tail in which nothing is found.\<close>

lemma scan_all_skip:
  "scan r q' s' = scan r q s \<Longrightarrow> scan r q s = Some (p, u, c) \<Longrightarrow> length u < length s \<Longrightarrow> length s \<le> length s' \<Longrightarrow>
    scan_all r q' s' = scan_all r q s"
  by (simp add: scan_all.simps [of r q' s'] scan_all.simps [of r q s])

lemma scan_all_parts:
  assumes part: "\<And>e s p. e \<in> set es \<Longrightarrow> s = [] \<or> hd s = 32 \<Longrightarrow> \<not> is_word p \<Longrightarrow>
      tx e \<noteq> [] \<and> (\<exists>rest. rm r (p, tx e @ s, []) = (after p (tx e), s, cs e) # rest)"
    and gap: "\<And>y s p. y = 32 \<or> y = x \<Longrightarrow> rm r (p, y # s, []) = []"
    and tail: "\<And>p. scan r p t = None" "t = [] \<or> hd t = 32"
    and "es \<noteq> []" "\<not> is_word p"
  shows "scan_all r p (js_join [32, x, 32] (map tx es) @ t) = map cs es \<and>
    (\<exists>p' s c. scan r p (js_join [32, x, 32] (map tx es) @ t) = Some (p', s, c) \<and> length s < length (js_join [32, x, 32] (map tx es) @ t))"
  using part \<open>es \<noteq> []\<close> \<open>\<not> is_word p\<close>
proof (induction es arbitrary: p)
  case (Cons e es)
  let ?u = "js_join [32, x, 32] (map tx es) @ t"
  let ?s = "if es = [] then t else 32 # x # 32 # ?u"
  have eq: "js_join [32, x, 32] (map tx (e # es)) @ t = tx e @ ?s" by (cases "es = []") (simp_all add: js_join_Cons)
  have "?s = [] \<or> hd ?s = 32" using tail(2) by auto
  then obtain rest where ne: "tx e \<noteq> []" and hit: "rm r (p, tx e @ ?s, []) = (after p (tx e), ?s, cs e) # rest"
    using Cons.prems(1) [of e ?s p] Cons.prems(3) by auto
  then have fst_hit: "scan r p (tx e @ ?s) = Some (after p (tx e), ?s, cs e)" by (cases "tx e") auto
  have step: "scan_all r p (tx e @ ?s) = cs e # scan_all r (after p (tx e)) ?s"
    using ne fst_hit by (subst scan_all.simps) simp
  have "scan_all r (after p (tx e)) ?s = map cs es"
  proof (cases "es = []")
    case True
    then show ?thesis using tail(1) by (simp add: scan_all.simps [of r _ t])
  next
    case False
    have "\<not> is_word (Some 32)" by (simp add: is_word_def is_digit_def)
    then obtain p' u c where ih: "scan_all r (Some 32) ?u = map cs es" "scan r (Some 32) ?u = Some (p', u, c)" "length u < length ?u"
      using Cons.IH [of "Some 32"] Cons.prems(1) False by auto
    have "scan r q (32 # x # 32 # ?u) = scan r (Some 32) ?u" for q using gap by simp
    then have "scan_all r q (32 # x # 32 # ?u) = scan_all r (Some 32) ?u" for q
      using ih by (intro scan_all_skip) auto
    then show ?thesis using False ih(1) by simp
  qed
  then show ?case unfolding eq using step fst_hit ne by auto
qed simp

end
