(* ===== verification/Tier_Rules.thy ===== *)
theory Tier_Rules
  imports Tier_Expr JS_Match
begin

text \<open>
  The printed tiers of \<^verbatim>\<open>features/pricing/lib/tier-expr.ts\<close> are what both readers find: the patterns take the
  printed text of a tier apart into its condition, its label and its costs.
\<close>

section \<open>Numbers and names in patterns\<close>

lemma num_text:
  assumes "json_num x"
  shows "num_str x \<noteq> []" "list_all num_char (num_str x)" "\<not> is_ws (hd (num_str x))" "34 \<notin> set (num_str x)" "41 \<notin> set (num_str x)"
proof -
  note n = num_str_shape [OF assms]
  show "num_str x \<noteq> []" by (rule n)
  show "list_all num_char (num_str x)" using n(3) by (rule list.pred_mono_strong) (auto simp: is_num_char_def num_char_def)
  then show "34 \<notin> set (num_str x)" "41 \<notin> set (num_str x)" by (auto simp: list_all_iff num_char_def is_digit_def)
  show "\<not> is_ws (hd (num_str x))" using n(2) by (auto simp: is_ws_def is_digit_def)
qed

definition stops_num :: "jstr \<Rightarrow> bool" where
  "stops_num s \<longleftrightarrow> s = [] \<or> \<not> num_char (hd s)"

lemma stops_num_simps [simp]: "stops_num []" "stops_num (x # s) \<longleftrightarrow> \<not> num_char x" "\<not> num_char 32" "\<not> num_char 41"
  by (simp_all add: stops_num_def num_char_def is_digit_def)

lemma eats_number: "json_num x \<Longrightarrow> stops_num s \<Longrightarrow> eats (number n) (num_str x) s c ((n, num_str x) # c)"
  unfolding number_def stops_num_def using num_text by (intro eats_Cap eats_plus) auto

definition stops_ws :: "jstr \<Rightarrow> bool" where
  "stops_ws s \<longleftrightarrow> s = [] \<or> \<not> is_ws (hd s)"

lemma eats_space: "stops_ws s \<Longrightarrow> eats ws_star [32] s c c"
  unfolding ws_star_def stops_ws_def by (rule eats_star) (simp_all add: is_ws_def)

lemma stops_ws_Cons [simp]: "stops_ws (x # s) \<longleftrightarrow> \<not> is_ws x" "json_num y \<Longrightarrow> stops_ws (num_str y @ s)"
  "v \<noteq> [] \<Longrightarrow> \<not> is_ws (hd v) \<Longrightarrow> stops_ws (v @ s)"
  using num_text [of y] by (auto simp: stops_ws_def)

text \<open>Walking through a sequence.\<close>

lemma eats_sp: "stops_ws (v @ s) \<Longrightarrow> eats (seq rs) v s c c2 \<Longrightarrow> eats (seq (ws_star # rs)) (32 # v) s c c2"
  using eats_Cons [of ws_star "[32]" v s c c rs c2] eats_space [of "v @ s" c] by (simp del: seq.simps)

lemma eats_nosp: "stops_ws (v @ s) \<Longrightarrow> eats (seq rs) v s c c2 \<Longrightarrow> eats (seq (ws_star # rs)) v s c c2"
  using eats_Cons [of ws_star "[]" v s c c rs c2] eats_star [of is_ws "[]" "v @ s" c]
  by (simp add: ws_star_def stops_ws_def del: seq.simps)

lemma eats_lit: "eats (seq rs) v s c c2 \<Longrightarrow> eats (seq (Lit l # rs)) (l @ v) s c c2"
  using eats_Cons eats_Lit by blast

lemma eats_unit: "eats (seq rs) v s c c2 \<Longrightarrow> eats (seq (Lit [x] # rs)) (x # v) s c c2"
  using eats_lit [of rs v s c c2 "[x]"] by simp

lemma eats_num:
  "json_num x \<Longrightarrow> stops_num (v @ s) \<Longrightarrow> eats (seq rs) v s ((n, num_str x) # c) c2 \<Longrightarrow>
    eats (seq (number n # rs)) (num_str x @ v) s c c2"
  using eats_Cons eats_number by blast

lemma eats_done: "eats (seq []) [] s c c"
  using eats_Lit [of "[]"] by simp

lemmas eats_walk = eats_sp eats_lit eats_unit eats_num eats_done

lemma misses_CapLit: "misses k r ((n, l) # c) \<Longrightarrow> misses (Seq (Cap n (Lit l)) k) (l @ r) c"
  by (auto simp: misses_def advance_def)

text \<open>Names of variables.\<close>

definition var_name :: "jstr \<Rightarrow> bool" where
  "var_name v \<longleftrightarrow> v \<noteq> [] \<and> list_all (\<lambda>c. \<not> is_ws c \<and> c \<noteq> 42) v"

lemma var_name_hd: "var_name v \<Longrightarrow> v \<noteq> [] \<and> \<not> is_ws (hd v)"
  by (cases v) (auto simp: var_name_def)

section \<open>The optional costs\<close>

definition extraPat :: "nat \<Rightarrow> jstr \<Rightarrow> re" where
  "extraPat i v = seq [ws_star, Lit (js ''+''), ws_star, Lit v, ws_star, Lit (js ''*''), ws_star, number i]"

lemma extraPat_units: "extraPat i v = seq [ws_star, Lit [43], ws_star, Lit v, ws_star, Lit [42], ws_star, number i]"
  by (simp add: extraPat_def)

type_synonym entry = "nat \<times> jstr \<times> jsnum option"

fun entryText :: "entry \<Rightarrow> jstr" where
  "entryText (i, v, None) = []"
| "entryText (i, v, Some x) = [32] @ [43] @ [32] @ v @ [32] @ [42] @ [32] @ num_str x"

fun extraCaps :: "entry list \<Rightarrow> caps \<Rightarrow> caps" where
  "extraCaps [] c = c"
| "extraCaps ((i, v, None) # es) c = extraCaps es c"
| "extraCaps ((i, v, Some x) # es) c = extraCaps es ((i, num_str x) # c)"

definition entry_ok :: "entry \<Rightarrow> bool" where
  "entry_ok e \<longleftrightarrow> var_name (fst (snd e)) \<and> (\<forall>x. snd (snd e) = Some x \<longrightarrow> json_num x)"

lemma eats_extra:
  assumes "var_name v" "json_num x" "stops_num s"
  shows "eats (extraPat i v) ([32] @ [43] @ [32] @ v @ [32] @ [42] @ [32] @ num_str x) s c ((i, num_str x) # c)"
proof -
  have "eats (extraPat i v) (32 # 43 # 32 # v @ 32 # 42 # 32 # num_str x @ []) s c ((i, num_str x) # c)"
    unfolding extraPat_units
    using assms var_name_hd [OF assms(1)] by (intro eats_walk) (simp_all add: is_ws_def)
  then show ?thesis by simp
qed

text \<open>Another name does not continue to a multiplication.\<close>

lemma misses_name:
  assumes "var_name v" "var_name w" "v \<noteq> w" and u: "w @ [32] @ [42] @ r = v @ u"
  shows "misses (Seq ws_star (Seq (Lit [42]) k)) u c"
proof -
  have nws: "\<not> is_ws 42" "is_ws 32" by (simp_all add: is_ws_def)
  obtain y t where y: "u = y # t" "\<not> is_ws y" "y \<noteq> 42"
  proof -
    consider us where "v = w @ us" "us @ u = [32] @ [42] @ r" | us where "w = v @ us" "u = us @ [32] @ [42] @ r"
      using u by (auto simp: append_eq_append_conv2)
    then show thesis
    proof cases
      case 1
      then have "us = []" using assms(1) nws(2) by (cases us) (auto simp: var_name_def)
      then show thesis using 1 assms(3) by simp
    next
      case 2
      then obtain z zs where "us = z # zs" using assms(3) by (cases us) auto
      then show thesis using 2 assms(2) that by (auto simp: var_name_def)
    qed
  qed
  have "misses (Seq (Lit [42]) k) u c"
    using y by (intro misses_Seq misses_Lit) simp
  then show ?thesis using misses_ws [of 42 "[]" u "[]"] y nws by simp
qed

lemma misses_extra:
  assumes "var_name v" "var_name w" "v \<noteq> w"
  shows "misses (extraPat i v) ([32] @ [43] @ [32] @ w @ [32] @ [42] @ r) c"
proof -
  have nws: "\<not> is_ws 43" "\<not> is_ws 42" "is_ws 32" by (simp_all add: is_ws_def)
  let ?k = "Seq ws_star (Seq (Lit [42]) (Seq ws_star (number i)))"
  have "misses ?k u c" if "w @ [32] @ [42] @ r = v @ u" for u using misses_name [OF assms that] .
  then have m1: "misses (Seq (Lit v) ?k) (w @ [32] @ [42] @ r) c" by (rule misses_LitSeq)
  obtain x l where v: "v = x # l" "\<not> is_ws x" using var_name_hd [OF assms(1)] by (cases v) auto
  have "w @ [32] @ [42] @ r = [] \<or> \<not> is_ws (hd (w @ [32] @ [42] @ r))" using var_name_hd [OF assms(2)] by simp
  from misses_ws [OF v(2) _ this m1 [unfolded v(1)], of "[32]"]
  have m2: "misses (Seq ws_star (Seq (Lit v) ?k)) ([32] @ w @ [32] @ [42] @ r) c" using nws v(1) by simp
  have m3: "misses (Seq (Lit [43]) (Seq ws_star (Seq (Lit v) ?k))) ([43] @ [32] @ w @ [32] @ [42] @ r) c"
    by (rule misses_LitSeq) (use m2 in simp)
  have "misses (Seq ws_star (Seq (Lit [43]) (Seq ws_star (Seq (Lit v) ?k)))) ([32] @ [43] @ [32] @ w @ [32] @ [42] @ r) c"
    by (rule misses_ws) (use m3 nws in auto)
  then show ?thesis by (simp add: extraPat_def)
qed

lemma misses_extra_end: "misses (extraPat i v) (41 # r) c"
proof -
  have "misses (Seq ws_star (Seq (Lit (43 # [])) (seq [ws_star, Lit v, ws_star, Lit [42], ws_star, number i]))) ([] @ 41 # r) c"
    by (rule misses_ws) (auto intro!: misses_Seq misses_Lit simp: is_ws_def)
  then show ?thesis by (simp add: extraPat_units)
qed

definition extraText :: "entry list \<Rightarrow> jstr" where
  "extraText es = concat (map entryText es)"

lemma extraText_start:
  "extraText es = [] \<or> (\<exists>i w x r. (i, w, Some x) \<in> set es \<and> extraText es = [32] @ [43] @ [32] @ w @ [32] @ [42] @ r)"
proof (induction es)
  case (Cons e es)
  then show ?case by (cases e rule: entryText.cases) (auto simp: extraText_def)
qed (simp add: extraText_def)

lemma stops_num_extra: "stops_num (extraText es @ 41 # s)"
  using extraText_start [of es] by auto

lemma eats_extras:
  assumes "list_all entry_ok es" "distinct (map (fst \<circ> snd) es)"
  shows "eats (seq (map (\<lambda>(i, v, _). Opt (extraPat i v)) es)) (extraText es) (41 # s) c (extraCaps es c)"
  using assms
proof (induction es arbitrary: c)
  case Nil
  then show ?case using eats_done by (simp add: extraText_def)
next
  case (Cons e es)
  obtain i v x where e: "e = (i, v, x)" by (cases e)
  have v: "var_name v" using Cons.prems(1) e by (simp add: entry_ok_def)
  show ?case
  proof (cases x)
    case None
    have "misses (extraPat i v) (extraText es @ 41 # s) c"
    proof (cases "extraText es = []")
      case True
      then show ?thesis using misses_extra_end by simp
    next
      case False
      then obtain j w y r where w: "(j, w, Some y) \<in> set es" "extraText es = [32] @ [43] @ [32] @ w @ [32] @ [42] @ r"
        using extraText_start [of es] by blast
      then have "var_name w" "v \<noteq> w" using Cons.prems e by (force simp: list_all_iff entry_ok_def)+
      then show ?thesis using misses_extra [OF v, of w i "r @ 41 # s"] w by simp
    qed
    then have "eats (Opt (extraPat i v)) [] (extraText es @ 41 # s) c c" by (rule eats_skip)
    from eats_Cons [OF this Cons.IH] show ?thesis using Cons.prems e None by (simp add: extraText_def)
  next
    case (Some y)
    then have "json_num y" using Cons.prems(1) e by (simp add: entry_ok_def)
    then have "eats (Opt (extraPat i v)) ([32] @ [43] @ [32] @ v @ [32] @ [42] @ [32] @ num_str y) (extraText es @ 41 # s) c ((i, num_str y) # c)"
      using v stops_num_extra by (intro eats_Opt eats_extra)
    from eats_Cons [OF this Cons.IH] show ?thesis using Cons.prems e Some by (simp add: extraText_def)
  qed
qed

lemma extraCaps_other: "i \<notin> fst ` set es \<Longrightarrow> map_of (extraCaps es c) i = map_of c i"
  by (induction es c rule: extraCaps.induct) auto

lemma extraCaps_entry:
  "distinct (map fst es) \<Longrightarrow> (i, v, x) \<in> set es \<Longrightarrow> map_of c i = None \<Longrightarrow> map_of (extraCaps es c) i = map_option num_str x"
proof (induction es c rule: extraCaps.induct)
  case (3 j w y es c)
  show ?case
  proof (cases "(i, v, x) \<in> set es")
    case True
    then have "i \<noteq> j" using "3.prems"(1) by force
    then show ?thesis using 3 True by simp
  next
    case False
    then show ?thesis using "3.prems" by (simp add: extraCaps_other)
  qed
qed (auto simp: extraCaps_other rev_image_eqI)

section \<open>A tier\<close>

text \<open>The costs of a tier as the patterns with captures from \<open>n\<close> find them.\<close>

definition entries :: "nat \<Rightarrow> VisualTier \<Rightarrow> entry list" where
  "entries n t = map (\<lambda>(i, f, v). (i, v, if cost t f \<noteq> Fin 0 then Some (cost t f) else None)) (enumerate n BILLING_CACHE_VAR_MAP)"

definition costs_ok :: "VisualTier \<Rightarrow> bool" where
  "costs_ok t \<longleftrightarrow> map fst (vt_costs t) = base_costs @ extra_costs \<and> list_all (json_num \<circ> snd) (vt_costs t)"

lemma cache_vars: "BILLING_CACHE_VAR_MAP = zip extra_costs (map js [''cr'', ''cc'', ''cc1h'', ''img'', ''img_o'', ''ai'', ''ao''])"
  by code_simp

lemma cost_ok: "costs_ok t \<Longrightarrow> f \<in> set (base_costs @ extra_costs) \<Longrightarrow> json_num (cost t f)"
proof -
  assume c: "costs_ok t" and "f \<in> set (base_costs @ extra_costs)"
  then have "f \<in> fst ` set (vt_costs t)" by (metis costs_ok_def set_map)
  then obtain x where "map_of (vt_costs t) f = Some x" by (metis map_of_eq_None_iff option.exhaust)
  then have "(f, x) \<in> set (vt_costs t)" "cost t f = x" by (auto simp: cost_def dest: map_of_SomeD)
  then show ?thesis using c by (auto simp: costs_ok_def list_all_iff)
qed

lemma json_num_keep: "json_num x \<Longrightarrow> num_or_zero x = x"
  by (cases x) (auto simp: num_or_zero_def)

lemma enum_mem: "(i, x) \<in> set (enumerate n xs) \<Longrightarrow> x \<in> set xs"
  by (metis image_eqI list.set_map map_snd_enumerate snd_conv)

lemma enum_map: "enumerate n (map f xs) = map (\<lambda>(i, x). (i, f x)) (enumerate n xs)"
  by (induction xs arbitrary: n) auto

lemma cache_field: "(f, v) \<in> set BILLING_CACHE_VAR_MAP \<Longrightarrow> f \<in> set (base_costs @ extra_costs)"
  unfolding cache_vars by (drule set_zip_leftD) simp

lemma entries_ok:
  assumes "costs_ok t"
  shows "list_all entry_ok (entries n t)" "distinct (map (fst \<circ> snd) (entries n t))" "map fst (entries n t) = [n..<n + 7]"
proof -
  have v: "list_all (var_name \<circ> snd) BILLING_CACHE_VAR_MAP" "distinct (map snd BILLING_CACHE_VAR_MAP)" "length BILLING_CACHE_VAR_MAP = 7"
    by code_simp+
  have "entry_ok e" if mem: "e \<in> set (entries n t)" for e
  proof -
    obtain j g w where e: "(j, g, w) \<in> set (enumerate n BILLING_CACHE_VAR_MAP)" "e = (j, w, if cost t g \<noteq> Fin 0 then Some (cost t g) else None)"
      using mem by (auto simp: entries_def)
    note m = enum_mem [OF e(1)]
    then have "var_name w" using v(1) by (force simp: list_all_iff)
    moreover have "g \<in> set (base_costs @ extra_costs)" using m by (rule cache_field)
    ultimately show ?thesis using e(2) cost_ok [OF assms] by (simp add: entry_ok_def split: if_splits)
  qed
  then show "list_all entry_ok (entries n t)" by (simp add: list_all_iff)
  have "map (fst \<circ> snd) (entries n t) = map snd (map snd (enumerate n BILLING_CACHE_VAR_MAP))"
    by (simp add: entries_def case_prod_beta comp_def del: map_snd_enumerate)
  then show "distinct (map (fst \<circ> snd) (entries n t))" using v(2) by (simp only: map_snd_enumerate)
  have "map fst (entries n t) = map fst (enumerate n BILLING_CACHE_VAR_MAP)"
    by (simp add: entries_def case_prod_beta comp_def del: map_fst_enumerate)
  then show "map fst (entries n t) = [n..<n + 7]" using v(3) by simp
qed

lemma join_concat: "js_join sep (x # xs) = x @ concat (map (\<lambda>y. sep @ y) xs)"
  by (induction xs arbitrary: x) (simp_all)

lemma concat_filter: "concat (map f (filter P xs)) = concat (map (\<lambda>x. if P x then f x else []) xs)"
  by (induction xs) auto

lemma map_enumerate_snd: "map (\<lambda>(i, x). g x) (enumerate n xs) = map g xs"
  by (induction xs arbitrary: n) auto

text \<open>The printed costs.\<close>

lemma body_text:
  assumes "costs_ok t"
  shows "buildTierBodyExpr t = 112 # 32 # 42 # 32 # num_str (cost t (js ''input_unit_cost'')) @ 32 # 43 # 32 #
    99 # 32 # 42 # 32 # num_str (cost t (js ''output_unit_cost'')) @ extraText (entries n t)"
proof -
  let ?g = "\<lambda>(f, v). if num_or_zero (cost t f) \<noteq> Fin 0 then js '' + '' @ v @ js '' * '' @ num_str (num_or_zero (cost t f)) else []"
  have k: "num_or_zero (cost t f) = cost t f" if "f \<in> set (base_costs @ extra_costs)" for f
    using cost_ok [OF assms that] by (rule json_num_keep)
  have b: "js ''input_unit_cost'' \<in> set (base_costs @ extra_costs)" "js ''output_unit_cost'' \<in> set (base_costs @ extra_costs)"
    by (simp_all add: base_costs_def del: js_Cons)
  have "extraText (entries n t) = concat (map ?g (map snd (enumerate n BILLING_CACHE_VAR_MAP)))"
    unfolding extraText_def entries_def map_map
  proof (rule arg_cong [of _ _ concat], rule map_cong [OF refl])
    fix x assume x: "x \<in> set (enumerate n BILLING_CACHE_VAR_MAP)"
    obtain j f v where e: "x = (j, f, v)" by (cases x)
    have "f \<in> set (base_costs @ extra_costs)" using x e by (intro cache_field [OF enum_mem]) simp
    from k [OF this] show "(entryText \<circ> (\<lambda>(i, f, v). (i, v, if cost t f \<noteq> Fin 0 then Some (cost t f) else None))) x = (?g \<circ> snd) x"
      using e by simp
  qed
  then have e: "extraText (entries n t) = concat (map ?g BILLING_CACHE_VAR_MAP)" by (simp only: map_snd_enumerate)
  let ?h = "\<lambda>(f, v). v @ js '' * '' @ num_str (num_or_zero (cost t f))"
  have tail: "concat (map (\<lambda>y. js '' + '' @ y) (map ?h (filter (\<lambda>(f, v). num_or_zero (cost t f) \<noteq> Fin 0) BILLING_CACHE_VAR_MAP))) =
      extraText (entries n t)"
    unfolding e map_map concat_filter by (rule arg_cong [of _ _ concat], rule map_cong [OF refl]) (auto simp del: js_Cons)
  show ?thesis
    unfolding buildTierBodyExpr_def join_concat list.map concat.simps tail k [OF b(1)] k [OF b(2)] by simp
qed

definition capsBody :: "nat \<Rightarrow> VisualTier \<Rightarrow> caps \<Rightarrow> caps" where
  "capsBody n t c = extraCaps (entries (n + 2) t)
     ((n + 1, num_str (cost t (js ''output_unit_cost''))) # (n, num_str (cost t (js ''input_unit_cost''))) # c)"

lemma eats_body:
  assumes "costs_ok t"
  shows "eats (seq (bodyPat n)) (buildTierBodyExpr t) (41 # s) c (capsBody n t c)"
proof -
  let ?x = "cost t (js ''input_unit_cost'')" and ?y = "cost t (js ''output_unit_cost'')"
  have b: "json_num ?x" "json_num ?y" by (rule cost_ok [OF assms], simp add: base_costs_def del: js_Cons)+
  have o: "optCache (n + 2) (map snd BILLING_CACHE_VAR_MAP) = map (\<lambda>(i, v, _). Opt (extraPat i v)) (entries (n + 2) t)"
    unfolding optCache_def entries_def extraPat_def by (simp add: enum_map comp_def case_prod_beta)
  note ex = eats_extras [OF entries_ok(1,2) [OF assms, of "n + 2"], of s]
  have "eats (seq (([Lit [112], ws_star, Lit [42], ws_star, number n, ws_star, Lit [43], ws_star, Lit [99], ws_star, Lit [42], ws_star, number (n + 1)])
      @ map (\<lambda>(i, v, _). Opt (extraPat i v)) (entries (n + 2) t)))
     ((112 # 32 # 42 # 32 # num_str ?x @ 32 # 43 # 32 # 99 # 32 # 42 # 32 # num_str ?y @ []) @ extraText (entries (n + 2) t)) (41 # s) c (capsBody n t c)"
    unfolding capsBody_def using b stops_num_extra
    by (intro eats_append [OF _ ex] eats_walk) (simp_all add: is_ws_def)
  then show ?thesis unfolding body_text [OF assms, of "n + 2"] bodyPat_def o by simp
qed

section \<open>Conditions\<close>

definition tier_cond_ok :: "TierConditionInput \<Rightarrow> bool" where
  "tier_cond_ok c \<longleftrightarrow> ci_var c \<in> set (map js [''p'', ''c'', ''len'']) \<and> ci_op c \<in> set (map js [''<'', ''<='', ''>'', ''>='']) \<and>
     (case ci_value c of CNum x \<Rightarrow> json_num x \<and> list_all cond_char (num_str x) | _ \<Rightarrow> False)"

definition condText :: "TierConditionInput \<Rightarrow> jstr" where
  "condText c = ci_var c @ 32 # ci_op c @ 32 # condValueStr (ci_value c)"

definition stops_cond :: "jstr \<Rightarrow> bool" where
  "stops_cond s \<longleftrightarrow> s = [] \<or> \<not> cond_char (hd s)"

lemma value_text:
  assumes "tier_cond_ok c"
  obtains x where "ci_value c = CNum x" "json_num x" "list_all cond_char (num_str x)" "num_str x \<noteq> []" "\<not> is_ws (hd (num_str x))"
  using assms num_text by (cases "ci_value c") (auto simp: tier_cond_ok_def)

text \<open>The operator: the shorter spelling is tried first, and the number does not follow it.\<close>

definition ops_of :: "(jstr \<Rightarrow> re) \<Rightarrow> re" where
  "ops_of F = Alt (F [60]) (Alt (F [60, 61]) (Alt (F [62]) (F [62, 61])))"

lemma eats_op:
  assumes op: "op \<in> set (map js [''<'', ''<='', ''>'', ''>=''])"
    and F: "\<And>l s. eats (F l) l s c (d l)" "\<And>l s. \<not> prefix l s \<Longrightarrow> misses (F l) s c" "\<And>l r. misses k r (d l) \<Longrightarrow> misses (Seq (F l) k) (l @ r) c"
    and k: "\<And>s c. misses k (61 # s) c" "eats k w s (d op) c'"
  shows "eats (Seq (ops_of F) k) (op @ w) s c c'"
proof -
  have hit: "eats (Seq (F op) k) (op @ w) s c c'" using eats_Seq [OF F(1) k(2)] .
  have e: "misses (Seq (F [x]) k) (([x, 61] @ w) @ s) c" for x using F(3) [of "61 # w @ s" "[x]", OF k(1)] by simp
  have m: "misses (Seq (F l) k) s c" if "\<not> prefix l s" for l s using F(2) [OF that] by (rule misses_Seq)
  consider "op = [60]" | "op = [60, 61]" | "op = [62]" | "op = [62, 61]" using op by auto
  then show ?thesis
  proof cases
    case 1
    then show ?thesis unfolding ops_of_def using hit by (auto intro: eats_Alt1)
  next
    case 2
    then show ?thesis unfolding ops_of_def using hit e [of 60] by (blast intro: eats_Alt1 eats_Alt2)
  next
    case 3
    then have "misses (Seq (F [60]) k) ((op @ w) @ s) c" "misses (Seq (F [60, 61]) k) ((op @ w) @ s) c" by (auto intro!: m)
    then show ?thesis unfolding ops_of_def using hit 3 by (blast intro: eats_Alt1 eats_Alt2)
  next
    case 4
    then have "misses (Seq (F [60]) k) ((op @ w) @ s) c" "misses (Seq (F [60, 61]) k) ((op @ w) @ s) c" by (auto intro!: m)
    then show ?thesis unfolding ops_of_def using hit 4 e [of 62] by (blast intro: eats_Alt2)
  qed
qed

lemma cond_ops_of: "cond_ops = ops_of Lit" "rm (Seq (Cap n cond_ops) k) st = rm (Seq (ops_of (\<lambda>l. Cap n (Lit l))) k) st"
  by (simp_all add: ops_of_def cond_ops_def)

lemma cond_vars_units: "cond_vars = Alt (Lit [112]) (Alt (Lit [99]) (Lit [108, 101, 110]))"
  by (simp add: cond_vars_def)

lemma var_cases:
  assumes "v \<in> set (map js [''p'', ''c'', ''len''])"
  obtains "v = [112]" | "v = [99]" | "v = [108, 101, 110]"
  using assms by auto

lemma eats_var: "v \<in> set (map js [''p'', ''c'', ''len'']) \<Longrightarrow> eats cond_vars v s c c"
  unfolding cond_vars_units by (erule var_cases) (simp_all add: eats_def after_def advance_def)

text \<open>What follows the operator.\<close>

lemma op_tail:
  assumes "tier_cond_ok c" "stops_cond s"
  shows "eats (seq [ws_star, plus (Cls cond_char)]) (32 # condValueStr (ci_value c)) s caps caps"
    and "eats (seq [ws_star, Cap 3 (plus (Cls cond_char))]) (32 # condValueStr (ci_value c)) s caps ((3, condValueStr (ci_value c)) # caps)"
proof -
  obtain x where x: "ci_value c = CNum x" "json_num x" "list_all cond_char (num_str x)" "num_str x \<noteq> []" "\<not> is_ws (hd (num_str x))"
    using value_text [OF assms(1)] .
  have p: "eats (plus (Cls cond_char)) (num_str x) s caps caps" using x assms(2) by (intro eats_plus) (auto simp: stops_cond_def)
  have w: "stops_ws (num_str x @ s)" using x by simp
  show "eats (seq [ws_star, plus (Cls cond_char)]) (32 # condValueStr (ci_value c)) s caps caps"
    using eats_sp [OF w, of "[plus (Cls cond_char)]"] p x(1) by simp
  show "eats (seq [ws_star, Cap 3 (plus (Cls cond_char))]) (32 # condValueStr (ci_value c)) s caps ((3, condValueStr (ci_value c)) # caps)"
    using eats_sp [OF w, of "[Cap 3 (plus (Cls cond_char))]"] eats_Cap [OF p] x(1) by simp
qed

lemma tail_misses:
  assumes "misses r (61 # s) c"
  shows "misses (Seq ws_star r) (61 # s) c"
proof -
  have "star_iter (rm (Cls is_ws)) n (p, 61 # s, c) = [(p, 61 # s, c)]" for n p by (cases n) (simp_all add: is_ws_def)
  then show ?thesis using assms by (simp add: misses_def ws_star_def)
qed

lemma op_tail_misses:
  "misses (Seq ws_star (plus (Cls cond_char))) (61 # s) c" "misses (Seq ws_star (Seq (Cap 3 (plus (Cls cond_char))) End)) (61 # s) c"
proof -
  have "misses (plus (Cls cond_char)) (61 # s) c" by (rule misses_plus) (simp add: cond_char_def is_digit_def)
  then show "misses (Seq ws_star (plus (Cls cond_char))) (61 # s) c" "misses (Seq ws_star (Seq (Cap 3 (plus (Cls cond_char))) End)) (61 # s) c"
    by (auto intro: tail_misses misses_Seq misses_Cap)
qed

lemma eats_item:
  assumes "tier_cond_ok c" "stops_cond s"
  shows "eats cond_item (condText c) s caps caps"
proof -
  have v: "ci_var c \<in> set (map js [''p'', ''c'', ''len''])" and o: "ci_op c \<in> set (map js [''<'', ''<='', ''>'', ''>=''])"
    using assms(1) by (simp_all only: tier_cond_ok_def)
  have op: "eats (Seq (ops_of Lit) (Seq ws_star (plus (Cls cond_char)))) (ci_op c @ 32 # condValueStr (ci_value c)) s caps caps"
    by (rule eats_op [OF o, where d = "\<lambda>_. caps"])
      (auto intro: eats_Lit misses_Lit misses_LitSeq op_tail_misses op_tail(1) [OF assms, unfolded seq.simps])
  have ws: "stops_ws (ci_op c @ t)" for t using o by (auto simp: is_ws_def)
  have "eats (seq [ws_star, ops_of Lit, ws_star, plus (Cls cond_char)]) (32 # ci_op c @ 32 # condValueStr (ci_value c)) s caps caps"
    using op ws by (intro eats_sp) auto
  from eats_Cons [OF eats_var [OF v] this] show ?thesis unfolding cond_item_def cond_ops_of condText_def .
qed

lemma and_re_units: "and_re = seq [ws_star, Lit [38, 38], ws_star]"
  by (simp add: and_re_def)

lemma eats_and: "stops_ws s \<Longrightarrow> eats and_re (32 # [38, 38] @ [32]) s c c"
  unfolding and_re_units using eats_sp [of "[]" s "[]" c c] eats_done [of s c] by (intro eats_sp eats_lit) (auto simp: is_ws_def)

lemma misses_and: "list_all is_ws w \<Longrightarrow> \<not> is_ws x \<Longrightarrow> x \<noteq> 38 \<Longrightarrow> misses and_re (w @ x # s) c"
  unfolding and_re_units seq.simps by (rule misses_ws) (auto intro!: misses_Seq misses_Lit simp: is_ws_def)

definition condsText :: "TierConditionInput list \<Rightarrow> jstr" where
  "condsText cs = js_join (js '' && '') (map condText cs)"

lemma cond_parts:
  "tier_cond_ok c \<Longrightarrow> (ci_var c = [112] \<or> ci_var c = [99] \<or> ci_var c = [108, 101, 110]) \<and>
    (ci_op c = [60] \<or> ci_op c = [60, 61] \<or> ci_op c = [62] \<or> ci_op c = [62, 61]) \<and> (\<exists>x. ci_value c = CNum x)"
  unfolding tier_cond_ok_def by (cases "ci_value c") simp_all

lemma condText_start: "tier_cond_ok c \<Longrightarrow> condText c \<noteq> [] \<and> hd (condText c) \<in> {112, 99, 108}"
  using cond_parts [of c] by (auto simp: condText_def)

lemma eats_items:
  assumes "list_all tier_cond_ok cs"
  shows "eats (Star (Seq and_re cond_item)) (concat (map (\<lambda>c. js '' && '' @ condText c) cs)) (32 # 63 # s) c c"
  using assms
proof (induction cs)
  case Nil
  have "misses and_re ([32] @ 63 # s) c" by (rule misses_and) (simp_all add: is_ws_def)
  then show ?case by (auto intro: eats_stop misses_Seq)
next
  case (Cons d cs)
  let ?r = "concat (map (\<lambda>c. js '' && '' @ condText c) cs)"
  have d: "tier_cond_ok d" using Cons.prems by simp
  have st: "stops_cond (?r @ 32 # 63 # s)" by (cases cs) (simp_all add: stops_cond_def cond_char_def is_digit_def)
  have ws: "stops_ws (condText d @ ?r @ 32 # 63 # s)" using condText_start [OF d] by (auto simp: stops_ws_def is_ws_def)
  have "eats (Seq and_re cond_item) ((32 # [38, 38] @ [32]) @ condText d) (?r @ 32 # 63 # s) c c"
    using eats_Seq [OF eats_and eats_item [OF d st]] ws by blast
  from eats_more [OF this] Cons show ?case by simp
qed

lemma eats_conds:
  assumes "list_all tier_cond_ok cs" "cs \<noteq> []"
  shows "eats condGroup (condsText cs) (32 # 63 # s) c ((1, condsText cs) # c)"
proof -
  obtain d ds where cs: "cs = d # ds" using assms(2) by (cases cs) auto
  let ?r = "concat (map (\<lambda>c. js '' && '' @ condText c) ds)"
  have t: "condsText cs = condText d @ ?r" unfolding condsText_def cs list.map join_concat by (simp add: comp_def del: js_Cons)
  have st: "stops_cond (?r @ 32 # 63 # s)" by (cases ds) (simp_all add: stops_cond_def cond_char_def is_digit_def)
  have "eats (Seq cond_item (Star (Seq and_re cond_item))) (condText d @ ?r) (32 # 63 # s) c c"
    using eats_Seq [OF eats_item eats_items] st assms(1) cs by simp
  then show ?thesis unfolding condGroup_def t by (rule eats_Cap)
qed

section \<open>Whole tiers\<close>

definition tier_ok :: "VisualTier \<Rightarrow> bool" where
  "tier_ok t \<longleftrightarrow> costs_ok t \<and>
     (case vt_label t of Some l \<Rightarrow> l \<noteq> [] \<and> 34 \<notin> set l | None \<Rightarrow> False) \<and>
     (case vt_conditions t of Some cs \<Rightarrow> list_all tier_cond_ok cs | None \<Rightarrow> False) \<and>
     vt_cache_mode t = Some (if num_less (Fin 0) (cost t (js ''cache_create_1h_unit_cost'')) then Timed else Generic)"

definition label_of :: "VisualTier \<Rightarrow> jstr" where
  "label_of t = (case vt_label t of Some l \<Rightarrow> l | None \<Rightarrow> [])"

definition conds_of :: "VisualTier \<Rightarrow> TierConditionInput list" where
  "conds_of t = (case vt_conditions t of Some cs \<Rightarrow> cs | None \<Rightarrow> [])"

lemma tier_okD:
  assumes "tier_ok t"
  shows "costs_ok t" "vt_label t = Some (label_of t)" "label_of t \<noteq> []" "34 \<notin> set (label_of t)"
    "vt_conditions t = Some (conds_of t)" "list_all tier_cond_ok (conds_of t)"
  using assms by (auto simp: tier_ok_def label_of_def conds_of_def split: option.splits)

lemma cond_str:
  assumes "list_all tier_cond_ok cs"
  shows "buildConditionStr (Some cs) = condsText cs"
proof -
  have "ci_var c \<noteq> [] \<and> ci_op c \<noteq> [] \<and> ci_value c \<noteq> CNull \<and> ci_value c \<noteq> CStr []" if "c \<in> set cs" for c
    using that assms cond_parts [of c] by (auto simp: list_all_iff)
  then have "filter (\<lambda>c. ci_var c \<noteq> [] \<and> ci_op c \<noteq> [] \<and> ci_value c \<noteq> CNull \<and> ci_value c \<noteq> CStr []) cs = cs"
    by (simp add: filter_id_conv)
  then show ?thesis by (simp add: buildConditionStr_def condsText_def condText_def [abs_def])
qed

lemma condsText_nonempty: "list_all tier_cond_ok cs \<Longrightarrow> cs \<noteq> [] \<Longrightarrow> condsText cs \<noteq> [] \<and> hd (condsText cs) \<in> {112, 99, 108}"
  using condText_start by (cases cs) (auto simp: condsText_def join_concat simp del: js_Cons)

text \<open>The text of a tier, with or without its condition.\<close>

definition callText :: "VisualTier \<Rightarrow> jstr" where
  "callText t = js ''tier(\"'' @ label_of t @ js ''\",'' @ 32 # buildTierBodyExpr t @ [41]"

definition withCond :: "VisualTier \<Rightarrow> jstr" where
  "withCond t = (if conds_of t = [] then [] else condsText (conds_of t) @ js '' ? '') @ callText t"

lemma eats_label:
  "34 \<notin> set l \<Longrightarrow> eats (Cap n (Star (Cls (\<lambda>c. c \<noteq> 34)))) l (34 # s) c ((n, l) # c)"
  by (intro eats_Cap eats_star) (auto simp: list_all_iff)

lemma eats_head:
  assumes "34 \<notin> set l" "stops_ws (v @ s)" "eats (seq rs) v s ((n, l) # c) c2"
  shows "eats (seq ([Lit (js ''tier(\"''), Cap n (Star (Cls (\<lambda>c. c \<noteq> 34))), Lit (js ''\",''), ws_star] @ rs)) (js ''tier(\"'' @ l @ js ''\",'' @ 32 # v) s c c2"
proof -
  have "eats (seq (Lit (js ''\",'') # ws_star # rs)) (js ''\",'' @ 32 # v) s ((n, l) # c) c2"
    by (rule eats_lit, rule eats_sp [OF assms(2,3)])
  from eats_Cons [OF _ this, of "Cap n (Star (Cls (\<lambda>c. c \<noteq> 34)))" l c] eats_label [OF assms(1)]
  have "eats (seq (Cap n (Star (Cls (\<lambda>c. c \<noteq> 34))) # Lit (js ''\",'') # ws_star # rs)) (l @ js ''\",'' @ 32 # v) s c c2" by simp
  from eats_lit [OF this, of "js ''tier(\"''"] show ?thesis by (simp only: append_Cons append_Nil)
qed

lemma body_start: "costs_ok t \<Longrightarrow> stops_ws (buildTierBodyExpr t @ s)"
  using body_text [of t 0] by (simp add: is_ws_def)

lemma eats_bodyPat:
  "costs_ok t \<Longrightarrow> eats (seq rs) (41 # v) s (capsBody n t c) c2 \<Longrightarrow> eats (seq (bodyPat n @ rs)) (buildTierBodyExpr t @ 41 # v) s c c2"
  using eats_append [of "bodyPat n" "buildTierBodyExpr t" "41 # v" s c "capsBody n t c" rs c2] eats_body [of t n "v @ s" c] by simp

lemma eats_single:
  assumes "tier_ok t"
  shows "eats singleRe (callText t) [] [] (capsBody 2 t [(1, label_of t)])"
proof -
  note t = tier_okD [OF assms]
  have "eats (seq [Lit (js '')''), End]) [41] [] c c" for c using eats_unit [of "[End]" "[]" "[]" c c 41] eats_End by simp
  from eats_head [OF t(4) _ eats_bodyPat [OF t(1) this]] body_start [OF t(1)]
  have "eats (seq ([Lit (js ''tier(\"''), Cap 1 (Star (Cls (\<lambda>c. c \<noteq> 34))), Lit (js ''\",''), ws_star] @ bodyPat 2 @ [Lit (js '')''), End]))
     (js ''tier(\"'' @ label_of t @ js ''\",'' @ 32 # buildTierBodyExpr t @ [41]) [] [] (capsBody 2 t [(1, label_of t)])"
    by (simp only: append_Nil2)
  then show ?thesis unfolding singleRe_def callText_def .
qed

definition capsCond :: "TierConditionInput list \<Rightarrow> caps" where
  "capsCond cs = (if cs = [] then [] else [(1, condsText cs)])"

lemma eats_cond:
  assumes "list_all tier_cond_ok cs" "eats (seq rs) v s (capsCond cs) c2" "prefix (js ''tier('') (v @ s)"
  shows "eats (seq (tier_cond # rs)) ((if cs = [] then [] else condsText cs @ js '' ? '') @ v) s [] c2"
proof (cases "cs = []")
  case True
  have "misses cond_vars (v @ s) []" using assms(3) by (auto simp: cond_vars_units misses_def prefix_def)
  then have "misses (seq [condGroup, ws_star, Lit (js ''?''), ws_star]) (v @ s) []"
    by (simp add: condGroup_def cond_item_def misses_Seq misses_Cap)
  from eats_Cons [OF eats_skip [OF this]] show ?thesis
    using assms(2) True unfolding tier_cond_def capsCond_def by simp
next
  case False
  have w: "stops_ws (v @ s)" using assms(3) by (auto simp: prefix_def is_ws_def)
  have "eats (seq [ws_star, Lit [63], ws_star]) (32 # 63 # 32 # []) (v @ s) c c" for c
    using w by (intro eats_sp eats_unit eats_done) (simp_all add: is_ws_def)
  from eats_Cons [OF _ this, of condGroup "condsText cs"] eats_conds [OF assms(1) False, of "32 # v @ s"]
  have "eats (seq [condGroup, ws_star, Lit [63], ws_star]) (condsText cs @ [32, 63, 32]) (v @ s) [] [(1, condsText cs)]" by simp
  from eats_Cons [OF eats_Opt [OF this]] show ?thesis
    using assms(2) False unfolding tier_cond_def capsCond_def by simp
qed

lemma call_start: "prefix (js ''tier('') (callText t @ s)"
  by (simp add: callText_def)

lemma eats_visual:
  assumes "tier_ok t"
  shows "eats visualTierRe (withCond t) s [] (capsBody 3 t ((2, label_of t) # capsCond (conds_of t)))"
proof -
  note t = tier_okD [OF assms]
  have "eats (seq [Lit (js '')'')]) [41] s c c" for c using eats_unit [of "[]" "[]" s c c 41] eats_done by simp
  from eats_head [OF t(4) _ eats_bodyPat [OF t(1) this]] body_start [OF t(1)]
  have "eats (seq (tier_head @ bodyPat 3 @ [Lit (js '')'')])) (callText t) s (capsCond (conds_of t)) (capsBody 3 t ((2, label_of t) # capsCond (conds_of t)))"
    unfolding tier_head_def callText_def by (simp only: append_assoc append_Cons)
  from eats_cond [OF t(6) this call_start] show ?thesis unfolding visualTierRe_def withCond_def .
qed

lemma extra_chars: "list_all entry_ok es \<Longrightarrow> list_all (\<lambda>e. 41 \<notin> set (fst (snd e))) es \<Longrightarrow> 41 \<notin> set (extraText es)"
proof (induction es)
  case (Cons e es)
  then show ?case using num_text(5) by (cases e rule: entryText.cases) (auto simp: extraText_def entry_ok_def)
qed (simp add: extraText_def)

lemma body_chars:
  assumes "costs_ok t"
  shows "buildTierBodyExpr t \<noteq> []" "41 \<notin> set (buildTierBodyExpr t)"
proof -
  have b: "json_num (cost t (js ''input_unit_cost''))" "json_num (cost t (js ''output_unit_cost''))"
    by (rule cost_ok [OF assms], simp add: base_costs_def del: js_Cons)+
  have "list_all (\<lambda>fv. 41 \<notin> set (snd fv)) BILLING_CACHE_VAR_MAP" by code_simp
  then have "list_all (\<lambda>e. 41 \<notin> set (fst (snd e))) (entries 0 t)"
    using enum_mem by (force simp: entries_def list_all_iff)
  then have "41 \<notin> set (extraText (entries 0 t))" using entries_ok(1) [OF assms] by (rule extra_chars [rotated])
  then show "41 \<notin> set (buildTierBodyExpr t)" unfolding body_text [OF assms, of 0] using num_text(5) b by simp
  show "buildTierBodyExpr t \<noteq> []" unfolding body_text [OF assms, of 0] by simp
qed

lemma eats_tier:
  assumes "tier_ok t"
  shows "eats tierRe (withCond t) s [] ((3, buildTierBodyExpr t) # (2, label_of t) # capsCond (conds_of t))"
proof -
  note t = tier_okD [OF assms]
  note b = body_chars [OF t(1)]
  have "eats (seq [Lit (js '')'')]) [41] s c c" for c using eats_unit [of "[]" "[]" s c c 41] eats_done by simp
  moreover have "eats (Cap 3 (plus (Cls (\<lambda>c. c \<noteq> 41)))) (buildTierBodyExpr t) ([41] @ s) c ((3, buildTierBodyExpr t) # c)" for c
    using b by (intro eats_Cap eats_plus) (auto simp: list_all_iff)
  ultimately have "eats (seq [Cap 3 (plus (Cls (\<lambda>c. c \<noteq> 41))), Lit (js '')'')]) (buildTierBodyExpr t @ [41]) s c ((3, buildTierBodyExpr t) # c)" for c
    using eats_Cons by blast
  from eats_head [OF t(4) _ this] body_start [OF t(1)]
  have "eats (seq (tier_head @ [Cap 3 (plus (Cls (\<lambda>c. c \<noteq> 41))), Lit (js '')'')])) (callText t) s (capsCond (conds_of t))
      ((3, buildTierBodyExpr t) # (2, label_of t) # capsCond (conds_of t))"
    unfolding tier_head_def callText_def by (simp only: append_assoc append_Cons)
  from eats_cond [OF t(6) this call_start] show ?thesis unfolding tierRe_def withCond_def .
qed

section \<open>Conditions read back\<close>

lemma eats_match: "eats r s [] [] c \<Longrightarrow> match_start r s = Some c"
proof -
  assume "eats r s [] [] c"
  then obtain rest where "rm r (None, s @ [], []) = (after None s, [], c) # rest" unfolding eats_def by blast
  then show ?thesis by (simp add: match_start_def)
qed

lemma splitRe_run:
  assumes "38 \<notin> set u" "u = [] \<or> \<not> is_ws (last u)"
  shows "splitRe and_re cur p (u @ s) = splitRe and_re (rev u @ cur) (after p u) s"
  using assms
proof (induction u arbitrary: cur p)
  case (Cons x xs)
  let ?w = "takeWhile is_ws (x # xs)" and ?d = "dropWhile is_ws (x # xs)"
  have "?d \<noteq> []" using Cons.prems(2) by (metis dropWhile_eq_Nil_conv last_in_set list.distinct(1))
  then obtain y d where d: "?d = y # d" "\<not> is_ws y" using dropWhile_hd [of is_ws "x # xs"] by (cases ?d) auto
  have "y \<in> set (x # xs)" using d(1) set_dropWhileD [of y is_ws "x # xs"] by simp
  then have "misses and_re (?w @ y # d @ s) []" using Cons.prems(1) d(2) by (intro misses_and) (auto simp: list_all_iff dest: set_takeWhileD)
  moreover have "?w @ y # d @ s = x # xs @ s" using takeWhile_dropWhile_id [of is_ws "x # xs"] d(1) by (metis append.assoc append_Cons)
  ultimately have "misses and_re (x # xs @ s) []" by (simp only:)
  then have "rm and_re (p, x # xs @ s, []) = []" unfolding misses_def by blast
  moreover have "xs = [] \<or> \<not> is_ws (last xs)" using Cons.prems(2) by auto
  ultimately show ?case using Cons.IH [of "x # cur" "Some x"] Cons.prems(1) by (simp add: after_def)
qed simp

lemma condText_chars:
  assumes "tier_cond_ok c"
  shows "38 \<notin> set (condText c)" "\<not> is_ws (last (condText c))" "trimmed (condText c)"
proof -
  obtain x where x: "ci_value c = CNum x" "list_all cond_char (num_str x)" "num_str x \<noteq> []" using value_text [OF assms] .
  have l: "cond_char (last (num_str x))" "38 \<notin> set (num_str x)" using x by (auto simp: list_all_iff cond_char_def is_digit_def)
  then show "38 \<notin> set (condText c)" using cond_parts [OF assms] x(1) by (auto simp: condText_def)
  have "\<not> is_ws d" if "cond_char d" for d using that by (auto simp: cond_char_def is_digit_def is_ws_def)
  then show e: "\<not> is_ws (last (condText c))" using l(1) x by (simp add: condText_def)
  have "\<not> is_ws 112" "\<not> is_ws 99" "\<not> is_ws 108" by (simp_all add: is_ws_def)
  then show "trimmed (condText c)" using e condText_start [OF assms] by (auto simp: trimmed_def)
qed

lemma split_conds:
  assumes "list_all tier_cond_ok cs" "cs \<noteq> []"
  shows "splitRe and_re [] p (condsText cs) = map condText cs"
  using assms
proof (induction cs arbitrary: p)
  case (Cons c cs)
  have c: "tier_cond_ok c" using Cons.prems by simp
  note run = splitRe_run [OF condText_chars(1) [OF c] disjI2 [OF condText_chars(2) [OF c]]]
  show ?case
  proof (cases "cs = []")
    case True
    then show ?thesis using run [of "[]" p "[]"] by (simp add: condsText_def)
  next
    case False
    let ?r = "condsText cs"
    have t: "condsText (c # cs) = condText c @ 32 # 38 # 38 # 32 # ?r"
      using False by (simp add: condsText_def js_join_Cons)
    have "stops_ws ?r" using condsText_nonempty [of cs] Cons.prems False by (auto simp: stops_ws_def is_ws_def)
    from eats_and [OF this, of "[]"] obtain rest where
      "rm and_re (after p (condText c), 32 # 38 # 38 # 32 # ?r, []) = (Some 32, ?r, []) # rest"
      unfolding eats_def by (auto simp: after_def split: if_splits)
    then show ?thesis unfolding t run using Cons.IH [of "Some 32"] Cons.prems False by simp
  qed
qed simp

definition readBack :: "TierConditionInput \<Rightarrow> TierCondition" where
  "readBack c = \<lparr>tc_var = ci_var c, tc_op = ci_op c, tc_value = (case ci_value c of CNum x \<Rightarrow> x | _ \<Rightarrow> NaN)\<rparr>"

lemma read_cond:
  assumes "tier_cond_ok c"
  shows "readCondition (condText c) = Some (readBack c)"
proof -
  obtain x where x: "ci_value c = CNum x" "json_num x" using value_text [OF assms] .
  have v: "ci_var c \<in> set (map js [''p'', ''c'', ''len''])" and o: "ci_op c \<in> set (map js [''<'', ''<='', ''>'', ''>=''])"
    using assms by (simp_all only: tier_cond_ok_def)
  let ?k = "Seq ws_star (Seq (Cap 3 (plus (Cls cond_char))) End)"
  have k: "eats ?k (32 # num_str x) [] c' ((3, num_str x) # c')" for c'
    using eats_append [of "[ws_star, Cap 3 (plus (Cls cond_char))]" "32 # num_str x" "[]" "[]" c' "(3, num_str x) # c'" "[End]"]
      op_tail(2) [OF assms, of "[]" c'] eats_End x(1) by (simp add: stops_cond_def)
  have "eats (Seq (ops_of (\<lambda>l. Cap 2 (Lit l))) ?k) (ci_op c @ 32 # num_str x) [] [(1, ci_var c)] [(3, num_str x), (2, ci_op c), (1, ci_var c)]"
    by (rule eats_op [OF o, where d = "\<lambda>l. [(2, l), (1, ci_var c)]"])
      (auto intro: eats_Cap eats_Lit misses_Cap misses_Lit misses_CapLit op_tail_misses k)
  then have "eats (Seq (Cap 2 cond_ops) ?k) (ci_op c @ 32 # num_str x) [] [(1, ci_var c)] [(3, num_str x), (2, ci_op c), (1, ci_var c)]"
    using eats_cong [OF cond_ops_of(2)] by blast
  then have "eats (seq [ws_star, Cap 2 cond_ops, ws_star, Cap 3 (plus (Cls cond_char)), End]) (32 # ci_op c @ 32 # num_str x) [] [(1, ci_var c)]
      [(3, num_str x), (2, ci_op c), (1, ci_var c)]"
    using o by (intro eats_sp) (auto simp: is_ws_def)
  from eats_Cons [OF eats_Cap [OF eats_var [OF v]] this]
  have "eats cond_re (condText c) [] [] [(3, num_str x), (2, ci_op c), (1, ci_var c)]"
    unfolding cond_re_def condText_def using x(1) by simp
  from eats_match [OF this] show ?thesis
    using condText_chars(3) [OF assms] x num_str_read [of x]
    by (cases x) (auto simp: readCondition_def js_trim_id readBack_def capture_def cap_def)
qed

lemma read_conds:
  assumes "list_all tier_cond_ok cs"
  shows "readConditions (condsText cs) = map readBack cs"
proof (cases "cs = []")
  case True
  then show ?thesis by (simp add: readConditions_def condsText_def)
next
  case False
  have "List.map_filter readCondition (map condText cs) = map readBack cs"
    using assms read_cond by (induction cs) (simp_all add: List.map_filter_simps)
  then show ?thesis using condsText_nonempty [OF assms False] split_conds [OF assms False] by (simp add: readConditions_def)
qed

end
