(* ===== verification/Tier_Round.thy ===== *)
theory Tier_Round
  imports Tier_Rules
begin

text \<open>
  Round trips of tiered prices: what the visual editor prints is read back by its own reader, and by the
  reader that feeds the price breakdown.
\<close>

section \<open>The prices of a tier\<close>

definition priceText :: "jstr \<times> jsnum \<Rightarrow> jstr" where
  "priceText vx = fst vx @ 32 # 42 # 32 # num_str (snd vx)"

definition priceCaps :: "jstr \<times> jsnum \<Rightarrow> caps" where
  "priceCaps vx = [(2, num_str (snd vx)), (1, fst vx)]"

lemma alts_Cons: "rs \<noteq> [] \<Longrightarrow> alts (r # rs) = Alt r (alts rs)"
  by (cases rs) auto

lemma eats_name:
  assumes "list_all var_name ns" "v \<in> set ns"
    and "eats (Seq ws_star (Seq (Lit [42]) k)) (32 # 42 # w) s ((1, v) # c) c2"
  shows "eats (Seq (Cap 1 (alts (map Lit ns))) (Seq ws_star (Seq (Lit [42]) k))) (v @ 32 # 42 # w) s c c2"
  using assms(1,2)
proof (induction ns)
  case (Cons n ns)
  let ?k = "Seq ws_star (Seq (Lit [42]) k)"
  have hit: "eats (Seq (Cap 1 (Lit v)) ?k) (v @ 32 # 42 # w) s c c2"
    by (rule eats_Seq [OF eats_Cap [OF eats_Lit] assms(3)])
  have miss: "misses (Seq (Cap 1 (Lit n)) ?k) ((v @ 32 # 42 # w) @ s) c" if "n \<noteq> v" "var_name v"
  proof (cases "prefix n ((v @ 32 # 42 # w) @ s)")
    case True
    then obtain u where u: "v @ [32] @ [42] @ w @ s = n @ u" by (auto simp: prefix_def)
    have "misses (Seq (Cap 1 (Lit n)) ?k) (n @ u) c"
      using misses_name [OF _ that(2,1) u] Cons.prems(1) by (intro misses_CapLit) simp
    then show ?thesis using u by simp
  qed (intro misses_Seq misses_Cap misses_Lit)
  show ?case
  proof (cases "ns = []")
    case True
    then show ?thesis using Cons.prems(2) hit by simp
  next
    case False
    have a: "eats (Seq (Cap 1 (alts (map Lit (n # ns)))) ?k) w' s' c' d' = eats (Seq (Alt (Cap 1 (Lit n)) (Cap 1 (alts (map Lit ns)))) ?k) w' s' c' d'"
      for w' s' c' d' using False by (intro eats_cong) (simp add: alts_Cons)
    show ?thesis
    proof (cases "n = v")
      case True
      then show ?thesis unfolding a using hit by (auto intro: eats_Alt1)
    next
      case ne: False
      then have "v \<in> set ns" using Cons.prems(2) by simp
      moreover from this have "var_name v" using Cons.prems(1) by (auto simp: list_all_iff)
      ultimately show ?thesis unfolding a using miss [OF ne] Cons by (intro eats_Alt2) auto
    qed
  qed
qed simp

definition price_vars :: "jstr list" where
  "price_vars = map bv_key BILLING_PRICING_VARS"

lemma price_vars_ok: "list_all var_name price_vars" "list_all (\<lambda>v. is_word (Some (hd v))) price_vars"
  by code_simp+

lemma rm_Boundary: "rm (Seq Boundary k) (p, s, c) = (if is_word p \<noteq> is_word (next_unit s) then rm k (p, s, c) else [])"
  by simp

lemma price_hit:
  assumes "v \<in> set price_vars" "json_num x" "s = [] \<or> hd s = 32" "\<not> is_word p"
  shows "\<exists>rest. rm BILLING_VAR_REGEX (p, priceText (v, x) @ s, []) = (after p (priceText (v, x)), s, priceCaps (v, x)) # rest"
proof -
  have st: "stops_num s" using assms(3) by (cases s) auto
  have "eats (seq [ws_star, Lit [42], ws_star, number 2]) (32 # 42 # 32 # num_str x @ []) s [(1, v)] [(2, num_str x), (1, v)]"
    using assms(2) st by (intro eats_walk) (simp_all add: is_ws_def)
  then have "eats (Seq (Cap 1 (alts (map Lit price_vars))) (Seq ws_star (Seq (Lit [42]) (Seq ws_star (number 2))))) (v @ 32 # 42 # 32 # num_str x) s []
      (priceCaps (v, x))"
    using price_vars_ok(1) assms(1) by (intro eats_name) (simp_all add: priceCaps_def)
  then obtain rest where r: "rm (Seq (Cap 1 (alts (map Lit price_vars))) (Seq ws_star (Seq (Lit [42]) (Seq ws_star (number 2)))))
      (p, priceText (v, x) @ s, []) = (after p (priceText (v, x)), s, priceCaps (v, x)) # rest"
    unfolding eats_def priceText_def fst_conv snd_conv by blast
  have v: "v \<noteq> []" "is_word (Some (hd v))" using assms(1) price_vars_ok by (auto simp: list_all_iff var_name_def)
  then have "next_unit (priceText (v, x) @ s) = Some (hd v)" by (cases v) (simp_all add: next_unit_def priceText_def)
  then have b: "is_word p \<noteq> is_word (next_unit (priceText (v, x) @ s))" using v(2) assms(4) by simp
  have e: "BILLING_VAR_REGEX = Seq Boundary (Seq (Cap 1 (alts (map Lit price_vars))) (Seq ws_star (Seq (Lit [42]) (Seq ws_star (number 2)))))"
    by (simp add: BILLING_VAR_REGEX_def price_vars_def)
  show ?thesis unfolding e rm_Boundary using b r by (simp only: if_True) simp
qed

lemma price_gap: "y = 32 \<or> y = 43 \<Longrightarrow> rm BILLING_VAR_REGEX (p, y # s, []) = []"
proof -
  assume y: "y = 32 \<or> y = 43"
  have n: "\<forall>v \<in> set price_vars. \<not> prefix v (y # s)"
    using price_vars_ok(2) y by (auto simp: list_all_iff prefix_Cons is_word_def is_digit_def price_vars_def BILLING_PRICING_VARS_def BILLING_VARS_def)
  have "rm (alts (map Lit ns)) (q, y # s, c) = []" if "\<forall>v \<in> set ns. \<not> prefix v (y # s)" for ns q c
    using that by (induction ns rule: induct_list012) simp_all
  then have "rm (alts (map Lit price_vars)) (q, y # s, c) = []" for q c using n by blast
  then show ?thesis by (simp add: BILLING_VAR_REGEX_def price_vars_def)
qed

definition prices :: "VisualTier \<Rightarrow> (jstr \<times> jsnum) list" where
  "prices t = (js ''p'', cost t (js ''input_unit_cost'')) # (js ''c'', cost t (js ''output_unit_cost'')) #
     map (\<lambda>(f, v). (v, cost t f)) (filter (\<lambda>(f, v). cost t f \<noteq> Fin 0) BILLING_CACHE_VAR_MAP)"

lemma base_cost_ok: "costs_ok t \<Longrightarrow> json_num (cost t (js ''input_unit_cost''))" "costs_ok t \<Longrightarrow> json_num (cost t (js ''output_unit_cost''))"
  by (rule cost_ok, assumption, simp add: base_costs_def del: js_Cons)+

lemma num_zero: "num_or_zero (Fin 0) = Fin 0"
  by (simp add: num_or_zero_def)

lemma body_prices:
  assumes "costs_ok t"
  shows "buildTierBodyExpr t = js_join [32, 43, 32] (map priceText (prices t))"
proof -
  have k: "num_or_zero (cost t f) = cost t f" if "(f, v) \<in> set BILLING_CACHE_VAR_MAP" for f v
    using cost_ok [OF assms cache_field [OF that]] by (rule json_num_keep)
  have b: "num_or_zero (cost t (js ''input_unit_cost'')) = cost t (js ''input_unit_cost'')"
    "num_or_zero (cost t (js ''output_unit_cost'')) = cost t (js ''output_unit_cost'')"
    using base_cost_ok [OF assms] json_num_keep by blast+
  have f: "filter (\<lambda>(f, v). num_or_zero (cost t f) \<noteq> Fin 0) BILLING_CACHE_VAR_MAP = filter (\<lambda>(f, v). cost t f \<noteq> Fin 0) BILLING_CACHE_VAR_MAP"
    by (rule filter_cong [OF refl]) (use k in \<open>auto simp: num_zero\<close>)
  have m: "map (\<lambda>(f, v). v @ js '' * '' @ num_str (num_or_zero (cost t f))) (filter (\<lambda>(f, v). cost t f \<noteq> Fin 0) BILLING_CACHE_VAR_MAP) =
      map priceText (map (\<lambda>(f, v). (v, cost t f)) (filter (\<lambda>(f, v). cost t f \<noteq> Fin 0) BILLING_CACHE_VAR_MAP))"
    unfolding map_map by (rule map_cong [OF refl]) (use k in \<open>auto simp: priceText_def\<close>)
  have u: "js '' + '' = [32, 43, 32]" "js ''p * '' @ n = priceText (js ''p'', x)" "js ''c * '' @ n = priceText (js ''c'', x)"
    if "n = num_str x" for n x using that by (simp_all add: priceText_def)
  show ?thesis unfolding buildTierBodyExpr_def f m b prices_def list.map
    using u [OF refl] by (simp only:)
qed

lemma cache_vars_ok: "set (map snd BILLING_CACHE_VAR_MAP) \<subseteq> set price_vars" "distinct (js ''p'' # js ''c'' # map snd BILLING_CACHE_VAR_MAP)"
  by code_simp+

lemma prices_ok:
  assumes "costs_ok t"
  shows "list_all (\<lambda>(v, x). v \<in> set price_vars \<and> json_num x) (prices t)" "distinct (map fst (prices t))"
proof -
  have "js ''p'' \<in> set price_vars" "js ''c'' \<in> set price_vars" by code_simp+
  moreover have "v \<in> set price_vars \<and> json_num (cost t f)" if "(f, v) \<in> set BILLING_CACHE_VAR_MAP" for f v
    using that cache_vars_ok(1) cost_ok [OF assms cache_field [OF that]] by force
  ultimately show "list_all (\<lambda>(v, x). v \<in> set price_vars \<and> json_num x) (prices t)"
    using base_cost_ok [OF assms] by (auto simp: prices_def list_all_iff simp del: js_Cons)
  have m: "map fst (map (\<lambda>(f, v). (v, cost t f)) (filter P xs)) = map snd (filter P xs)" for P xs by auto
  have s: "distinct (map snd (filter P xs)) \<and> set (map snd (filter P xs)) \<subseteq> set (map snd xs)" if "distinct (map snd xs)" for P and xs :: "(jstr \<times> jstr) list"
    using that by (auto simp: distinct_map inj_on_def)
  then show "distinct (map fst (prices t))"
    using cache_vars_ok(2) s [of BILLING_CACHE_VAR_MAP "\<lambda>(f, v). cost t f \<noteq> Fin 0"]
    unfolding prices_def list.map fst_conv m by (auto simp del: js_Cons)
qed

lemma add_coeffs:
  assumes "\<forall>(v, x) \<in> set xs. json_num x" "distinct (map fst (acc @ xs))"
  shows "foldl addCoeff acc (map priceCaps xs) = acc @ xs"
  using assms
proof (induction xs arbitrary: acc)
  case (Cons vx xs)
  obtain v x where e: "vx = (v, x)" by (cases vx)
  have "str_num (num_str x) = x" using num_str_read [of x] Cons.prems(1) e by (cases x) auto
  then have "addCoeff acc (priceCaps vx) = acc @ [vx]"
    using Cons.prems(2) e by (auto simp: addCoeff_def priceCaps_def capture_def cap_def)
  then show ?case using Cons by simp
qed simp

text \<open>The prices the breakdown shows for a tier of the editor.\<close>

definition shownPrices :: "VisualTier \<Rightarrow> (jstr \<times> jsnum) list" where
  "shownPrices t = map (\<lambda>v. (the (bv_field v), cost t (the (bv_tierField v)))) BILLING_PRICING_VARS"

lemma map_of_prices:
  assumes "(f, v) \<in> set xs" "distinct (map snd xs)"
  shows "map_of (map (\<lambda>(f, v). (v, g f)) (filter (\<lambda>(f, v). g f \<noteq> z) xs)) v = (if g f \<noteq> z then Some (g f) else None)"
  using assms
proof (induction xs)
  case (Cons a xs)
  obtain f' v' where a: "a = (f', v')" by (cases a)
  show ?case
  proof (cases "(f, v) = a")
    case True
    then have "v \<notin> snd ` set xs" using Cons.prems(2) a by auto
    then have "map_of (map (\<lambda>(f, v). (v, g f)) (filter (\<lambda>(f, v). g f \<noteq> z) xs)) v = None"
      by (force simp: map_of_eq_None_iff)
    then show ?thesis using True a by auto
  next
    case False
    then have "(f, v) \<in> set xs" "v' \<noteq> v" using Cons.prems a by force+
    then show ?thesis using Cons a by simp
  qed
qed simp

lemma pricing_vars:
  "map (\<lambda>v. (bv_key v, the (bv_field v), the (bv_tierField v))) BILLING_PRICING_VARS =
   (js ''p'', js ''inputPrice'', js ''input_unit_cost'') # (js ''c'', js ''outputPrice'', js ''output_unit_cost'') #
   map (\<lambda>v. (bv_key v, the (bv_field v), the (bv_tierField v))) BILLING_EXTRA_VARS"
  by code_simp

lemma price_lookup:
  assumes "costs_ok t" "v \<in> set BILLING_PRICING_VARS"
  shows "(case map_of (prices t) (bv_key v) of Some x \<Rightarrow> num_or_zero x | None \<Rightarrow> Fin 0) = cost t (the (bv_tierField v))"
proof -
  let ?k = "\<lambda>v. (bv_key v, the (bv_field v), the (bv_tierField v))"
  have "?k v \<in> set (map ?k BILLING_PRICING_VARS)" using assms(2) by simp
  then consider "bv_key v = js ''p''" "the (bv_tierField v) = js ''input_unit_cost''"
    | "bv_key v = js ''c''" "the (bv_tierField v) = js ''output_unit_cost''"
    | "(the (bv_tierField v), bv_key v) \<in> set BILLING_CACHE_VAR_MAP"
    unfolding pricing_vars BILLING_CACHE_VAR_MAP_def by (auto simp del: js_Cons)
  then show ?thesis
  proof cases
    case 1
    then show ?thesis using json_num_keep [OF base_cost_ok(1) [OF assms(1)]] by (simp add: prices_def del: js_Cons)
  next
    case 2
    have "js ''p'' \<noteq> js ''c''" by simp
    then show ?thesis using 2 json_num_keep [OF base_cost_ok(2) [OF assms(1)]] by (simp add: prices_def del: js_Cons)
  next
    case 3
    let ?f = "the (bv_tierField v)"
    have n: "bv_key v \<noteq> js ''p''" "bv_key v \<noteq> js ''c''"
      using 3 cache_vars_ok(2) by (force simp del: js_Cons)+
    have d: "distinct (map snd BILLING_CACHE_VAR_MAP)" using cache_vars_ok(2) by simp
    show ?thesis
      using n map_of_prices [OF 3 d, of "cost t" "Fin 0"] json_num_keep [OF cost_ok [OF assms(1) cache_field [OF 3]]]
      by (simp add: prices_def del: js_Cons)
  qed
qed

lemma read_body:
  assumes "costs_ok t"
  shows "parseTierBody (buildTierBodyExpr t) = shownPrices t"
proof -
  have "scan_all BILLING_VAR_REGEX None (js_join [32, 43, 32] (map priceText (prices t)) @ []) = map priceCaps (prices t)"
  proof (rule scan_all_parts [THEN conjunct1])
    fix e and s :: jstr and p
    assume "e \<in> set (prices t)" "s = [] \<or> hd s = 32" "\<not> is_word p"
    then show "priceText e \<noteq> [] \<and> (\<exists>rest. rm BILLING_VAR_REGEX (p, priceText e @ s, []) = (after p (priceText e), s, priceCaps e) # rest)"
      using prices_ok(1) [OF assms] price_hit [of "fst e" "snd e" s p] by (auto simp: list_all_iff priceText_def)
  next
    show "prices t \<noteq> []" by (simp add: prices_def)
    show "scan BILLING_VAR_REGEX p [] = None" for p
    proof -
      have "rm BILLING_VAR_REGEX (p, [], []) = []" for p
        by (simp add: BILLING_VAR_REGEX_def BILLING_PRICING_VARS_def BILLING_VARS_def)
      then show ?thesis by simp
    qed
    show "\<not> is_word None" by (simp add: is_word_def)
  qed (use price_gap in auto)
  then have s: "scan_all BILLING_VAR_REGEX None (buildTierBodyExpr t) = map priceCaps (prices t)"
    unfolding body_prices [OF assms] by simp
  have c: "foldl addCoeff [] (map priceCaps (prices t)) = prices t"
    using add_coeffs [of "prices t" "[]"] prices_ok [OF assms] by (auto simp: list_all_iff)
  have "map (\<lambda>(varName, field). (field, case map_of (prices t) varName of Some x \<Rightarrow> num_or_zero x | None \<Rightarrow> Fin 0)) BILLING_VAR_KEY_TO_FIELD = shownPrices t"
    unfolding BILLING_VAR_KEY_TO_FIELD_def shownPrices_def map_map
    by (rule map_cong [OF refl]) (use price_lookup [OF assms] in simp)
  then show ?thesis by (simp add: parseTierBody_def s c)
qed

section \<open>Tiers\<close>

lemma body_cap:
  assumes "costs_ok t"
  shows "i < n \<Longrightarrow> map_of (capsBody n t c) i = map_of c i"
    and "map_of (capsBody n t c) n = Some (num_str (cost t (js ''input_unit_cost'')))"
    and "map_of (capsBody n t c) (n + 1) = Some (num_str (cost t (js ''output_unit_cost'')))"
    and "\<forall>i \<in> set (map fst c). i < n \<Longrightarrow> (i, f, v) \<in> set (enumerate (n + 2) BILLING_CACHE_VAR_MAP) \<Longrightarrow>
      map_of (capsBody n t c) i = (if cost t f \<noteq> Fin 0 then Some (num_str (cost t f)) else None)"
proof -
  have "set (map fst (entries (n + 2) t)) = set [n + 2..<n + 2 + 7]" unfolding entries_ok(3) [OF assms] ..
  then have k: "j \<in> fst ` set (entries (n + 2) t) \<longleftrightarrow> n + 2 \<le> j \<and> j < n + 2 + 7" for j by (simp only: list.set_map set_upt atLeastLessThan_iff)
  show "map_of (capsBody n t c) i = map_of c i" if "i < n" for i
    using that k by (simp add: capsBody_def extraCaps_other)
  show "map_of (capsBody n t c) n = Some (num_str (cost t (js ''input_unit_cost'')))"
    "map_of (capsBody n t c) (n + 1) = Some (num_str (cost t (js ''output_unit_cost'')))"
    using k by (simp_all add: capsBody_def extraCaps_other)
  assume c: "\<forall>i \<in> set (map fst c). i < n" and m: "(i, f, v) \<in> set (enumerate (n + 2) BILLING_CACHE_VAR_MAP)"
  have e: "(i, v, if cost t f \<noteq> Fin 0 then Some (cost t f) else None) \<in> set (entries (n + 2) t)"
    using m unfolding entries_def list.set_map by (rule image_eqI [rotated]) simp
  then have "n + 2 \<le> i" using k [of i] by (metis fst_conv image_eqI)
  then have "map_of ((n + 1, a) # (n, b) # c) i = None" for a b using c by (auto simp: map_of_eq_None_iff)
  then show "map_of (capsBody n t c) i = (if cost t f \<noteq> Fin 0 then Some (num_str (cost t f)) else None)"
    unfolding capsBody_def by (subst extraCaps_entry [OF _ e]) (simp_all add: entries_ok(3) [OF assms])
qed

lemma costs_list:
  assumes "costs_ok t"
  shows "vt_costs t = map (\<lambda>f. (f, cost t f)) (base_costs @ extra_costs)"
proof -
  have d: "distinct (base_costs @ extra_costs)" by code_simp
  have f: "map fst (vt_costs t) = base_costs @ extra_costs" using assms by (simp add: costs_ok_def)
  have "map (\<lambda>f. (f, cost t f)) (map fst (vt_costs t)) = vt_costs t"
    unfolding map_map by (rule map_idI) (use d f in \<open>auto simp: cost_def\<close>)
  then show ?thesis unfolding f by simp
qed

text \<open>The costs found by a pattern are the costs printed.\<close>

lemma read_num: "json_num x \<Longrightarrow> str_num (num_str x) = x"
  using num_str_read [of x] by (cases x) auto

lemma enum_filter: "List.map_filter (\<lambda>(i, y). h y) (enumerate n ys) = List.map_filter h ys"
  by (induction ys arbitrary: n) (simp_all add: List.map_filter_simps split: option.split)

lemma map_filter_cong: "(\<And>x. x \<in> set xs \<Longrightarrow> f x = g x) \<Longrightarrow> List.map_filter f xs = List.map_filter g xs"
  by (induction xs) (simp_all add: List.map_filter_simps split: option.split)

lemma map_filter_if: "List.map_filter (\<lambda>x. if P x then Some (g x) else None) xs = map g (filter P xs)"
  by (induction xs) (simp_all add: List.map_filter_simps)

definition foundCosts :: "VisualTier \<Rightarrow> (jstr \<times> jsnum) list" where
  "foundCosts t = map (\<lambda>f. (f, cost t f)) base_costs @ map (\<lambda>(f, v). (f, cost t f)) (filter (\<lambda>(f, v). cost t f \<noteq> Fin 0) BILLING_CACHE_VAR_MAP)"

lemma matched_costs:
  assumes "costs_ok t" "\<forall>i \<in> set (map fst c). i < n"
  shows "vt_costs (matchedTier (capsBody n t c) n l cs) = foundCosts t"
proof -
  let ?m = "capsBody n t c"
  have "List.map_filter (\<lambda>(i, f, v). map_option (\<lambda>t. (f, str_num t)) (cap ?m i)) (enumerate (n + 2) BILLING_CACHE_VAR_MAP) =
      List.map_filter (\<lambda>(i, fv). if cost t (fst fv) \<noteq> Fin 0 then Some (fst fv, cost t (fst fv)) else None) (enumerate (n + 2) BILLING_CACHE_VAR_MAP)"
  proof (rule map_filter_cong)
    fix x assume x: "x \<in> set (enumerate (n + 2) BILLING_CACHE_VAR_MAP)"
    obtain i f v where e: "x = (i, f, v)" by (cases x)
    have "json_num (cost t f)" using cost_ok [OF assms(1) cache_field [OF enum_mem]] x e by blast
    then show "(\<lambda>(i, f, v). map_option (\<lambda>t. (f, str_num t)) (cap ?m i)) x =
        (\<lambda>(i, fv). if cost t (fst fv) \<noteq> Fin 0 then Some (fst fv, cost t (fst fv)) else None) x"
      using body_cap(4) [OF assms, of i f v] x e by (simp add: cap_def read_num)
  qed
  also have "\<dots> = map (\<lambda>fv. (fst fv, cost t (fst fv))) (filter (\<lambda>fv. cost t (fst fv) \<noteq> Fin 0) BILLING_CACHE_VAR_MAP)"
    unfolding enum_filter map_filter_if ..
  finally show ?thesis
    using body_cap(2,3) [OF assms(1), of n c] base_cost_ok [OF assms(1)]
    by (simp add: matchedTier_def foundCosts_def capture_def cap_def read_num base_costs_def case_prod_unfold del: js_Cons)
qed

lemma extra_fields: "map fst BILLING_CACHE_VAR_MAP = extra_costs"
  by code_simp

lemma found_cost:
  assumes "f \<in> set (base_costs @ extra_costs)"
  shows "(f \<in> set base_costs \<longrightarrow> map_of (foundCosts t) f = Some (cost t f)) \<and>
    (f \<in> set extra_costs \<longrightarrow> map_of (foundCosts t) f = (if f \<in> set base_costs \<or> cost t f \<noteq> Fin 0 then Some (cost t f) else None))"
proof -
  let ?ks = "base_costs @ map fst (filter (\<lambda>(f, v). cost t f \<noteq> Fin 0) BILLING_CACHE_VAR_MAP)"
  have "foundCosts t = map (\<lambda>f. (f, cost t f)) ?ks" by (simp add: foundCosts_def case_prod_unfold)
  then have m: "map_of (foundCosts t) = (Some \<circ> cost t) |` set ?ks" by (simp only: map_of_map_restrict)
  have "f \<in> set (map fst (filter (\<lambda>(f, v). cost t f \<noteq> Fin 0) BILLING_CACHE_VAR_MAP)) \<longleftrightarrow> f \<in> set (map fst BILLING_CACHE_VAR_MAP) \<and> cost t f \<noteq> Fin 0"
    by force
  then show ?thesis unfolding m extra_fields by (simp add: restrict_map_def)
qed

lemma base_extra: "f \<in> set base_costs \<Longrightarrow> f \<notin> set extra_costs"
proof -
  have "list_all (\<lambda>f. f \<notin> set extra_costs) base_costs" by code_simp
  then show "f \<in> set base_costs \<Longrightarrow> f \<notin> set extra_costs" by (simp add: list_all_iff)
qed

lemma positive_or_zero: "num_less (Fin 0) (num_or_zero x) = num_less (Fin 0) x"
  by (cases x) (simp_all add: num_or_zero_def)

lemma matched_tier:
  assumes "tier_ok t" "\<forall>i \<in> set (map fst c). i < n"
  shows "normalizeVisualTier (matchedTier (capsBody n t c) n (label_of t) (conds_of t)) = t"
proof -
  note t = tier_okD [OF assms(1)]
  let ?m = "matchedTier (capsBody n t c) n (label_of t) (conds_of t)"
  have v: "vt_costs ?m = foundCosts t" using matched_costs [OF t(1) assms(2)] .
  have f: "vt_label ?m = Some (label_of t)" "vt_conditions ?m = Some (conds_of t)" "vt_cache_mode ?m = None" by (simp_all add: matchedTier_def)
  have x: "num_or_zero (cost ?m g) = cost t g" if "g \<in> set extra_costs" for g
  proof -
    have k: "num_or_zero (cost t g) = cost t g" using cost_ok [OF t(1)] json_num_keep that by simp
    have "map_of (foundCosts t) g = Some (cost t g) \<or> map_of (foundCosts t) g = None \<and> cost t g = Fin 0"
      using found_cost [of g t] that by auto
    then show ?thesis
    proof
      assume "map_of (foundCosts t) g = Some (cost t g)"
      then have "cost ?m g = cost t g" by (simp add: cost_def [of ?m] v)
      then show ?thesis using k by (simp only:)
    next
      assume a: "map_of (foundCosts t) g = None \<and> cost t g = Fin 0"
      then have "cost ?m g = NaN" by (simp add: cost_def [of ?m] v)
      then show ?thesis using a by (simp add: num_or_zero_def)
    qed
  qed
  have b: "(case map_of (vt_costs ?m) g of Some x \<Rightarrow> x | None \<Rightarrow> Fin 0) = cost t g" if "g \<in> set base_costs" for g
    using found_cost [of g t] that by (simp add: v)
  have costs: "map (\<lambda>f. (f, case map_of (vt_costs ?m) f of Some x \<Rightarrow> x | None \<Rightarrow> Fin 0)) base_costs @ map (\<lambda>f. (f, num_or_zero (cost ?m f))) extra_costs = vt_costs t"
    unfolding costs_list [OF t(1)] map_append using x b by (intro arg_cong2 [of _ _ _ _ append] map_cong) simp_all
  let ?h = "js ''cache_create_1h_unit_cost''"
  have h: "?h \<in> set extra_costs" by (simp add: extra_costs_def del: js_Cons)
  have "num_less (Fin 0) (cost ?m ?h) = num_less (Fin 0) (cost t ?h)"
    using positive_or_zero [of "cost ?m ?h"] unfolding x [OF h] by (rule sym)
  then have mode: "getTierCacheMode (Some ?m) = (if num_less (Fin 0) (cost t ?h) then Timed else Generic)"
    by (simp add: getTierCacheMode_def f del: js_Cons)
  have "vt_cache_mode t = Some (getTierCacheMode (Some ?m))" using assms(1) unfolding mode tier_ok_def by simp
  then show ?thesis
    unfolding normalizeVisualTier_def f option.case costs by (intro VisualTier.equality) (simp_all add: t(2,5))
qed


lemma read_tier:
  assumes "tier_ok t"
  shows "visualTier (capsBody 3 t ((2, label_of t) # capsCond (conds_of t))) = t"
    and "parsedTier ((3, buildTierBodyExpr t) # (2, label_of t) # capsCond (conds_of t)) =
      \<lparr>pt_label = label_of t, pt_conditions = map readBack (conds_of t), pt_prices = shownPrices t\<rparr>"
proof -
  note t = tier_okD [OF assms]
  let ?c = "(2, label_of t) # capsCond (conds_of t)"
  have c1: "capture ?c 1 = condsText (conds_of t)" by (simp add: capture_def cap_def capsCond_def condsText_def)
  have "map_of (capsBody 3 t ?c) i = map_of ?c i" if "i < 3" for i using body_cap(1) [OF t(1)] that by blast
  then have cap: "capture (capsBody 3 t ?c) 1 = condsText (conds_of t)" "capture (capsBody 3 t ?c) 2 = label_of t"
    using c1 by (simp_all add: capture_def cap_def)
  have "conditionInput (readBack d) = d" if "d \<in> set (conds_of t)" for d
    using that t(6) cond_parts [of d] by (auto simp: list_all_iff conditionInput_def readBack_def)
  then have "map conditionInput (readConditions (condsText (conds_of t))) = conds_of t"
    unfolding read_conds [OF t(6)] map_map by (intro map_idI) simp
  then show "visualTier (capsBody 3 t ?c) = t"
    unfolding visualTier_def cap using matched_tier [OF assms, of ?c 3] by (simp add: capsCond_def)
  show "parsedTier ((3, buildTierBodyExpr t) # ?c) = \<lparr>pt_label = label_of t, pt_conditions = map readBack (conds_of t), pt_prices = shownPrices t\<rparr>"
    using c1 read_conds [OF t(6)] read_body [OF t(1)] by (simp add: parsedTier_def capture_def cap_def)
qed

section \<open>Configurations\<close>

text \<open>Every tier is complete; all tiers but the last have a condition, and the last has none unless it is alone.\<close>

definition config_ok :: "VisualConfig \<Rightarrow> bool" where
  "config_ok cfg \<longleftrightarrow> tiers cfg \<noteq> [] \<and> list_all tier_ok (tiers cfg) \<and> list_all (\<lambda>t. conds_of t \<noteq> []) (butlast (tiers cfg)) \<and>
     (length (tiers cfg) > 1 \<longrightarrow> conds_of (last (tiers cfg)) = [])"

lemma tier_call: "tier_ok t \<Longrightarrow> tierCall d t = callText t"
  using tier_okD [of t] by (simp add: tierCall_def callText_def text_or_def)

definition tailText :: "VisualTier list \<Rightarrow> jstr" where
  "tailText ts = (if length ts = 1 \<and> conds_of (hd ts) \<noteq> [] then js '' : '' @ zero_expr else [])"

lemma generate_text:
  assumes "config_ok cfg"
  shows "generateExprFromVisualConfig (Some cfg) = js_join [32, 58, 32] (map withCond (tiers cfg)) @ tailText (tiers cfg)"
proof -
  have ok: "tier_ok t" if "t \<in> set (tiers cfg)" for t using that assms by (auto simp: config_ok_def list_all_iff)
  have cond: "buildConditionStr (vt_conditions t) = condsText (conds_of t)" if "tier_ok t" for t
    using tier_okD [OF that] cond_str by simp
  have ne: "condsText (conds_of t) = [] \<longleftrightarrow> conds_of t = []" if "tier_ok t" for t
    using tier_okD(6) [OF that] condsText_nonempty by (auto simp: condsText_def)
  have "tiers cfg \<noteq> []" using assms by (simp add: config_ok_def)
  then consider t where "tiers cfg = [t]" | t u ts where "tiers cfg = t # u # ts" by (metis list.exhaust)
  then show ?thesis
  proof cases
    case 1
    then have t: "tier_ok t" using ok by simp
    have "generateExprFromVisualConfig (Some cfg) = (if conds_of t \<noteq> [] then condsText (conds_of t) @ js '' ? '' @ callText t @ js '' : '' @ zero_expr else callText t)"
      unfolding generateExprFromVisualConfig_def option.case 1 list.case Let_def cond [OF t] ne [OF t] tier_call [OF t] by simp
    then show ?thesis unfolding 1 by (simp add: tailText_def withCond_def)
  next
    case 2
    let ?ts = "tiers cfg"
    have n: "length ?ts > 1" using 2 by simp
    have "map (tierPart (length ?ts)) (enumerate 0 ?ts) = map withCond ?ts"
    proof (rule nth_equalityI)
      fix i assume "i < length (map (tierPart (length ?ts)) (enumerate 0 ?ts))"
      then have i: "i < length ?ts" by simp
      let ?t = "?ts ! i"
      have t: "tier_ok ?t" using ok i by simp
      have "conds_of ?t = []" if "\<not> i + 1 < length ?ts"
      proof -
        have "i = length ?ts - 1" using that i by simp
        then have "?t = last ?ts" using \<open>tiers cfg \<noteq> []\<close> by (simp add: last_conv_nth)
        then show ?thesis using assms n by (simp add: config_ok_def)
      qed
      then show "map (tierPart (length ?ts)) (enumerate 0 ?ts) ! i = map withCond ?ts ! i"
        using i cond [OF t] ne [OF t] tier_call [OF t] by (auto simp: nth_enumerate_eq tierPart_def withCond_def Let_def)
    qed simp
    moreover have "generateExprFromVisualConfig (Some cfg) = js_join (js '' : '') (map (tierPart (length ?ts)) (enumerate 0 ?ts))"
      unfolding generateExprFromVisualConfig_def option.case 2 list.case ..
    moreover have "tailText ?ts = []" using n by (simp add: tailText_def)
    moreover have "js '' : '' = [32, 58, 32]" by simp
    ultimately show ?thesis by (simp only: append_Nil2)
  qed
qed

text \<open>What both readers find in the text.\<close>

lemma tier_gap:
  assumes "y = 32 \<or> y = 58"
  shows "rm visualTierRe (p, y # s, []) = []" "rm tierRe (p, y # s, []) = []"
proof -
  have v: "misses cond_vars (y # s) []" using assms by (auto simp: cond_vars_units misses_def)
  then have "misses (seq [condGroup, ws_star, Lit (js ''?''), ws_star]) (y # s) []"
    by (simp add: condGroup_def cond_item_def misses_Seq misses_Cap)
  then have o: "rm tier_cond (p, y # s, []) = [(p, y # s, [])]" by (simp add: tier_cond_def misses_def)
  have l: "\<not> prefix (js ''tier(\"'') (y # s)" using assms by auto
  have "rm (seq (tier_cond # tier_head @ rs)) (p, y # s, []) = []" for rs
    using o l by (simp add: tier_head_def del: js_Cons)
  then show "rm visualTierRe (p, y # s, []) = []" "rm tierRe (p, y # s, []) = []"
    unfolding visualTierRe_def tierRe_def by blast+
qed

lemma tail_quiet:
  "tailText ts = [] \<or> hd (tailText ts) = 32" "scan visualTierRe p (tailText ts) = None" "scan tierRe p (tailText ts) = None"
proof -
  show "tailText ts = [] \<or> hd (tailText ts) = 32" by (simp add: tailText_def)
  have z: "scan visualTierRe (Some 32) zero_expr = None" "scan tierRe (Some 32) zero_expr = None" by code_simp+
  have "scan visualTierRe p (32 # 58 # 32 # zero_expr) = None" "scan tierRe p (32 # 58 # 32 # zero_expr) = None"
    using tier_gap z by simp_all
  moreover have "scan visualTierRe p [] = None" "scan tierRe p [] = None"
  proof -
    have "misses cond_vars [] []" by (simp add: cond_vars_units misses_def)
    then have "misses (seq [condGroup, ws_star, Lit (js ''?''), ws_star]) [] []"
      by (simp add: condGroup_def cond_item_def misses_Seq misses_Cap)
    then have "rm tier_cond (p, [], []) = [(p, [], [])]" by (simp add: tier_cond_def misses_def)
    then have "rm (seq (tier_cond # tier_head @ rs)) (p, [], []) = []" for rs by (simp add: tier_head_def)
    then show "scan visualTierRe p [] = None" "scan tierRe p [] = None" unfolding visualTierRe_def tierRe_def by simp_all
  qed
  ultimately show "scan visualTierRe p (tailText ts) = None" "scan tierRe p (tailText ts) = None"
    by (simp_all add: tailText_def)
qed

lemma hit_of: "eats r w s [] c \<Longrightarrow> \<exists>rest. rm r (p, w @ s, []) = (after p w, s, c) # rest"
  unfolding eats_def by blast

lemma withCond_nonempty: "withCond t \<noteq> []"
  by (simp add: withCond_def callText_def)

lemma scan_tiers:
  assumes "list_all tier_ok ts" "ts \<noteq> []"
  shows "scan_all visualTierRe None (js_join [32, 58, 32] (map withCond ts) @ tailText us) =
      map (\<lambda>t. capsBody 3 t ((2, label_of t) # capsCond (conds_of t))) ts"
    and "scan_all tierRe None (js_join [32, 58, 32] (map withCond ts) @ tailText us) =
      map (\<lambda>t. (3, buildTierBodyExpr t) # (2, label_of t) # capsCond (conds_of t)) ts"
proof -
  have ok: "tier_ok t" if "t \<in> set ts" for t using that assms by (simp add: list_all_iff)
  have w: "\<not> is_word None" by (simp add: is_word_def)
  show "scan_all visualTierRe None (js_join [32, 58, 32] (map withCond ts) @ tailText us) =
      map (\<lambda>t. capsBody 3 t ((2, label_of t) # capsCond (conds_of t))) ts"
    by (rule scan_all_parts [THEN conjunct1])
      (use withCond_nonempty hit_of [OF eats_visual [OF ok]] tier_gap(1) tail_quiet(1,2) assms(2) w in blast)+
  show "scan_all tierRe None (js_join [32, 58, 32] (map withCond ts) @ tailText us) =
      map (\<lambda>t. (3, buildTierBodyExpr t) # (2, label_of t) # capsCond (conds_of t)) ts"
    by (rule scan_all_parts [THEN conjunct1])
      (use withCond_nonempty hit_of [OF eats_tier [OF ok]] tier_gap(2) tail_quiet(1,3) assms(2) w in blast)+
qed

lemma text_start:
  assumes "config_ok cfg"
  shows "\<exists>x xs. generateExprFromVisualConfig (Some cfg) = x # xs \<and> x \<noteq> 118 \<and> (x = 116 \<longleftrightarrow> conds_of (hd (tiers cfg)) = [])"
proof -
  obtain t ts where t: "tiers cfg = t # ts" "tier_ok t" using assms by (cases "tiers cfg") (auto simp: config_ok_def)
  obtain r where r: "js_join [32, 58, 32] (map withCond (tiers cfg)) @ tailText (tiers cfg) = withCond t @ r"
    using t(1) by (cases ts) (auto simp: js_join_Cons)
  have "\<exists>x xs. withCond t = x # xs \<and> x \<noteq> 118 \<and> (x = 116 \<longleftrightarrow> conds_of t = [])"
    using condsText_nonempty [OF tier_okD(6) [OF t(2)]] by (cases "condsText (conds_of t)") (auto simp: withCond_def callText_def)
  then show ?thesis unfolding generate_text [OF assms] r using t(1) by auto
qed

lemma version_none: "x \<noteq> 118 \<Longrightarrow> match_start version_re (x # xs) = None"
  by (simp add: version_re_def match_start_def)



section \<open>What a configuration says\<close>

text \<open>The content of a configuration, which is all its text can hold: a tier without a label is named after its
  position, conditions that are not filled in and those of the last of several tiers do not count, missing costs are
  zero, and the cache mode follows from the price of the one-hour cache.\<close>

definition complete :: "TierConditionInput \<Rightarrow> bool" where
  "complete c \<longleftrightarrow> ci_var c \<noteq> [] \<and> ci_op c \<noteq> [] \<and> ci_value c \<noteq> CNull \<and> ci_value c \<noteq> CStr []"

definition contentTier :: "jstr \<Rightarrow> bool \<Rightarrow> VisualTier \<Rightarrow> VisualTier" where
  "contentTier fallback conditional t =
     \<lparr>vt_label = Some (if label_of t = [] then fallback else label_of t),
      vt_conditions = Some (if conditional then filter complete (conds_of t) else []),
      vt_cache_mode = Some (if num_less (Fin 0) (cost t (js ''cache_create_1h_unit_cost'')) then Timed else Generic),
      vt_costs = map (\<lambda>f. (f, num_or_zero (cost t f))) (base_costs @ extra_costs)\<rparr>"

definition content :: "VisualConfig \<Rightarrow> VisualConfig" where
  "content cfg =
     \<lparr>tiers = (case tiers cfg of
        [t] \<Rightarrow> [contentTier (js ''default'') True t]
      | ts \<Rightarrow> map (\<lambda>(i, t). contentTier (js ''tier_'' @ dec (i + 1)) (i + 1 < length ts) t) (enumerate 0 ts))\<rparr>"

lemma truthy_zero [simp]: "num_or_zero (num_or_zero x) = num_or_zero x"
  by (simp add: num_or_zero_def)

lemma content_cost:
  assumes "f \<in> set (base_costs @ extra_costs)"
  shows "cost (contentTier fb b t) f = num_or_zero (cost t f)"
proof -
  have "map_of (map (\<lambda>f. (f, g f)) fs) f = Some (g f)" if "f \<in> set fs" for fs and g :: "jstr \<Rightarrow> jsnum"
    using that by (induction fs) auto
  from this [OF assms] show ?thesis by (simp add: cost_def contentTier_def)
qed

lemma content_body: "buildTierBodyExpr (contentTier fb b t) = buildTierBodyExpr t"
proof -
  have f: "fst x \<in> set extra_costs" if "x \<in> set BILLING_CACHE_VAR_MAP" for x
    using that set_zip_leftD [of "fst x" "snd x" extra_costs] unfolding cache_vars by simp
  then have e: "num_or_zero (cost (contentTier fb b t) (fst x)) = num_or_zero (cost t (fst x))"
    if "x \<in> set BILLING_CACHE_VAR_MAP" for x
    using that by (simp add: content_cost)
  then have "filter (\<lambda>(f, v). num_or_zero (cost (contentTier fb b t) f) \<noteq> Fin 0) BILLING_CACHE_VAR_MAP =
      filter (\<lambda>(f, v). num_or_zero (cost t f) \<noteq> Fin 0) BILLING_CACHE_VAR_MAP"
    by (intro filter_cong) auto
  moreover have "js ''input_unit_cost'' \<in> set (base_costs @ extra_costs)" "js ''output_unit_cost'' \<in> set (base_costs @ extra_costs)"
    by (simp_all add: base_costs_def)
  ultimately show ?thesis
    using e unfolding buildTierBodyExpr_def by (auto simp: content_cost simp del: js_Cons set_append intro!: arg_cong [of _ _ "js_join _"])
qed

lemma content_call: "fb \<noteq> [] \<Longrightarrow> tierCall fb (contentTier fb b t) = tierCall fb t"
  by (simp add: tierCall_def content_body)
    (simp add: contentTier_def text_or_def label_of_def split: option.split)

lemma content_conds: "buildConditionStr (vt_conditions (contentTier fb True t)) = buildConditionStr (vt_conditions t)"
proof -
  have "complete = (\<lambda>c. ci_var c \<noteq> [] \<and> ci_op c \<noteq> [] \<and> ci_value c \<noteq> CNull \<and> ci_value c \<noteq> CStr [])"
    by (simp add: complete_def fun_eq_iff)
  then show ?thesis
    by (simp add: buildConditionStr_def contentTier_def conds_of_def del: js_Cons split: option.split)
qed

lemma content_generate: "generateExprFromVisualConfig (Some (content cfg)) = generateExprFromVisualConfig (Some cfg)"
proof -
  consider "tiers cfg = []" | t where "tiers cfg = [t]" | t u ts where "tiers cfg = t # u # ts" by (metis list.exhaust)
  then show ?thesis
  proof cases
    case 1
    then show ?thesis by (simp add: generateExprFromVisualConfig_def content_def)
  next
    case 2
    have "js ''default'' \<noteq> []" by simp
    then show ?thesis using 2
      by (simp add: generateExprFromVisualConfig_def content_def content_call content_conds del: js_Cons)
  next
    case 3
    let ?ts = "tiers cfg" and ?us = "tiers (content cfg)" and ?n = "length (tiers cfg)"
    let ?c = "\<lambda>i t. contentTier (js ''tier_'' @ dec (i + 1)) (i + 1 < ?n) t"
    have us: "?us = map (\<lambda>(i, t). ?c i t) (enumerate 0 ?ts)" using 3 by (simp add: content_def del: js_Cons)
    then have len: "length ?us = ?n" by simp
    have part: "tierPart ?n (i, ?c i t) = tierPart ?n (i, t)" for i t
      using content_call [of "js ''tier_'' @ dec (i + 1)"] content_conds
      by (cases "i + 1 < ?n") (simp_all add: tierPart_def del: js_Cons)
    have "map (tierPart ?n) (enumerate 0 ?us) = map (tierPart ?n) (enumerate 0 ?ts)"
      by (rule nth_equalityI) (simp_all add: len nth_enumerate_eq us part [unfolded Suc_eq_plus1 [symmetric]] del: js_Cons)
    moreover have "generateExprFromVisualConfig (Some c) = js_join (js '' : '') (map (tierPart (length (tiers c))) (enumerate 0 (tiers c)))"
      if "length (tiers c) > 1" for c
      using that by (cases "tiers c"; cases "tl (tiers c)") (simp_all add: generateExprFromVisualConfig_def del: js_Cons)
    ultimately show ?thesis using 3 len by simp
  qed
qed




text \<open>A configuration with two tiers, the first for short inputs.\<close>

definition sample_tier :: "string \<Rightarrow> TierConditionInput list \<Rightarrow> jsnum \<Rightarrow> VisualTier" where
  "sample_tier l cs x = normalizeVisualTier \<lparr>vt_label = Some (js l), vt_conditions = Some cs, vt_cache_mode = None,
     vt_costs = [(js ''input_unit_cost'', x), (js ''output_unit_cost'', Fin 15), (js ''cache_create_1h_unit_cost'', Fin 6)]\<rparr>"

definition sample_config :: VisualConfig where
  "sample_config = \<lparr>tiers = [sample_tier ''short'' [\<lparr>ci_var = js ''len'', ci_op = js ''<='', ci_value = CNum (Fin 200000)\<rparr>] (Fin 3),
     sample_tier ''long'' [] (Fin (5/2))]\<rparr>"

lemma sample_ok: "config_ok sample_config"
  by code_simp

text \<open>The same with the first cache mode as the mode switch leaves it, an unfinished condition and no label on the
  second tier.\<close>

definition sketch_config :: VisualConfig where
  "sketch_config = \<lparr>tiers =
     [(hd (tiers sample_config))\<lparr>vt_cache_mode := Some Generic\<rparr>,
      (last (tiers sample_config))\<lparr>vt_label := Some [], vt_conditions := Some [\<lparr>ci_var = js ''p'', ci_op = js ''<'', ci_value = CNull\<rparr>]\<rparr>]\<rparr>"

lemma sketch_ok: "config_ok (content sketch_config)"
  by code_simp


text \<open>
  C5.  The price breakdown agrees with the visual editor: reading the expression generated from a configuration
  yields, tier by tier and in order, the label, the conditions and the prices of its content (with the names of the
  printer for empty labels, without unfinished conditions and without those of the last of several tiers), each price
  under the name the breakdown shows it by.  The content is assumed to be readable: labels without double quotes, finite
  costs, every tier but the last with at least one condition, and conditions on \<^verbatim>\<open>p\<close>, \<^verbatim>\<open>c\<close> or
  \<^verbatim>\<open>len\<close> with a number whose text has no minus sign.\<close>

theorem breakdown_agrees:
  assumes "config_ok (content cfg)"
  shows "parseTiersFromExpr (generateExprFromVisualConfig (Some cfg)) =
    map (\<lambda>t. \<lparr>pt_label = label_of t, pt_conditions = map readBack (conds_of t), pt_prices = shownPrices t\<rparr>) (tiers (content cfg))"
proof -
  let ?s = "generateExprFromVisualConfig (Some (content cfg))" and ?ts = "tiers (content cfg)"
  have ok: "list_all tier_ok ?ts" "?ts \<noteq> []" using assms by (auto simp: config_ok_def)
  obtain x xs where x: "?s = x # xs" "x \<noteq> 118" using text_start [OF assms] by blast
  have v: "snd (stripExprVersion ?s) = ?s" using version_none [OF x(2)] by (simp add: stripExprVersion_def x(1))
  have "map parsedTier (scan_all tierRe None ?s) =
      map (\<lambda>t. \<lparr>pt_label = label_of t, pt_conditions = map readBack (conds_of t), pt_prices = shownPrices t\<rparr>) ?ts"
    unfolding generate_text [OF assms] scan_tiers(2) [OF ok] map_map
    by (rule map_cong [OF refl]) (use ok read_tier(2) in \<open>auto simp: list_all_iff\<close>)
  then show ?thesis using x(1) v unfolding content_generate [symmetric, of cfg] by (simp add: parseTiersFromExpr_def)
qed

theorem breakdown_agrees_witness:
  "map pt_label (parseTiersFromExpr (generateExprFromVisualConfig (Some sketch_config))) = map js [''short'', ''tier_2'']"
proof -
  have "map label_of (tiers (content sketch_config)) = map js [''short'', ''tier_2'']" by code_simp
  then show ?thesis unfolding breakdown_agrees [OF sketch_ok] by (simp add: comp_def)
qed

text \<open>A tier without a condition before the last one makes the editor print two calls joined by a colon with no
  question mark, which is no expression.\<close>

lemma missing_condition_printed:
  "buildConditionStr (vt_conditions a) = [] \<Longrightarrow>
   generateExprFromVisualConfig (Some \<lparr>tiers = [a, b]\<rparr>) = tierCall (js ''tier_1'') a @ js '' : '' @ tierCall (js ''tier_2'') b"
proof -
  have "dec (Suc 0) = [49]" "dec (Suc (Suc 0)) = [50]" by code_simp+
  then show "buildConditionStr (vt_conditions a) = [] \<Longrightarrow> ?thesis"
    by (simp add: generateExprFromVisualConfig_def tierPart_def Let_def)
qed

text \<open>The estimator binds exactly the variables of the registry.\<close>

lemma estimator_binds: "map fst (estimatorEnv p c extra) = map bv_key (filter bv_isBase BILLING_VARS) @ js ''len'' # map bv_key BILLING_EXTRA_VARS"
  by (simp add: estimatorEnv_def ESTIMATOR_VARS_def BILLING_EXTRA_VARS_def BILLING_VARS_def)

lemma estimator_failure:
  "js_trim e \<noteq> [] \<Longrightarrow> run e (estimatorEnv p c extra) = Inl m \<Longrightarrow>
    evalExprLocally run e p c extra = \<lparr>er_cost = Fin 0, er_matchedTier = [], er_error = Some m\<rparr>"
  by (simp add: evalExprLocally_def)

end
