(* ===== verification/Channel_Form.thy ===== *)
theory Channel_Form
  imports JSON
begin

text \<open>
  The form of a channel: loading a channel into it, its two JSON settings texts, and the payloads that
  create and update a channel (\<^verbatim>\<open>features/channels/lib/channel-form.ts\<close>, the types of
  \<^verbatim>\<open>features/channels/types.ts\<close>).
\<close>

section \<open>Channels and forms\<close>

datatype MultiKeyType = Random | Polling

record ChannelInfo =
  is_multi_key :: bool
  multi_key_size :: jsnum
  multi_key_status_list :: "(jstr \<times> jsnum) list option"
  multi_key_disabled_reason :: "(jstr \<times> jstr) list option"
  multi_key_disabled_time :: "(jstr \<times> jsnum) list option"
  multi_key_polling_index :: jsnum
  multi_key_mode :: "MultiKeyType option"

text \<open>A text or number that may be null or missing is an option.\<close>

record Channel =
  c_id :: jsnum
  c_type :: jsnum
  c_key :: jstr
  c_openai_organization :: "jstr option"
  c_test_model :: "jstr option"
  c_status :: jsnum
  c_name :: jstr
  c_weight :: "jsnum option"
  c_created_time :: jsnum
  c_test_time :: jsnum
  c_response_time :: jsnum
  c_base_url :: "jstr option"
  c_other :: jstr
  c_balance :: jsnum
  c_balance_updated_time :: jsnum
  c_models :: jstr
  c_group :: jstr
  c_used_quota :: jsnum
  c_model_mapping :: "jstr option"
  c_status_code_mapping :: "jstr option"
  c_priority :: "jsnum option"
  c_auto_ban :: "jsnum option"
  c_other_info :: jstr
  c_tag :: "jstr option"
  c_setting :: "jstr option"
  c_param_override :: "jstr option"
  c_header_override :: "jstr option"
  c_remark :: jstr
  c_max_input_tokens :: jsnum
  c_channel_info :: ChannelInfo
  c_settings :: jstr

datatype MultiKeyMode = Single | Batch | MultiToSingle

datatype KeyMode = Append | Replace

text \<open>
  The values of the form.  An absent optional text is the empty text and an absent optional number NaN: the
  code reads both through \<^verbatim>\<open>||\<close>.  The settings taken over from a parsed text are dynamic values.
\<close>

record ChannelFormValues =
  f_name :: jstr
  f_type :: jsnum
  f_base_url :: jstr
  f_key :: jstr
  f_openai_organization :: jstr
  f_models :: jstr
  f_group :: "jstr list"
  f_model_mapping :: jstr
  f_priority :: jsnum
  f_weight :: jsnum
  f_test_model :: jstr
  f_auto_ban :: "jsnum option"
  f_status :: jsnum
  f_status_code_mapping :: jstr
  f_tag :: jstr
  f_remark :: jstr
  f_setting :: jstr
  f_param_override :: jstr
  f_header_override :: jstr
  f_settings :: jstr
  f_other :: jstr
  f_multi_key_mode :: "MultiKeyMode option"
  f_multi_key_type :: "MultiKeyType option"
  f_batch_add_set_key_prefix_2_name :: bool
  f_key_mode :: KeyMode
  f_force_format :: json
  f_thinking_to_content :: json
  f_proxy :: json
  f_pass_through_body_enabled :: json
  f_system_prompt :: json
  f_system_prompt_override :: json
  f_is_enterprise_account :: bool
  f_vertex_key_type :: json
  f_aws_key_type :: json
  f_azure_responses_version :: json
  f_allow_service_tier :: bool
  f_disable_store :: bool
  f_allow_safety_identifier :: bool
  f_allow_include_obfuscation :: bool
  f_allow_inference_geo :: bool
  f_allow_speed :: bool
  f_claude_beta_query :: bool
  f_upstream_model_update_check_enabled :: bool
  f_upstream_model_update_auto_sync_enabled :: bool
  f_upstream_model_update_ignored_models :: jstr

definition CHANNEL_FORM_DEFAULT_VALUES :: ChannelFormValues where
  "CHANNEL_FORM_DEFAULT_VALUES =
     \<lparr>f_name = [], f_type = Fin 1, f_base_url = [], f_key = [], f_openai_organization = [], f_models = [],
      f_group = [js ''default''], f_model_mapping = [], f_priority = Fin 0, f_weight = Fin 0, f_test_model = [],
      f_auto_ban = Some (Fin 1), f_status = Fin 1, f_status_code_mapping = [], f_tag = [], f_remark = [], f_setting = [],
      f_param_override = [], f_header_override = [], f_settings = js ''{}'', f_other = [], f_multi_key_mode = Some Single,
      f_multi_key_type = Some Random, f_batch_add_set_key_prefix_2_name = False, f_key_mode = Append,
      f_force_format = JBool False, f_thinking_to_content = JBool False, f_proxy = JStr [], f_pass_through_body_enabled = JBool False,
      f_system_prompt = JStr [], f_system_prompt_override = JBool False, f_is_enterprise_account = False,
      f_vertex_key_type = JStr (js ''json''), f_aws_key_type = JStr (js ''ak_sk''), f_azure_responses_version = JStr [],
      f_allow_service_tier = False, f_disable_store = False, f_allow_safety_identifier = False,
      f_allow_include_obfuscation = False, f_allow_inference_geo = False, f_allow_speed = False, f_claude_beta_query = False,
      f_upstream_model_update_check_enabled = False, f_upstream_model_update_auto_sync_enabled = False,
      f_upstream_model_update_ignored_models = []\<rparr>"

text \<open>The checks of the form that are not about types.\<close>

definition channelFormSchema :: "ChannelFormValues \<Rightarrow> bool" where
  "channelFormSchema f \<longleftrightarrow>
     f_name f \<noteq> [] \<and> num_le (Fin 0) (f_type f) \<and> f_models f \<noteq> [] \<and> f_group f \<noteq> [] \<and> length (f_remark f) \<le> 255"

section \<open>Lists as texts\<close>

definition parseModels :: "jstr \<Rightarrow> jstr list" where
  "parseModels models = (if models = [] then [] else filter (\<lambda>m. m \<noteq> []) (map js_trim (js_split 44 models)))"

definition parseGroups :: "jstr \<Rightarrow> jstr list" where
  "parseGroups groups = (if groups = [] then [] else filter (\<lambda>g. g \<noteq> []) (map js_trim (js_split 44 groups)))"

definition formatModels :: "jstr list \<Rightarrow> jstr" where
  "formatModels models = js_join [44] models"

definition formatGroups :: "jstr list \<Rightarrow> jstr" where
  "formatGroups groups = js_join [44] groups"

definition validateJSON :: "jstr \<Rightarrow> bool" where
  "validateJSON v = (if js_trim v = [] then True else json_parse v \<noteq> None)"

definition validateModelMapping :: "jstr \<Rightarrow> bool" where
  "validateModelMapping v = (if js_trim v = [] then True else validateJSON v)"

section \<open>Loading a channel\<close>

text \<open>\<^verbatim>\<open>parsed.k || d\<close> and \<^verbatim>\<open>parsed.k === true\<close>.\<close>

definition prop_or :: "json \<Rightarrow> string \<Rightarrow> json \<Rightarrow> json" where
  "prop_or j k d = (case jget j (js k) of Some v \<Rightarrow> if json_truthy v then v else d | None \<Rightarrow> d)"

definition prop_true :: "json \<Rightarrow> string \<Rightarrow> bool" where
  "prop_true j k \<longleftrightarrow> jget j (js k) = Some (JBool True)"

text \<open>The value of a text that is to be parsed, if reading properties of it does not raise.\<close>

definition readable :: "jstr \<Rightarrow> json option" where
  "readable s = (case json_parse s of Some j \<Rightarrow> if j = JNull then None else Some j | None \<Rightarrow> None)"

definition loadSetting :: "jstr option \<Rightarrow> ChannelFormValues \<Rightarrow> ChannelFormValues" where
  "loadSetting setting f =
     (case setting of
        None \<Rightarrow> f
      | Some s \<Rightarrow>
          (case (if s = [] then None else readable s) of
             None \<Rightarrow> f
           | Some parsed \<Rightarrow>
               f\<lparr>f_force_format := prop_or parsed ''force_format'' (JBool False),
                 f_thinking_to_content := prop_or parsed ''thinking_to_content'' (JBool False),
                 f_proxy := prop_or parsed ''proxy'' (JStr []),
                 f_pass_through_body_enabled := prop_or parsed ''pass_through_body_enabled'' (JBool False),
                 f_system_prompt := prop_or parsed ''system_prompt'' (JStr []),
                 f_system_prompt_override := prop_or parsed ''system_prompt_override'' (JBool False)\<rparr>))"

text \<open>Joining the ignored models may raise, after the other settings have been read.\<close>

definition ignoredModels :: "json \<Rightarrow> jstr" where
  "ignoredModels parsed =
     (case jget parsed (js ''upstream_model_update_ignored_models'') of
        Some (JArr xs) \<Rightarrow> (case json_string (JArr xs) of Some t \<Rightarrow> t | None \<Rightarrow> [])
      | _ \<Rightarrow> [])"

definition loadSettings :: "jstr \<Rightarrow> ChannelFormValues \<Rightarrow> ChannelFormValues" where
  "loadSettings settings f =
     (case (if settings = [] then None else readable settings) of
        None \<Rightarrow> f
      | Some parsed \<Rightarrow>
          f\<lparr>f_vertex_key_type := prop_or parsed ''vertex_key_type'' (JStr (js ''json'')),
            f_azure_responses_version := prop_or parsed ''azure_responses_version'' (JStr []),
            f_is_enterprise_account := prop_true parsed ''openrouter_enterprise'',
            f_aws_key_type := prop_or parsed ''aws_key_type'' (JStr (js ''ak_sk'')),
            f_allow_service_tier := prop_true parsed ''allow_service_tier'',
            f_disable_store := prop_true parsed ''disable_store'',
            f_allow_safety_identifier := prop_true parsed ''allow_safety_identifier'',
            f_allow_include_obfuscation := prop_true parsed ''allow_include_obfuscation'',
            f_allow_inference_geo := prop_true parsed ''allow_inference_geo'',
            f_allow_speed := prop_true parsed ''allow_speed'',
            f_claude_beta_query := prop_true parsed ''claude_beta_query'',
            f_upstream_model_update_check_enabled := prop_true parsed ''upstream_model_update_check_enabled'',
            f_upstream_model_update_auto_sync_enabled := prop_true parsed ''upstream_model_update_auto_sync_enabled'',
            f_upstream_model_update_ignored_models := ignoredModels parsed\<rparr>)"

definition text_of :: "jstr option \<Rightarrow> jstr" where
  "text_of v = (case v of Some t \<Rightarrow> t | None \<Rightarrow> [])"

definition number_of :: "jsnum option \<Rightarrow> jsnum" where
  "number_of v = (case v of Some x \<Rightarrow> num_or_zero x | None \<Rightarrow> Fin 0)"

definition transformChannelToFormDefaults :: "Channel \<Rightarrow> ChannelFormValues" where
  "transformChannelToFormDefaults channel =
     loadSettings (c_settings channel) (loadSetting (c_setting channel)
       (CHANNEL_FORM_DEFAULT_VALUES
         \<lparr>f_name := c_name channel,
          f_type := c_type channel,
          f_base_url := text_of (c_base_url channel),
          f_key := [],
          f_openai_organization := text_of (c_openai_organization channel),
          f_models := c_models channel,
          f_group := parseGroups (if c_group channel = [] then js ''default'' else c_group channel),
          f_model_mapping := text_of (c_model_mapping channel),
          f_priority := number_of (c_priority channel),
          f_weight := number_of (c_weight channel),
          f_test_model := text_of (c_test_model channel),
          f_auto_ban := Some (case c_auto_ban channel of Some x \<Rightarrow> x | None \<Rightarrow> Fin 1),
          f_status := c_status channel,
          f_status_code_mapping := text_of (c_status_code_mapping channel),
          f_tag := text_of (c_tag channel),
          f_remark := c_remark channel,
          f_setting := text_of (c_setting channel),
          f_param_override := text_of (c_param_override channel),
          f_header_override := text_of (c_header_override channel),
          f_settings := (if c_settings channel = [] then js ''{}'' else c_settings channel),
          f_other := c_other channel,
          f_multi_key_mode := Some Single,
          f_multi_key_type := Some (case multi_key_mode (c_channel_info channel) of Some m \<Rightarrow> m | None \<Rightarrow> Random),
          f_batch_add_set_key_prefix_2_name := False,
          f_key_mode := Append\<rparr>))"

section \<open>The settings texts\<close>

definition json_or :: "json \<Rightarrow> json \<Rightarrow> json" where
  "json_or v d = (if json_truthy v then v else d)"

definition settingObj :: "ChannelFormValues \<Rightarrow> (jstr \<times> json) list" where
  "settingObj f =
     [(js ''force_format'', json_or (f_force_format f) (JBool False)),
      (js ''thinking_to_content'', json_or (f_thinking_to_content f) (JBool False)),
      (js ''proxy'', json_or (f_proxy f) (JStr [])),
      (js ''pass_through_body_enabled'', json_or (f_pass_through_body_enabled f) (JBool False)),
      (js ''system_prompt'', json_or (f_system_prompt f) (JStr [])),
      (js ''system_prompt_override'', json_or (f_system_prompt_override f) (JBool False))]"

definition buildSettingJSON :: "ChannelFormValues \<Rightarrow> jstr" where
  "buildSettingJSON f = json_str (JObj (settingObj f))"

definition obj_del :: "(jstr \<times> 'v) list \<Rightarrow> jstr \<Rightarrow> (jstr \<times> 'v) list" where
  "obj_del ps k = filter (\<lambda>(k', v). k' \<noteq> k) ps"

text \<open>One setting: written when the channel type has it, removed otherwise.\<close>

definition setOrDelete :: "bool \<Rightarrow> string \<Rightarrow> json \<Rightarrow> (jstr \<times> json) list \<Rightarrow> (jstr \<times> json) list" where
  "setOrDelete present k v ps = (if present then obj_put ps (js k) v else obj_del ps (js k))"

definition keyTypeSettings :: "ChannelFormValues \<Rightarrow> (jstr \<times> json) list \<Rightarrow> (jstr \<times> json) list" where
  "keyTypeSettings f ps =
     setOrDelete (f_type f = Fin 33) ''aws_key_type'' (json_or (f_aws_key_type f) (JStr (js ''ak_sk'')))
    (setOrDelete (f_type f = Fin 20) ''openrouter_enterprise'' (JBool (f_is_enterprise_account f))
    (setOrDelete (f_type f = Fin 3 \<and> json_truthy (f_azure_responses_version f)) ''azure_responses_version'' (f_azure_responses_version f)
    (setOrDelete (f_type f = Fin 41) ''vertex_key_type'' (json_or (f_vertex_key_type f) (JStr (js ''json''))) ps)))"

definition passthroughSettings :: "ChannelFormValues \<Rightarrow> (jstr \<times> json) list \<Rightarrow> (jstr \<times> json) list" where
  "passthroughSettings f ps =
     (let ps1 = setOrDelete (f_type f = Fin 1 \<or> f_type f = Fin 14) ''allow_service_tier'' (JBool (f_allow_service_tier f)) ps;
          ps2 = (if f_type f = Fin 1 then
              obj_put (obj_put (obj_put (obj_put ps1 (js ''disable_store'') (JBool (f_disable_store f)))
                (js ''allow_safety_identifier'') (JBool (f_allow_safety_identifier f)))
                (js ''allow_include_obfuscation'') (JBool (f_allow_include_obfuscation f)))
                (js ''allow_inference_geo'') (JBool (f_allow_inference_geo f))
            else
              (let qs = obj_del (obj_del (obj_del ps1 (js ''disable_store'')) (js ''allow_safety_identifier'')) (js ''allow_include_obfuscation'')
               in if f_type f \<noteq> Fin 14 then obj_del qs (js ''allow_inference_geo'') else qs)) in
      if f_type f = Fin 14 then
        obj_put (obj_put (obj_put ps2 (js ''allow_inference_geo'') (JBool (f_allow_inference_geo f)))
          (js ''allow_speed'') (JBool (f_allow_speed f)))
          (js ''claude_beta_query'') (JBool (f_claude_beta_query f))
      else obj_del (obj_del ps2 (js ''allow_speed'')) (js ''claude_beta_query''))"

definition MODEL_FETCHABLE_TYPES :: "jsnum list" where
  "MODEL_FETCHABLE_TYPES = map Fin [1, 4, 14, 17, 20, 23, 24, 25, 26, 27, 31, 34, 35, 40, 42, 43, 47, 48]"

fun is_arr :: "json option \<Rightarrow> bool" where
  "is_arr (Some (JArr _)) = True"
| "is_arr _ = False"

fun is_num :: "json option \<Rightarrow> bool" where
  "is_num (Some (JNum _)) = True"
| "is_num _ = False"

definition upstreamSettings :: "ChannelFormValues \<Rightarrow> (jstr \<times> json) list \<Rightarrow> (jstr \<times> json) list" where
  "upstreamSettings f ps =
     (if f_type f \<in> set MODEL_FETCHABLE_TYPES then
        (let check = f_upstream_model_update_check_enabled f;
             ps1 = obj_put ps (js ''upstream_model_update_check_enabled'') (JBool check);
             ps2 = obj_put ps1 (js ''upstream_model_update_auto_sync_enabled'')
               (JBool (check \<and> f_upstream_model_update_auto_sync_enabled f));
             ps3 = obj_put ps2 (js ''upstream_model_update_ignored_models'')
               (JArr (map JStr (js_uniq (filter (\<lambda>m. m \<noteq> []) (map js_trim (js_split 44 (f_upstream_model_update_ignored_models f)))))));
             ps4 = (if \<not> is_arr (oget ps3 (js ''upstream_model_update_last_detected_models'')) \<or> \<not> check
               then obj_put ps3 (js ''upstream_model_update_last_detected_models'') (JArr []) else ps3) in
         if \<not> is_num (oget ps4 (js ''upstream_model_update_last_check_time''))
         then obj_put ps4 (js ''upstream_model_update_last_check_time'') (JNum (Fin 0)) else ps4)
      else ps)"

text \<open>
  The existing settings; \<open>None\<close> is a value on which the assignments and deletions raise (null, a text, a number or a
  truth value).  On an array they succeed without a trace in the text.
\<close>

definition existingSettings :: "ChannelFormValues \<Rightarrow> json option" where
  "existingSettings f =
     (if f_settings f \<noteq> [] \<and> f_settings f \<noteq> js ''{}'' then
        (case json_parse (f_settings f) of None \<Rightarrow> Some (JObj [])
         | Some (JObj ps) \<Rightarrow> Some (JObj ps) | Some (JArr xs) \<Rightarrow> Some (JArr xs) | Some _ \<Rightarrow> None)
      else Some (JObj []))"

definition buildSettingsJSON :: "ChannelFormValues \<Rightarrow> jstr option" where
  "buildSettingsJSON f =
     (case existingSettings f of
        Some (JObj ps) \<Rightarrow> Some (json_str (JObj (upstreamSettings f (passthroughSettings f (keyTypeSettings f ps)))))
      | Some j \<Rightarrow> Some (json_str j)
      | None \<Rightarrow> None)"

section \<open>Payloads\<close>

definition str_or_null :: "jstr \<Rightarrow> json" where
  "str_or_null t = (if t = [] then JNull else JStr t)"

definition num_or_null :: "jsnum \<Rightarrow> json" where
  "num_or_null x = (if num_truthy x then JNum x else JNull)"

text \<open>Both payloads share these properties, in this order.\<close>

definition payloadFields :: "ChannelFormValues \<Rightarrow> jstr \<Rightarrow> (string \<times> json) list" where
  "payloadFields f settings =
     [(''openai_organization'', str_or_null (f_openai_organization f)),
      (''models'', JStr (f_models f)),
      (''group'', JStr (formatGroups (f_group f))),
      (''model_mapping'', str_or_null (f_model_mapping f)),
      (''priority'', num_or_null (f_priority f)),
      (''weight'', num_or_null (f_weight f)),
      (''test_model'', str_or_null (f_test_model f)),
      (''auto_ban'', JNum (case f_auto_ban f of Some x \<Rightarrow> x | None \<Rightarrow> Fin 1)),
      (''status'', JNum (f_status f)),
      (''status_code_mapping'', str_or_null (f_status_code_mapping f)),
      (''tag'', str_or_null (f_tag f)),
      (''remark'', JStr (f_remark f)),
      (''setting'', JStr (buildSettingJSON f)),
      (''param_override'', str_or_null (f_param_override f)),
      (''header_override'', str_or_null (f_header_override f)),
      (''settings'', JStr settings),
      (''other'', JStr (f_other f))]"

definition named :: "(string \<times> json) list \<Rightarrow> (jstr \<times> json) list" where
  "named ps = map (\<lambda>(k, v). (js k, v)) ps"

definition cleanEmpty :: "(jstr \<times> json) list \<Rightarrow> (jstr \<times> json) list" where
  "cleanEmpty ps = map (\<lambda>(k, v). (k, if v = JStr [] then JNull else v)) ps"

record CreatePayload =
  cp_mode :: MultiKeyMode
  cp_multi_key_mode :: "MultiKeyType option"
  cp_batch_add_set_key_prefix_2_name :: "bool option"
  cp_channel :: "(jstr \<times> json) list"

definition transformFormDataToCreatePayload :: "ChannelFormValues \<Rightarrow> CreatePayload option" where
  "transformFormDataToCreatePayload f =
     (let m = (case f_multi_key_mode f of Some m \<Rightarrow> m | None \<Rightarrow> Single) in
      map_option (\<lambda>settings.
        \<lparr>cp_mode = m,
         cp_multi_key_mode = (if m = MultiToSingle then f_multi_key_type f else None),
         cp_batch_add_set_key_prefix_2_name = (if m = Batch then Some (f_batch_add_set_key_prefix_2_name f) else None),
         cp_channel = cleanEmpty (named
           ([(''name'', JStr (f_name f)), (''type'', JNum (f_type f)), (''base_url'', str_or_null (f_base_url f)), (''key'', JStr (f_key f))]
            @ payloadFields f settings))\<rparr>)
        (buildSettingsJSON f))"

definition updateFields :: "ChannelFormValues \<Rightarrow> jsnum \<Rightarrow> jstr \<Rightarrow> (jstr \<times> json) list" where
  "updateFields f channelId settings =
     cleanEmpty (named
       ([(''id'', JNum channelId), (''name'', JStr (f_name f)), (''type'', JNum (f_type f)), (''base_url'', str_or_null (f_base_url f))]
        @ payloadFields f settings @ (if js_trim (f_key f) \<noteq> [] then [(''key'', JStr (f_key f))] else [])))"

definition transformFormDataToUpdatePayload :: "ChannelFormValues \<Rightarrow> jsnum \<Rightarrow> (jstr \<times> json) list option" where
  "transformFormDataToUpdatePayload f channelId =
     map_option (\<lambda>settings.
       obj_put (obj_put (obj_put (obj_put (updateFields f channelId settings)
         (js ''model_mapping'') (JStr (f_model_mapping f)))
         (js ''status_code_mapping'') (JStr (f_status_code_mapping f)))
         (js ''param_override'') (JStr (f_param_override f)))
         (js ''header_override'') (JStr (f_header_override f)))
       (buildSettingsJSON f)"

section \<open>Properties of objects\<close>

lemma js_inject: "js a = js b \<longleftrightarrow> a = b"
proof -
  have "map (of_char :: char \<Rightarrow> nat) a = map of_char b \<longleftrightarrow> a = b" by (simp add: inj_map_eq_map [OF inj_onI] inj_def)
  then show ?thesis by (simp add: js_def)
qed

lemma oget_obj_del: "oget (obj_del ps k) k' = (if k' = k then None else oget ps k')"
  by (induction ps) (auto simp: obj_del_def)

lemma oget_setOrDelete:
  "oget (setOrDelete b k v ps) k' = (if k' = js k then (if b then Some v else None) else oget ps k')"
  by (simp add: setOrDelete_def oget_obj_put oget_obj_del)

lemma obj_ok: "obj_of ps = ps \<longleftrightarrow> is_obj ps"
  using obj_of_is_obj is_obj_obj_of by metis

lemma is_obj_del: "is_obj ps \<Longrightarrow> is_obj (obj_del ps k)"
proof -
  have m: "map fst (obj_del ps k) = filter (\<lambda>x. x \<noteq> k) (map fst ps)" by (induction ps) (auto simp: obj_del_def)
  show "is_obj ps \<Longrightarrow> is_obj (obj_del ps k)" unfolding is_obj_def m by (simp add: sorted_wrt_filter)
qed

text \<open>An object all of whose values are printable.\<close>

definition printable :: "(jstr \<times> json) list \<Rightarrow> bool" where
  "printable ps \<longleftrightarrow> json_wf (JObj ps)"

lemma printable_put: "printable ps \<Longrightarrow> utf16 k \<Longrightarrow> json_wf v \<Longrightarrow> printable (obj_put ps k v)"
  using set_obj_put [of ps k v] by (auto simp: printable_def obj_ok is_obj_put)

lemma printable_del: "printable ps \<Longrightarrow> printable (obj_del ps k)"
  by (auto simp: printable_def obj_ok is_obj_del) (auto simp: obj_del_def)

lemma utf16_js: "utf16 (js k)"
proof -
  have "(of_char c :: nat) < 65536" for c by (rule less_trans [OF nat_of_char_less_256]) simp
  then show ?thesis by (simp add: utf16_def js_def)
qed

lemma printable_setOrDelete: "printable ps \<Longrightarrow> (b \<Longrightarrow> json_wf v) \<Longrightarrow> printable (setOrDelete b k v ps)"
  by (simp add: setOrDelete_def printable_put printable_del utf16_js)

definition newSettings :: "ChannelFormValues \<Rightarrow> (jstr \<times> json) list \<Rightarrow> (jstr \<times> json) list" where
  "newSettings f ps = upstreamSettings f (passthroughSettings f (keyTypeSettings f ps))"

definition form_ok :: "ChannelFormValues \<Rightarrow> bool" where
  "form_ok f \<longleftrightarrow> json_wf (f_vertex_key_type f) \<and> json_wf (f_aws_key_type f) \<and> json_wf (f_azure_responses_version f) \<and>
     utf16 (f_upstream_model_update_ignored_models f)"

definition ignoredList :: "ChannelFormValues \<Rightarrow> jstr list" where
  "ignoredList f = js_uniq (filter (\<lambda>m. m \<noteq> []) (map js_trim (js_split 44 (f_upstream_model_update_ignored_models f))))"

lemma ignored_wf: "form_ok f \<Longrightarrow> m \<in> set (ignoredList f) \<Longrightarrow> utf16 m"
  using set_js_trim js_split_chars by (fastforce simp: form_ok_def ignoredList_def utf16_def)

lemma printable_new:
  assumes "printable ps" "form_ok f"
  shows "printable (newSettings f ps)"
proof -
  have w: "json_wf (json_or v d)" if "json_wf v" "json_wf d" for v d using that by (simp add: json_or_def)
  have "printable (keyTypeSettings f ps)"
    unfolding keyTypeSettings_def using assms w by (intro printable_setOrDelete) (auto simp: form_ok_def utf16_js)
  then have "printable (passthroughSettings f (keyTypeSettings f ps))"
    unfolding passthroughSettings_def Let_def
    by (auto intro!: printable_put printable_del printable_setOrDelete utf16_js simp del: js_Cons)
  moreover have "json_wf (JArr (map JStr (ignoredList f)))" using ignored_wf [OF assms(2)] by auto
  moreover have "json_wf (JNum (Fin 0))" by code_simp
  ultimately show ?thesis
    unfolding newSettings_def upstreamSettings_def Let_def ignoredList_def [symmetric]
    by (auto intro!: printable_put utf16_js simp del: js_Cons json_wf.simps(3))
qed

section \<open>Reading the settings back\<close>

lemma key_type_get:
  "oget (keyTypeSettings f ps) (js k) =
    (if k = ''aws_key_type'' then (if f_type f = Fin 33 then Some (json_or (f_aws_key_type f) (JStr (js ''ak_sk''))) else None)
     else if k = ''openrouter_enterprise'' then (if f_type f = Fin 20 then Some (JBool (f_is_enterprise_account f)) else None)
     else if k = ''azure_responses_version'' then (if f_type f = Fin 3 \<and> json_truthy (f_azure_responses_version f) then Some (f_azure_responses_version f) else None)
     else if k = ''vertex_key_type'' then (if f_type f = Fin 41 then Some (json_or (f_vertex_key_type f) (JStr (js ''json''))) else None)
     else oget ps (js k))"
  unfolding keyTypeSettings_def oget_setOrDelete js_inject by (simp only:)

lemma passthrough_get:
  "oget (passthroughSettings f ps) (js k) =
    (if k = ''claude_beta_query'' then (if f_type f = Fin 14 then Some (JBool (f_claude_beta_query f)) else None)
     else if k = ''allow_speed'' then (if f_type f = Fin 14 then Some (JBool (f_allow_speed f)) else None)
     else if k = ''allow_inference_geo'' then (if f_type f = Fin 14 \<or> f_type f = Fin 1 then Some (JBool (f_allow_inference_geo f)) else None)
     else if k = ''allow_include_obfuscation'' then (if f_type f = Fin 1 then Some (JBool (f_allow_include_obfuscation f)) else None)
     else if k = ''allow_safety_identifier'' then (if f_type f = Fin 1 then Some (JBool (f_allow_safety_identifier f)) else None)
     else if k = ''disable_store'' then (if f_type f = Fin 1 then Some (JBool (f_disable_store f)) else None)
     else if k = ''allow_service_tier'' then (if f_type f = Fin 1 \<or> f_type f = Fin 14 then Some (JBool (f_allow_service_tier f)) else None)
     else oget ps (js k))"
proof -
  consider "f_type f = Fin 14" | "f_type f = Fin 1" | "f_type f \<noteq> Fin 14" "f_type f \<noteq> Fin 1" by blast
  then show ?thesis
    by cases (simp_all add: passthroughSettings_def Let_def oget_setOrDelete oget_obj_put oget_obj_del js_inject del: js_Cons)
qed

lemma upstream_get:
  "oget (upstreamSettings f ps) (js k) =
    (if f_type f \<in> set MODEL_FETCHABLE_TYPES then
      (if k = ''upstream_model_update_check_enabled'' then Some (JBool (f_upstream_model_update_check_enabled f))
       else if k = ''upstream_model_update_auto_sync_enabled'' then
         Some (JBool (f_upstream_model_update_check_enabled f \<and> f_upstream_model_update_auto_sync_enabled f))
       else if k = ''upstream_model_update_ignored_models'' then Some (JArr (map JStr (ignoredList f)))
       else if k = ''upstream_model_update_last_detected_models'' then
         (if is_arr (oget ps (js k)) \<and> f_upstream_model_update_check_enabled f then oget ps (js k) else Some (JArr []))
       else if k = ''upstream_model_update_last_check_time'' then (if is_num (oget ps (js k)) then oget ps (js k) else Some (JNum (Fin 0)))
       else oget ps (js k))
     else oget ps (js k))"
  by (simp add: upstreamSettings_def Let_def oget_obj_put js_inject ignoredList_def del: js_Cons)

lemma load_text:
  assumes "printable ps"
  shows "readable (json_str (JObj ps)) = Some (JObj ps)" "json_str (JObj ps) \<noteq> []"
  using json_roundtrip [of "JObj ps"] assms by (auto simp: printable_def readable_def)

lemma join_strings: "json_string (JArr (map JStr ms)) = Some (js_join [44] ms)"
proof -
  have "map (\<lambda>x. if x = JNull then Some [] else json_string x) (map JStr ms) = map Some ms" by simp
  moreover have "join_opts (map Some ms) = Some (js_join [44] ms)" by (induction "[44] :: jstr" ms rule: js_join.induct) auto
  ultimately show ?thesis by (simp only: json_string.simps)
qed

lemmas settings_get = newSettings_def upstream_get passthrough_get key_type_get

lemma or_truthy: "json_truthy d \<Longrightarrow> json_truthy (json_or v d)"
  by (simp add: json_or_def)

lemma prop_true_get: "prop_true (JObj ps) k \<longleftrightarrow> oget ps (js k) = Some (JBool True)"
  by (simp add: prop_true_def)

lemma prop_or_get: "prop_or (JObj ps) k d = (case oget ps (js k) of Some v \<Rightarrow> json_or v d | None \<Rightarrow> d)"
  by (simp add: prop_or_def json_or_def split: option.split)

text \<open>What the form shows after the settings of a form have been saved over existing ones and loaded again.\<close>

definition same_settings :: "ChannelFormValues \<Rightarrow> (jstr \<times> json) list \<Rightarrow> ChannelFormValues \<Rightarrow> bool" where
  "same_settings f ps g \<longleftrightarrow>
     f_vertex_key_type g = (if f_type f = Fin 41 then json_or (f_vertex_key_type f) (JStr (js ''json'')) else JStr (js ''json'')) \<and>
     f_aws_key_type g = (if f_type f = Fin 33 then json_or (f_aws_key_type f) (JStr (js ''ak_sk'')) else JStr (js ''ak_sk'')) \<and>
     f_azure_responses_version g = (if f_type f = Fin 3 then json_or (f_azure_responses_version f) (JStr []) else JStr []) \<and>
     f_is_enterprise_account g = (f_type f = Fin 20 \<and> f_is_enterprise_account f) \<and>
     f_allow_service_tier g = (f_type f \<in> {Fin 1, Fin 14} \<and> f_allow_service_tier f) \<and>
     f_disable_store g = (f_type f = Fin 1 \<and> f_disable_store f) \<and>
     f_allow_safety_identifier g = (f_type f = Fin 1 \<and> f_allow_safety_identifier f) \<and>
     f_allow_include_obfuscation g = (f_type f = Fin 1 \<and> f_allow_include_obfuscation f) \<and>
     f_allow_inference_geo g = (f_type f \<in> {Fin 1, Fin 14} \<and> f_allow_inference_geo f) \<and>
     f_allow_speed g = (f_type f = Fin 14 \<and> f_allow_speed f) \<and>
     f_claude_beta_query g = (f_type f = Fin 14 \<and> f_claude_beta_query f) \<and>
     (if f_type f \<in> set MODEL_FETCHABLE_TYPES then
        f_upstream_model_update_check_enabled g = f_upstream_model_update_check_enabled f \<and>
        f_upstream_model_update_auto_sync_enabled g =
          (f_upstream_model_update_check_enabled f \<and> f_upstream_model_update_auto_sync_enabled f) \<and>
        f_upstream_model_update_ignored_models g = js_join [44] (ignoredList f)
      else
        f_upstream_model_update_check_enabled g = (oget ps (js ''upstream_model_update_check_enabled'') = Some (JBool True)) \<and>
        f_upstream_model_update_auto_sync_enabled g = (oget ps (js ''upstream_model_update_auto_sync_enabled'') = Some (JBool True)) \<and>
        f_upstream_model_update_ignored_models g = ignoredModels (JObj ps))"

lemma new_get:
  "oget (newSettings f ps) (js ''vertex_key_type'') = (if f_type f = Fin 41 then Some (json_or (f_vertex_key_type f) (JStr (js ''json''))) else None)"
  "oget (newSettings f ps) (js ''aws_key_type'') = (if f_type f = Fin 33 then Some (json_or (f_aws_key_type f) (JStr (js ''ak_sk''))) else None)"
  "oget (newSettings f ps) (js ''azure_responses_version'') =
     (if f_type f = Fin 3 \<and> json_truthy (f_azure_responses_version f) then Some (f_azure_responses_version f) else None)"
  "oget (newSettings f ps) (js ''openrouter_enterprise'') = (if f_type f = Fin 20 then Some (JBool (f_is_enterprise_account f)) else None)"
  "oget (newSettings f ps) (js ''allow_service_tier'') = (if f_type f = Fin 1 \<or> f_type f = Fin 14 then Some (JBool (f_allow_service_tier f)) else None)"
  "oget (newSettings f ps) (js ''disable_store'') = (if f_type f = Fin 1 then Some (JBool (f_disable_store f)) else None)"
  "oget (newSettings f ps) (js ''allow_safety_identifier'') = (if f_type f = Fin 1 then Some (JBool (f_allow_safety_identifier f)) else None)"
  "oget (newSettings f ps) (js ''allow_include_obfuscation'') = (if f_type f = Fin 1 then Some (JBool (f_allow_include_obfuscation f)) else None)"
  "oget (newSettings f ps) (js ''allow_inference_geo'') = (if f_type f = Fin 14 \<or> f_type f = Fin 1 then Some (JBool (f_allow_inference_geo f)) else None)"
  "oget (newSettings f ps) (js ''allow_speed'') = (if f_type f = Fin 14 then Some (JBool (f_allow_speed f)) else None)"
  "oget (newSettings f ps) (js ''claude_beta_query'') = (if f_type f = Fin 14 then Some (JBool (f_claude_beta_query f)) else None)"
  by (simp_all add: settings_get del: js_Cons)

lemma new_upstream_get:
  assumes "f_type f \<in> set MODEL_FETCHABLE_TYPES"
  shows "oget (newSettings f ps) (js ''upstream_model_update_check_enabled'') = Some (JBool (f_upstream_model_update_check_enabled f))"
    and "oget (newSettings f ps) (js ''upstream_model_update_auto_sync_enabled'') =
      Some (JBool (f_upstream_model_update_check_enabled f \<and> f_upstream_model_update_auto_sync_enabled f))"
    and "oget (newSettings f ps) (js ''upstream_model_update_ignored_models'') = Some (JArr (map JStr (ignoredList f)))"
  using assms by (simp_all add: settings_get del: js_Cons)

lemma new_upstream_kept:
  assumes "f_type f \<notin> set MODEL_FETCHABLE_TYPES"
  shows "oget (newSettings f ps) (js ''upstream_model_update_check_enabled'') = oget ps (js ''upstream_model_update_check_enabled'')"
    and "oget (newSettings f ps) (js ''upstream_model_update_auto_sync_enabled'') = oget ps (js ''upstream_model_update_auto_sync_enabled'')"
    and "oget (newSettings f ps) (js ''upstream_model_update_ignored_models'') = oget ps (js ''upstream_model_update_ignored_models'')"
  using assms by (simp_all add: settings_get del: js_Cons)

lemma load_saved:
  assumes "printable (newSettings f ps)"
  shows "same_settings f ps (loadSettings (json_str (JObj (newSettings f ps))) g)"
proof -
  let ?n = "newSettings f ps"
  have l: "(if json_str (JObj ?n) = [] then None else readable (json_str (JObj ?n))) = Some (JObj ?n)"
    using load_text [OF assms] by simp
  have up: "f_type f \<in> set MODEL_FETCHABLE_TYPES \<longrightarrow>
      (oget ?n (js ''upstream_model_update_check_enabled'') = Some (JBool True)) = f_upstream_model_update_check_enabled f \<and>
      (oget ?n (js ''upstream_model_update_auto_sync_enabled'') = Some (JBool True)) =
        (f_upstream_model_update_check_enabled f \<and> f_upstream_model_update_auto_sync_enabled f) \<and>
      ignoredModels (JObj ?n) = js_join [44] (ignoredList f)"
    using new_upstream_get [of f ps] by (simp add: ignoredModels_def join_strings del: js_Cons json_string.simps)
  have other: "f_type f \<notin> set MODEL_FETCHABLE_TYPES \<longrightarrow>
      (oget ?n (js ''upstream_model_update_check_enabled'') = Some (JBool True)) =
        (oget ps (js ''upstream_model_update_check_enabled'') = Some (JBool True)) \<and>
      (oget ?n (js ''upstream_model_update_auto_sync_enabled'') = Some (JBool True)) =
        (oget ps (js ''upstream_model_update_auto_sync_enabled'') = Some (JBool True)) \<and>
      ignoredModels (JObj ?n) = ignoredModels (JObj ps)"
    using new_upstream_kept [of f ps] by (simp add: ignoredModels_def del: js_Cons json_string.simps)
  have t: "json_or (json_or v d) d = json_or v d" for v d by (simp add: json_or_def)
  show ?thesis
    unfolding same_settings_def loadSettings_def l option.case prop_true_get prop_or_get ChannelFormValues.simps
    unfolding new_get using up other by (simp add: t json_or_def [of "f_azure_responses_version f"] del: js_Cons)
qed

text \<open>The settings of other kinds are kept.\<close>

definition managed :: "ChannelFormValues \<Rightarrow> string list" where
  "managed f = [''vertex_key_type'', ''aws_key_type'', ''azure_responses_version'', ''openrouter_enterprise'', ''allow_service_tier'',
     ''disable_store'', ''allow_safety_identifier'', ''allow_include_obfuscation'', ''allow_inference_geo'', ''allow_speed'', ''claude_beta_query'']
     @ (if f_type f \<in> set MODEL_FETCHABLE_TYPES then
       [''upstream_model_update_check_enabled'', ''upstream_model_update_auto_sync_enabled'', ''upstream_model_update_ignored_models'',
        ''upstream_model_update_last_detected_models'', ''upstream_model_update_last_check_time''] else [])"

lemma new_other: "k \<notin> set (managed f) \<Longrightarrow> oget (newSettings f ps) (js k) = oget ps (js k)"
  by (cases "f_type f \<in> set MODEL_FETCHABLE_TYPES") (simp_all add: managed_def settings_get)

text \<open>The settings a text holds; a text that does not parse holds none.\<close>

definition holds_settings :: "jstr \<Rightarrow> (jstr \<times> json) list \<Rightarrow> bool" where
  "holds_settings t ps \<longleftrightarrow> (case json_parse t of Some j \<Rightarrow> j = JObj ps | None \<Rightarrow> ps = [])"

lemma existing_held: "holds_settings (f_settings f) ps \<Longrightarrow> existingSettings f = Some (JObj ps)"
proof -
  have "json_parse (js ''{}'') = Some (JObj [])" "json_parse [] = None" by code_simp+
  then show "holds_settings (f_settings f) ps \<Longrightarrow> existingSettings f = Some (JObj ps)"
    by (auto simp: holds_settings_def existingSettings_def split: option.splits)
qed

text \<open>
  C18.  The settings of a channel form survive saving and loading.  Written over existing settings that are a JSON
  object (or a text that does not parse, which counts as the empty object), the text is read back as follows.  Every switch
  of the channel's type is as it was, key types and the version of Azure with their default for an empty value; the settings
  of other types have their defaults.  For a type whose models can be fetched, checking for new models is as it was,
  synchronising them is on when both are on, and the ignored models are those entered, trimmed and without duplicates; for
  another type these are what the existing text says.  Every setting the form does not manage for the type is unchanged.\<close>

theorem channel_settings_roundtrip:
  assumes "holds_settings (f_settings f) ps" "printable ps" "form_ok f"
  shows "\<exists>s. buildSettingsJSON f = Some s \<and> same_settings f ps (loadSettings s g) \<and>
    (\<exists>qs. json_parse s = Some (JObj qs) \<and> (\<forall>k. k \<notin> set (managed f) \<longrightarrow> oget qs (js k) = oget ps (js k)))"
proof (intro exI conjI allI impI)
  let ?n = "newSettings f ps"
  have p: "printable ?n" using assms(2,3) by (rule printable_new)
  show "buildSettingsJSON f = Some (json_str (JObj ?n))"
    using existing_held [OF assms(1)] by (simp add: buildSettingsJSON_def newSettings_def)
  show "same_settings f ps (loadSettings (json_str (JObj ?n)) g)" using p by (rule load_saved)
  show "json_parse (json_str (JObj ?n)) = Some (JObj ?n)" using p unfolding printable_def by (rule json_roundtrip)
  show "oget ?n (js k) = oget ps (js k)" if "k \<notin> set (managed f)" for k using that by (rule new_other)
qed

definition demo_form :: ChannelFormValues where
  "demo_form = CHANNEL_FORM_DEFAULT_VALUES
     \<lparr>f_settings := js ''{\"note\":1,\"allow_speed\":true}'', f_disable_store := True,
      f_upstream_model_update_ignored_models := js ''a, b,a''\<rparr>"

theorem channel_settings_roundtrip_witness:
  "\<exists>s. buildSettingsJSON demo_form = Some s \<and> f_disable_store (loadSettings s CHANNEL_FORM_DEFAULT_VALUES) \<and>
    (\<exists>qs. json_parse s = Some (JObj qs) \<and> oget qs (js ''note'') = Some (JNum (Fin 1)))"
proof -
  let ?ps = "[(js ''note'', JNum (Fin 1)), (js ''allow_speed'', JBool True)]"
  have e: "holds_settings (f_settings demo_form) ?ps" by code_simp
  have p: "printable ?ps" by code_simp
  have f: "form_ok demo_form" by code_simp
  obtain s qs where s: "buildSettingsJSON demo_form = Some s" "same_settings demo_form ?ps (loadSettings s CHANNEL_FORM_DEFAULT_VALUES)"
    and q: "json_parse s = Some (JObj qs)" "\<forall>k. k \<notin> set (managed demo_form) \<longrightarrow> oget qs (js k) = oget ?ps (js k)"
    using channel_settings_roundtrip [OF e p f, of CHANNEL_FORM_DEFAULT_VALUES] by blast
  have "''note'' \<notin> set (managed demo_form)" by code_simp
  then have "oget qs (js ''note'') = oget ?ps (js ''note'')" using q(2) by blast
  also have "\<dots> = Some (JNum (Fin 1))" by simp
  finally have n: "oget qs (js ''note'') = Some (JNum (Fin 1))" .
  have "f_type demo_form = Fin 1" "f_disable_store demo_form" by code_simp+
  then have "f_disable_store (loadSettings s CHANNEL_FORM_DEFAULT_VALUES)" using s(2) by (simp add: same_settings_def)
  with n show ?thesis using s(1) q(1) by blast
qed

section \<open>The update of a channel\<close>

definition clean :: "json \<Rightarrow> json" where
  "clean v = (if v = JStr [] then JNull else v)"

lemma oget_clean: "oget (cleanEmpty ps) k = map_option clean (oget ps k)"
  by (induction ps) (auto simp: cleanEmpty_def clean_def)

lemma oget_named:
  "oget (named []) (js k) = None" "oget (named ((k', v) # ps)) (js k) = (if k = k' then Some v else oget (named ps) (js k))"
  by (simp_all add: named_def js_inject del: js_Cons)

definition texts :: "string list" where
  "texts = [''model_mapping'', ''status_code_mapping'', ''param_override'', ''header_override'']"

definition formText :: "ChannelFormValues \<Rightarrow> string \<Rightarrow> jstr" where
  "formText f k = (if k = ''model_mapping'' then f_model_mapping f else if k = ''status_code_mapping'' then f_status_code_mapping f
     else if k = ''param_override'' then f_param_override f else f_header_override f)"

lemma payload_get:
  assumes "transformFormDataToUpdatePayload f i = Some ps"
  obtains s where "buildSettingsJSON f = Some s"
    "\<And>k. oget ps (js k) = (if k \<in> set texts then Some (JStr (formText f k)) else oget (updateFields f i s) (js k))"
proof -
  obtain s where s: "buildSettingsJSON f = Some s" using assms by (auto simp: transformFormDataToUpdatePayload_def)
  then have "oget ps (js k) = (if k \<in> set texts then Some (JStr (formText f k)) else oget (updateFields f i s) (js k))" for k
    using assms by (auto simp: transformFormDataToUpdatePayload_def oget_obj_put js_inject texts_def formText_def simp del: js_Cons)
  with s that show thesis by blast
qed

text \<open>The properties of a payload, before empty texts become null.\<close>

lemma update_get:
  "oget (updateFields f i s) (js k) = map_option clean (oget (named
     ([(''id'', JNum i), (''name'', JStr (f_name f)), (''type'', JNum (f_type f)), (''base_url'', str_or_null (f_base_url f))]
        @ payloadFields f s @ (if js_trim (f_key f) \<noteq> [] then [(''key'', JStr (f_key f))] else []))) (js k))"
  by (simp add: updateFields_def oget_clean del: js_Cons)

text \<open>What an edit without changes sends for a channel.\<close>

definition unchanged :: "Channel \<Rightarrow> (string \<times> json) list" where
  "unchanged ch =
     [(''name'', str_or_null (c_name ch)), (''type'', JNum (c_type ch)), (''base_url'', str_or_null (text_of (c_base_url ch))),
      (''openai_organization'', str_or_null (text_of (c_openai_organization ch))), (''models'', str_or_null (c_models ch)),
      (''group'', str_or_null (c_group ch)), (''model_mapping'', JStr (text_of (c_model_mapping ch))),
      (''priority'', num_or_null (number_of (c_priority ch))), (''weight'', num_or_null (number_of (c_weight ch))),
      (''test_model'', str_or_null (text_of (c_test_model ch))), (''status'', JNum (c_status ch)),
      (''auto_ban'', JNum (case c_auto_ban ch of Some x \<Rightarrow> x | None \<Rightarrow> Fin 1)),
      (''status_code_mapping'', JStr (text_of (c_status_code_mapping ch))), (''tag'', str_or_null (text_of (c_tag ch))),
      (''remark'', str_or_null (c_remark ch)), (''param_override'', JStr (text_of (c_param_override ch))),
      (''header_override'', JStr (text_of (c_header_override ch))), (''other'', str_or_null (c_other ch))]"

lemma load_plain:
  "f_name (loadSettings s f) = f_name f" "f_type (loadSettings s f) = f_type f" "f_base_url (loadSettings s f) = f_base_url f"
  "f_key (loadSettings s f) = f_key f" "f_openai_organization (loadSettings s f) = f_openai_organization f"
  "f_models (loadSettings s f) = f_models f" "f_group (loadSettings s f) = f_group f" "f_model_mapping (loadSettings s f) = f_model_mapping f"
  "f_priority (loadSettings s f) = f_priority f" "f_weight (loadSettings s f) = f_weight f" "f_test_model (loadSettings s f) = f_test_model f"
  "f_auto_ban (loadSettings s f) = f_auto_ban f" "f_status (loadSettings s f) = f_status f"
  "f_status_code_mapping (loadSettings s f) = f_status_code_mapping f" "f_tag (loadSettings s f) = f_tag f" "f_remark (loadSettings s f) = f_remark f"
  "f_param_override (loadSettings s f) = f_param_override f" "f_header_override (loadSettings s f) = f_header_override f"
  "f_other (loadSettings s f) = f_other f" "f_settings (loadSettings s f) = f_settings f"
  by (simp_all add: loadSettings_def split: option.split)

lemma load_plain_setting:
  "f_name (loadSetting s f) = f_name f" "f_type (loadSetting s f) = f_type f" "f_base_url (loadSetting s f) = f_base_url f"
  "f_key (loadSetting s f) = f_key f" "f_openai_organization (loadSetting s f) = f_openai_organization f"
  "f_models (loadSetting s f) = f_models f" "f_group (loadSetting s f) = f_group f" "f_model_mapping (loadSetting s f) = f_model_mapping f"
  "f_priority (loadSetting s f) = f_priority f" "f_weight (loadSetting s f) = f_weight f" "f_test_model (loadSetting s f) = f_test_model f"
  "f_auto_ban (loadSetting s f) = f_auto_ban f" "f_status (loadSetting s f) = f_status f"
  "f_status_code_mapping (loadSetting s f) = f_status_code_mapping f" "f_tag (loadSetting s f) = f_tag f" "f_remark (loadSetting s f) = f_remark f"
  "f_param_override (loadSetting s f) = f_param_override f" "f_header_override (loadSetting s f) = f_header_override f"
  "f_other (loadSetting s f) = f_other f" "f_settings (loadSetting s f) = f_settings f"
  by (simp_all add: loadSetting_def split: option.split)

lemma clean_simps: "clean (JStr t) = str_or_null t" "clean (str_or_null t) = str_or_null t" "clean (JNum x) = JNum x" "clean (num_or_null x) = num_or_null x"
  by (simp_all add: clean_def str_or_null_def num_or_null_def)

lemma form_of_channel:
  "f_name (transformChannelToFormDefaults ch) = c_name ch" "f_type (transformChannelToFormDefaults ch) = c_type ch"
  "f_base_url (transformChannelToFormDefaults ch) = text_of (c_base_url ch)" "f_key (transformChannelToFormDefaults ch) = []"
  "f_openai_organization (transformChannelToFormDefaults ch) = text_of (c_openai_organization ch)"
  "f_models (transformChannelToFormDefaults ch) = c_models ch"
  "f_group (transformChannelToFormDefaults ch) = parseGroups (if c_group ch = [] then js ''default'' else c_group ch)"
  "f_model_mapping (transformChannelToFormDefaults ch) = text_of (c_model_mapping ch)"
  "f_priority (transformChannelToFormDefaults ch) = number_of (c_priority ch)" "f_weight (transformChannelToFormDefaults ch) = number_of (c_weight ch)"
  "f_auto_ban (transformChannelToFormDefaults ch) = Some (case c_auto_ban ch of Some x \<Rightarrow> x | None \<Rightarrow> Fin 1)"
  "f_test_model (transformChannelToFormDefaults ch) = text_of (c_test_model ch)" "f_status (transformChannelToFormDefaults ch) = c_status ch"
  "f_status_code_mapping (transformChannelToFormDefaults ch) = text_of (c_status_code_mapping ch)"
  "f_tag (transformChannelToFormDefaults ch) = text_of (c_tag ch)" "f_remark (transformChannelToFormDefaults ch) = c_remark ch"
  "f_param_override (transformChannelToFormDefaults ch) = text_of (c_param_override ch)"
  "f_header_override (transformChannelToFormDefaults ch) = text_of (c_header_override ch)" "f_other (transformChannelToFormDefaults ch) = c_other ch"
  "f_settings (transformChannelToFormDefaults ch) = (if c_settings ch = [] then js ''{}'' else c_settings ch)"
  unfolding transformChannelToFormDefaults_def load_plain load_plain_setting by simp_all

lemma update_succeeds: "existingSettings f \<noteq> None \<Longrightarrow> \<exists>ps. transformFormDataToUpdatePayload f i = Some ps"
  by (auto simp: transformFormDataToUpdatePayload_def buildSettingsJSON_def split: option.splits json.splits)

text \<open>
  C19.  Opening a channel for editing and saving it without a change succeeds when its settings are not a JSON value
  other than an object or an array (they may be empty or fail to parse) and its groups are non-empty and written the way the
  form writes them.  It sends the name, the type, the models, the groups, the status and the other plain fields of the channel
  as they were: the model mapping, the mapping of status codes and the two overrides as texts, the empty text when missing;
  every other empty or missing text as null; a priority or weight that is zero or missing as null; a missing automatic ban as
  1.  It never sends the key.\<close>

theorem edit_unchanged_keeps_channel:
  assumes "\<forall>j. json_parse (c_settings ch) = Some j \<longrightarrow> (\<exists>ps. j = JObj ps) \<or> (\<exists>xs. j = JArr xs)"
    and "formatGroups (parseGroups (c_group ch)) = c_group ch" "c_group ch \<noteq> []"
  shows "\<exists>ps. transformFormDataToUpdatePayload (transformChannelToFormDefaults ch) i = Some ps \<and>
    list_all (\<lambda>(k, v). oget ps (js k) = Some v) (unchanged ch) \<and> oget ps (js ''id'') = Some (JNum i) \<and> oget ps (js ''key'') = None"
proof -
  let ?f = "transformChannelToFormDefaults ch"
  have "existingSettings ?f \<noteq> None"
    using assms(1) by (auto simp: existingSettings_def form_of_channel split: option.split json.split)
  then obtain ps where ps: "transformFormDataToUpdatePayload ?f i = Some ps" using update_succeeds by blast
  obtain s where "\<And>k. oget ps (js k) = (if k \<in> set texts then Some (JStr (formText ?f k)) else oget (updateFields ?f i s) (js k))"
    using payload_get [OF ps] by blast
  then have "list_all (\<lambda>(k, v). oget ps (js k) = Some v) (unchanged ch) \<and> oget ps (js ''id'') = Some (JNum i) \<and> oget ps (js ''key'') = None"
    using assms(2,3)
    by (simp add: unchanged_def texts_def formText_def update_get payloadFields_def oget_named form_of_channel clean_simps del: js_Cons)
  with ps show ?thesis by blast
qed

definition demo_channel :: Channel where
  "demo_channel = \<lparr>c_id = Fin 7, c_type = Fin 1, c_key = [], c_openai_organization = None, c_test_model = None, c_status = Fin 1,
     c_name = js ''main'', c_weight = Some (Fin 0), c_created_time = Fin 0, c_test_time = Fin 0, c_response_time = Fin 120,
     c_base_url = None, c_other = [], c_balance = Fin 0, c_balance_updated_time = Fin 0, c_models = js ''m1,m2'', c_group = js ''default,vip'',
     c_used_quota = Fin 10, c_model_mapping = None, c_status_code_mapping = None, c_priority = Some (Fin 5), c_auto_ban = None, c_other_info = [],
     c_tag = Some (js ''t''), c_setting = None, c_param_override = None, c_header_override = None, c_remark = [], c_max_input_tokens = Fin 0,
     c_channel_info = \<lparr>is_multi_key = False, multi_key_size = Fin 0, multi_key_status_list = None, multi_key_disabled_reason = None,
       multi_key_disabled_time = None, multi_key_polling_index = Fin 0, multi_key_mode = None\<rparr>,
     c_settings = js ''{}''\<rparr>"

theorem edit_unchanged_keeps_channel_witness:
  "\<exists>ps. transformFormDataToUpdatePayload (transformChannelToFormDefaults demo_channel) (Fin 7) = Some ps \<and>
     oget ps (js ''id'') = Some (JNum (Fin 7)) \<and> oget ps (js ''key'') = None"
proof -
  have "json_parse (c_settings demo_channel) = Some (JObj [])" by code_simp
  then have "\<forall>j. json_parse (c_settings demo_channel) = Some j \<longrightarrow> (\<exists>ps. j = JObj ps) \<or> (\<exists>xs. j = JArr xs)" by simp
  moreover have "formatGroups (parseGroups (c_group demo_channel)) = c_group demo_channel" "c_group demo_channel \<noteq> []" by code_simp+
  ultimately show ?thesis using edit_unchanged_keeps_channel [of demo_channel "Fin 7"] by blast
qed

text \<open>Existing settings that are a JSON value but neither an object nor an array make the payload raise.\<close>

lemma null_settings_raise: "f_settings f = js ''null'' \<Longrightarrow> transformFormDataToUpdatePayload f i = None"
proof -
  have "json_parse (js ''null'') = Some JNull" "js ''null'' \<noteq> js ''{}''" by code_simp+
  then show "f_settings f = js ''null'' \<Longrightarrow> ?thesis"
    by (simp add: transformFormDataToUpdatePayload_def buildSettingsJSON_def existingSettings_def)
qed

text \<open>A priority set to zero is sent as null.\<close>

lemma zero_priority_null:
  "transformFormDataToUpdatePayload f i = Some ps \<Longrightarrow> f_priority f = Fin 0 \<Longrightarrow> oget ps (js ''priority'') = Some JNull"
  by (erule payload_get) (simp add: texts_def update_get payloadFields_def oget_named num_or_null_def clean_def del: js_Cons)

end
