(* ===== verification/JS_Arith.thy ===== *)
theory JS_Arith
  imports JSON
begin

text \<open>
  The multiplicative operators on JavaScript numbers and \<^verbatim>\<open>toFixed\<close>.
\<close>

section \<open>Products and quotients\<close>

fun num_val :: "jsnum \<Rightarrow> rat" where
  "num_val (Fin q) = q"
| "num_val _ = 0"

fun num_negative :: "jsnum \<Rightarrow> bool" where
  "num_negative (Fin q) \<longleftrightarrow> q < 0"
| "num_negative x \<longleftrightarrow> x = NegInf \<or> x = NegZero"

definition num_inf :: "jsnum \<Rightarrow> bool" where
  "num_inf x \<longleftrightarrow> x = PosInf \<or> x = NegInf"

definition num_zero :: "jsnum \<Rightarrow> bool" where
  "num_zero x \<longleftrightarrow> x = NegZero \<or> x = Fin 0"

definition signed :: "jsnum \<Rightarrow> jsnum \<Rightarrow> jsnum \<Rightarrow> jsnum" where
  "signed x y r = (if num_negative x = num_negative y then r else num_neg r)"

definition num_times :: "jsnum \<Rightarrow> jsnum \<Rightarrow> jsnum" where
  "num_times x y =
     (if x = NaN \<or> y = NaN then NaN
      else if num_inf x \<or> num_inf y then (if num_zero x \<or> num_zero y then NaN else signed x y PosInf)
      else if num_zero x \<or> num_zero y then signed x y (Fin 0)
      else to_double (num_val x * num_val y))"

definition num_div :: "jsnum \<Rightarrow> jsnum \<Rightarrow> jsnum" where
  "num_div x y =
     (if x = NaN \<or> y = NaN then NaN
      else if num_inf x then (if num_inf y then NaN else signed x y PosInf)
      else if num_inf y then signed x y (Fin 0)
      else if num_zero y then (if num_zero x then NaN else signed x y PosInf)
      else if num_zero x then signed x y (Fin 0)
      else to_double (num_val x / num_val y))"

lemma num_times_zero: "is_double (Fin q) \<Longrightarrow> 0 \<le> q \<Longrightarrow> num_times (Fin q) (Fin 0) = Fin 0"
  by (simp add: num_times_def num_inf_def num_zero_def signed_def)

lemma num_times_one: "is_double (Fin q) \<Longrightarrow> num_times (Fin q) (Fin 1) = Fin q"
  by (simp add: num_times_def num_inf_def num_zero_def signed_def)

lemma num_div_one: "is_double (Fin q) \<Longrightarrow> num_div (Fin q) (Fin 1) = Fin q"
  by (simp add: num_div_def num_inf_def num_zero_def signed_def)

section \<open>Differences as comparators\<close>

definition num_minus :: "jsnum \<Rightarrow> jsnum \<Rightarrow> jsnum" where
  "num_minus x y = num_plus x (num_neg y)"

text \<open>How \<^verbatim>\<open>sort\<close> reads the answer of a comparator: NaN counts as zero.\<close>

fun num_sign :: "jsnum \<Rightarrow> int" where
  "num_sign (Fin q) = (if q < 0 then - 1 else if q = 0 then 0 else 1)"
| "num_sign PosInf = 1"
| "num_sign NegInf = - 1"
| "num_sign _ = 0"

text \<open>Every double is a multiple of the smallest one, so that a difference never vanishes by rounding.\<close>

definition tiny :: rat where
  "tiny = 2 powi - 1074"

lemma tiny_pos: "0 < tiny"
  unfolding tiny_def by (rule powi_pos(1))

lemma double_grid: "is_double (Fin q) \<Longrightarrow> \<exists>m::int. q = of_int m * tiny"
proof -
  have pos: "\<exists>m::int. q = of_int m * tiny" if d: "is_double (Fin q)" "0 < q" for q
  proof -
    from double_form [OF d] obtain m where m: "q = of_int m * 2 powi double_exp q" .
    have "(2::rat) powi double_exp q = of_int (2 ^ nat (double_exp q - - 1074)) * tiny"
      unfolding tiny_def by (rule two_powi_split) (simp add: double_exp_def)
    with m have "q = of_int (m * 2 ^ nat (double_exp q - - 1074)) * tiny" by (metis mult.assoc of_int_mult)
    then show ?thesis ..
  qed
  assume d: "is_double (Fin q)"
  consider "q = 0" | "0 < q" | "0 < - q" by fastforce
  then show "\<exists>m::int. q = of_int m * tiny"
  proof cases
    case 1
    then have "q = of_int 0 * tiny" by simp
    then show ?thesis ..
  next
    case 3
    have "is_double (Fin (- q))" using d 3 to_double_uminus [of q] by simp
    from pos [OF this 3] obtain m :: int where "- q = of_int m * tiny" ..
    then have "q = of_int (- m) * tiny" by simp
    then show ?thesis ..
  qed (use pos d in blast)
qed

lemma round_pos_keeps: "tiny \<le> q \<Longrightarrow> 0 < round_pos q"
proof -
  assume q: "tiny \<le> q"
  then have "0 < q" by (rule less_le_trans [OF tiny_pos])
  have "2 powi double_exp q \<le> q"
  proof (cases "rlog 2 q - 52 \<le> - 1074")
    case True
    then show ?thesis using q by (simp add: double_exp_def max_absorb2 tiny_def)
  next
    case False
    then have "(2::rat) powi double_exp q \<le> 2 powi rlog 2 q" by (simp add: two_powi_le double_exp_def)
    also have "\<dots> \<le> q" using rlog_bounds(1) [of 2 q] \<open>0 < q\<close> by simp
    finally show ?thesis .
  qed
  then have "1 \<le> q / 2 powi double_exp q" by simp
  then have "1 \<le> round_even (q / 2 powi double_exp q)" using round_even_mono round_even_int [of 1] by (metis of_int_1)
  then show "0 < round_pos q" by (simp add: round_pos_def)
qed

lemma to_double_sign: "q = of_int m * tiny \<Longrightarrow> num_sign (to_double q) = sgn m"
proof -
  assume q: "q = of_int m * tiny"
  have big: "0 < round_pos \<bar>q\<bar>" if "m \<noteq> 0"
  proof -
    have "(1::rat) \<le> of_int \<bar>m\<bar>" using that by (metis of_int_1_le_iff zero_less_abs_iff zless_imp_add1_zle add_0)
    then have "tiny \<le> \<bar>q\<bar>" using q tiny_pos by (simp add: abs_mult)
    then show ?thesis by (rule round_pos_keeps)
  qed
  have s: "0 < q \<longleftrightarrow> 0 < m" "q < 0 \<longleftrightarrow> m < 0" "q = 0 \<longleftrightarrow> m = 0" using q tiny_pos by (auto simp: zero_less_mult_iff mult_less_0_iff)
  consider "m = 0" | "0 < m" | "m < 0" by fastforce
  then show "num_sign (to_double q) = sgn m"
    using big s by cases (auto simp: to_double_def)
qed

lemma minus_sign:
  assumes "is_double (Fin a)" "is_double (Fin b)"
  shows "num_sign (num_minus (Fin a) (Fin b)) = (if a < b then - 1 else if a = b then 0 else 1)"
proof (cases "b = 0")
  case True
  then show ?thesis by (simp add: num_minus_def)
next
  case False
  obtain m n :: int where m: "a = of_int m * tiny" and n: "b = of_int n * tiny"
    using double_grid [OF assms(1)] double_grid [OF assms(2)] by blast
  have d: "a - b = of_int (m - n) * tiny" using m n by (simp add: left_diff_distrib)
  have "a < b \<longleftrightarrow> m < n" "a = b \<longleftrightarrow> m = n" using m n tiny_pos by (auto simp: mult_less_cancel_right)
  then show ?thesis using to_double_sign [OF d] False by (auto simp: num_minus_def sgn_if)
qed

section \<open>Fixed-point texts\<close>

text \<open>\<^verbatim>\<open>x.toFixed(f)\<close>: the nearest multiple of the last place, the larger one of two.\<close>

definition fixed_digits :: "nat \<Rightarrow> nat \<Rightarrow> jstr" where
  "fixed_digits f n =
     (let ds = dec n; m = replicate (Suc f - length ds) 48 @ ds
      in if f = 0 then m else take (length m - f) m @ 46 # drop (length m - f) m)"

definition pos_fixed :: "nat \<Rightarrow> rat \<Rightarrow> jstr" where
  "pos_fixed f q = fixed_digits f (nat \<lfloor>q * 10 ^ f + 1 / 2\<rfloor>)"

fun to_fixed :: "nat \<Rightarrow> jsnum \<Rightarrow> jstr" where
  "to_fixed f (Fin q) =
     (if 10 ^ 21 \<le> \<bar>q\<bar> then num_str (Fin q)
      else if q < 0 then 45 # pos_fixed f (- q) else pos_fixed f q)"
| "to_fixed f NegZero = pos_fixed f 0"
| "to_fixed f x = num_str x"

end
