(* ===== verification/Channel_Utils.thy ===== *)
theory Channel_Utils
  imports Channel_Form JS_Arith
begin

text \<open>
  The table of channels: labels, badges, masked keys, the attention marks, the rows of the tag mode and the
  deduplication of keys (\<^verbatim>\<open>features/channels/lib/channel-utils.ts\<close>, the tables of
  \<^verbatim>\<open>features/channels/constants.ts\<close>).
\<close>

section \<open>Tables\<close>

text \<open>A property of an object whose names are numbers, read by a number.\<close>

definition num_get :: "(nat \<times> 'a) list \<Rightarrow> jsnum \<Rightarrow> 'a option" where
  "num_get t x = map_option snd (find (\<lambda>(k, _). num_eq (Fin (of_nat k)) x) t)"

definition CHANNEL_TYPES :: "(nat \<times> string) list" where
  "CHANNEL_TYPES =
     [(0, ''Unknown''), (1, ''OpenAI''), (2, ''Midjourney''), (3, ''Azure''), (4, ''Ollama''),
      (5, ''MidjourneyPlus''), (6, ''OpenAIMax''), (7, ''OhMyGPT''), (8, ''Custom''), (9, ''AILS''),
      (10, ''AI Proxy''), (11, ''PaLM''), (12, ''API2GPT''), (13, ''AIGC2D''), (14, ''Anthropic''),
      (15, ''Baidu''), (16, ''Zhipu''), (17, ''Ali''), (18, ''Xunfei''), (19, ''360''), (20, ''OpenRouter''),
      (21, ''AI Proxy Library''), (22, ''FastGPT''), (23, ''Tencent''), (24, ''Gemini''), (25, ''Moonshot''),
      (26, ''Zhipu V4''), (27, ''Perplexity''), (31, ''LingYiWanWu''), (33, ''AWS''), (34, ''Cohere''),
      (35, ''MiniMax''), (36, ''SunoAPI''), (37, ''Dify''), (38, ''Jina''), (39, ''Cloudflare''),
      (40, ''SiliconFlow''), (41, ''Vertex AI''), (42, ''Mistral''), (43, ''DeepSeek''), (44, ''MokaAI''),
      (45, ''VolcEngine''), (46, ''Baidu V2''), (47, ''Xinference''), (48, ''xAI''), (49, ''Coze''),
      (50, ''Kling''), (51, ''Jimeng''), (52, ''Vidu''), (53, ''Submodel''), (54, ''DoubaoVideo''),
      (55, ''Sora''), (56, ''Replicate''), (57, ''Codex''), (58, ''PingXingShiJie''), (59, ''KieAI''),
      (60, ''FalAI''), (61, ''Sub2API-async''), (62, ''Tencent VOD AIGC'')]"

definition CHANNEL_TYPE_DISPLAY_ORDER :: "nat list" where
  "CHANNEL_TYPE_DISPLAY_ORDER =
     [1, 14, 33, 24, 43, 3, 41, 48, 42, 34, 20, 4, 40, 27, 25, 17, 26, 15, 46, 23,
      18, 45, 31, 35, 49, 19, 47, 37, 38, 39, 11, 8, 57, 22, 21, 44, 2, 5, 36, 50,
      51, 52, 53, 54, 55, 56, 58, 59, 60, 61, 62]"

definition CHANNEL_TYPE_OPTIONS :: "(nat \<times> string) list" where
  "CHANNEL_TYPE_OPTIONS =
     (let ordered = [(k, l). k \<leftarrow> CHANNEL_TYPE_DISPLAY_ORDER, l \<leftarrow> (case map_of CHANNEL_TYPES k of Some l \<Rightarrow> [l] | None \<Rightarrow> [])];
          seen = map fst ordered
      in ordered @ filter (\<lambda>(k, _). k \<noteq> 0 \<and> k \<notin> set seen) CHANNEL_TYPES)"

definition CHANNEL_STATUS_CONFIG :: "(nat \<times> string \<times> string \<times> bool) list" where
  "CHANNEL_STATUS_CONFIG =
     [(0, ''neutral'', ''Unknown'', True), (1, ''success'', ''Enabled'', True), (2, ''neutral'', ''Disabled'', True),
      (3, ''danger'', ''Auto Disabled'', True)]"

definition MULTI_KEY_STATUS_CONFIG :: "(nat \<times> string \<times> string) list" where
  "MULTI_KEY_STATUS_CONFIG =
     [(1, ''success'', ''Enabled''), (2, ''neutral'', ''Manual Disabled''), (3, ''danger'', ''Auto Disabled'')]"

definition TYPE_TO_ICON :: "(nat \<times> string) list" where
  "TYPE_TO_ICON =
     [(1, ''OpenAI''), (6, ''OpenAI''), (7, ''OpenAI''), (8, ''OpenAI''), (3, ''Azure''), (14, ''Claude''),
      (24, ''Gemini''), (11, ''Google''), (41, ''Gemini''), (33, ''Aws''), (39, ''Cloudflare''),
      (15, ''Baidu''), (46, ''Baidu''), (16, ''Zhipu''), (26, ''Zhipu''), (17, ''Qwen''), (18, ''Spark''),
      (23, ''Hunyuan''), (19, ''Ai360''), (25, ''Moonshot''), (31, ''Yi''), (35, ''Minimax''),
      (45, ''Volcengine''), (4, ''Ollama''), (27, ''Perplexity''), (34, ''Cohere''), (42, ''Mistral''),
      (43, ''DeepSeek''), (48, ''XAI''), (49, ''Coze''), (40, ''SiliconCloud''), (44, ''OpenAI''),
      (20, ''OpenRouter''), (2, ''Midjourney''), (5, ''Midjourney''), (50, ''Kling''), (51, ''Jimeng''),
      (52, ''Vidu''), (36, ''Suno''), (55, ''OpenAI''), (54, ''Doubao''), (56, ''Replicate''),
      (58, ''https://www.pingxingshijie.cn/favicon.ico''), (59, ''https://kie.ai/logo.png''),
      (60, ''https://icons.lobehub.com/components/fal''), (61, ''OpenAI''), (62, ''Hunyuan''), (37, ''Dify''),
      (38, ''Jina''), (22, ''FastGPT''), (47, ''Xinference''), (53, ''OpenAI''), (10, ''OpenAI''),
      (21, ''OpenAI''), (12, ''OpenAI''), (13, ''OpenAI''), (9, ''OpenAI'')]"

definition TYPE_TO_KEY_PROMPT :: "(nat \<times> string) list" where
  "TYPE_TO_KEY_PROMPT =
     [(15, ''Format: APIKey|SecretKey''), (18, ''Format: APPID|APISecret|APIKey''),
      (22, ''Format: APIKey-AppId, e.g., fastgpt-0sp2gtvfdgyi4k30jwlgwf1i-64f335d84283f05518e9e041''),
      (23, ''Format: AppId|SecretId|SecretKey''), (33, ''Format: Ak|Sk|Region''),
      (50, ''Format: AccessKey|SecretKey (or just ApiKey if upstream is New API)''),
      (51, ''Format: Access Key ID|Secret Access Key''),
      (57, ''Paste Codex OAuth JSON credential (access_token / refresh_token / account_id)''),
      (62, ''Format: SecretId|SecretKey|SubAppId'')]"

definition getChannelTypeLabel :: "jsnum \<Rightarrow> string" where
  "getChannelTypeLabel n = (case num_get CHANNEL_TYPES n of Some l \<Rightarrow> l | None \<Rightarrow> ''Unknown'')"

definition getChannelTypeIcon :: "jsnum \<Rightarrow> string" where
  "getChannelTypeIcon n = (case num_get TYPE_TO_ICON n of Some l \<Rightarrow> l | None \<Rightarrow> ''OpenAI'')"

definition getKeyPromptForType :: "jsnum \<Rightarrow> string" where
  "getKeyPromptForType n = (case num_get TYPE_TO_KEY_PROMPT n of Some l \<Rightarrow> l | None \<Rightarrow> ''Enter API key for this channel'')"

definition getChannelStatusBadge :: "jsnum \<Rightarrow> string \<times> string \<times> bool" where
  "getChannelStatusBadge s = (case num_get CHANNEL_STATUS_CONFIG s of Some b \<Rightarrow> b | None \<Rightarrow> (''neutral'', ''Unknown'', True))"

definition getMultiKeyStatusBadge :: "jsnum \<Rightarrow> string \<times> string" where
  "getMultiKeyStatusBadge s = (case num_get MULTI_KEY_STATUS_CONFIG s of Some b \<Rightarrow> b | None \<Rightarrow> (''success'', ''Enabled''))"

definition isChannelEnabled :: "Channel \<Rightarrow> bool" where
  "isChannelEnabled c \<longleftrightarrow> num_eq (c_status c) (Fin 1)"

definition isMultiKeyChannel :: "Channel \<Rightarrow> bool" where
  "isMultiKeyChannel c \<longleftrightarrow> is_multi_key (c_channel_info c)"

section \<open>Keys\<close>

definition keyLines :: "jstr \<Rightarrow> jstr list" where
  "keyLines key = filter (\<lambda>k. js_trim k \<noteq> []) (js_split 10 key)"

definition formatChannelKey :: "jstr \<Rightarrow> bool \<Rightarrow> jstr" where
  "formatChannelKey key isMultiKey =
     (if key = [] then []
      else if isMultiKey then dec (length (keyLines key)) @ js '' keys''
      else if length key \<le> 16 then take 4 key @ js ''...'' @ drop (length key - 4) key
      else take 8 key @ js ''...'' @ drop (length key - 8) key)"

definition formatKeyPreview :: "jstr \<Rightarrow> nat \<Rightarrow> jstr" where
  "formatKeyPreview key maxLength =
     (if key = [] then [] else if length key \<le> maxLength then key else take maxLength key @ js ''...'')"

definition countKeys :: "jstr \<Rightarrow> nat" where
  "countKeys key = (if key = [] then 0 else length (keyLines key))"

record Deduplicated =
  deduplicatedText :: jstr
  beforeCount :: nat
  afterCount :: nat
  removedCount :: nat

definition addKey :: "jstr list \<Rightarrow> jstr \<Rightarrow> jstr list" where
  "addKey ks line = (let k = js_trim line in if k \<noteq> [] \<and> k \<notin> set ks then ks @ [k] else ks)"

definition deduplicateKeys :: "jstr \<Rightarrow> Deduplicated" where
  "deduplicateKeys keysText =
     (if keysText = [] \<or> js_trim keysText = [] then \<lparr>deduplicatedText = [], beforeCount = 0, afterCount = 0, removedCount = 0\<rparr>
      else let keyLines = js_split 10 keysText; deduplicatedKeys = foldl addKey [] keyLines
           in \<lparr>deduplicatedText = js_join [10] deduplicatedKeys, beforeCount = length keyLines,
               afterCount = length deduplicatedKeys, removedCount = length keyLines - length deduplicatedKeys\<rparr>)"

section \<open>Models, groups and settings\<close>

definition parseModelsList :: "jstr \<Rightarrow> jstr list" where
  "parseModelsList models = (if models = [] then [] else filter (\<lambda>m. m \<noteq> []) (map js_trim (js_split 44 models)))"

text \<open>\<open>lc\<close> is \<^verbatim>\<open>localeCompare\<close> of the browser.\<close>

definition group_cmp :: "(jstr \<Rightarrow> jstr \<Rightarrow> int) \<Rightarrow> jstr \<Rightarrow> jstr \<Rightarrow> int" where
  "group_cmp lc a b = (if a = js ''default'' then - 1 else if b = js ''default'' then 1 else lc a b)"

definition parseGroupsList :: "(jstr \<Rightarrow> jstr \<Rightarrow> int) \<Rightarrow> jstr \<Rightarrow> jstr list" where
  "parseGroupsList lc groups =
     (if groups = [] then [] else js_sort (group_cmp lc) (filter (\<lambda>g. g \<noteq> []) (map js_trim (js_split 44 groups))))"

definition parseChannelSettings :: "jstr option \<Rightarrow> json" where
  "parseChannelSettings s =
     (if text_of s = [] then JObj [] else case json_parse (text_of s) of Some v \<Rightarrow> v | None \<Rightarrow> JObj [])"

definition parseChannelOtherSettings :: "jstr option \<Rightarrow> json" where
  "parseChannelOtherSettings s =
     (if text_of s = [] \<or> text_of s = js ''{}'' then JObj []
      else case json_parse (text_of s) of Some v \<Rightarrow> v | None \<Rightarrow> JObj [])"

definition validateChannelSettings :: "jstr \<Rightarrow> bool" where
  "validateChannelSettings s \<longleftrightarrow> s = [] \<or> js_trim s = [] \<or> json_parse s \<noteq> None"

definition validateChannelName :: "jstr \<Rightarrow> bool" where
  "validateChannelName name \<longleftrightarrow> 0 < length (js_trim name)"

definition validateApiKey :: "jstr \<Rightarrow> bool" where
  "validateApiKey key \<longleftrightarrow> 0 < length (js_trim key)"

definition validateModels :: "jstr \<Rightarrow> bool" where
  "validateModels models \<longleftrightarrow> 0 < length (parseModelsList models)"

definition validateGroups :: "(jstr \<Rightarrow> jstr \<Rightarrow> int) \<Rightarrow> jstr \<Rightarrow> bool" where
  "validateGroups lc groups \<longleftrightarrow> 0 < length (parseGroupsList lc groups)"

section \<open>Balance, response time, priority, attention\<close>

definition getBalanceVariant :: "jsnum \<Rightarrow> string" where
  "getBalanceVariant b =
     (if num_eq b (Fin 0) then ''neutral'' else if num_less b (Fin 1) then ''danger''
      else if num_less b (Fin 10) then ''warning'' else ''success'')"

text \<open>Without a translation function.\<close>

definition formatResponseTime :: "jsnum \<Rightarrow> jstr" where
  "formatResponseTime timeMs =
     (if num_eq timeMs (Fin 0) then js ''Not tested''
      else if num_less timeMs (Fin 1000) then num_str timeMs @ js ''ms''
      else to_fixed 2 (num_div timeMs (Fin 1000)) @ js ''s'')"

definition getResponseTimeConfig :: "jsnum \<Rightarrow> string \<times> string" where
  "getResponseTimeConfig timeMs =
     (if num_eq timeMs (Fin 0) then (''neutral'', ''Not tested'')
      else if num_le timeMs (Fin 500) then (''success'', ''Excellent'')
      else if num_le timeMs (Fin 1000) then (''info'', ''Good'')
      else if num_le timeMs (Fin 2000) then (''warning'', ''Fair'')
      else if num_le timeMs (Fin 5000) then (''danger'', ''Poor'')
      else (''danger'', ''Poor''))"

definition getPriorityDisplay :: "jsnum option \<Rightarrow> jstr" where
  "getPriorityDisplay p = (case p of None \<Rightarrow> js ''0'' | Some x \<Rightarrow> num_str x)"

definition getWeightDisplay :: "jsnum option \<Rightarrow> jstr" where
  "getWeightDisplay w = (case w of None \<Rightarrow> js ''0'' | Some x \<Rightarrow> num_str x)"

definition lowBalance :: "Channel \<Rightarrow> bool" where
  "lowBalance c \<longleftrightarrow> num_less (Fin 0) (c_balance c) \<and> num_less (c_balance c) (Fin 1)"

definition allKeysListed :: "Channel \<Rightarrow> bool" where
  "allKeysListed c \<longleftrightarrow>
     is_multi_key (c_channel_info c) \<and>
     (case multi_key_status_list (c_channel_info c) of
        None \<Rightarrow> False | Some l \<Rightarrow> num_le (multi_key_size (c_channel_info c)) (Fin (of_nat (length l))))"

definition channelNeedsAttention :: "Channel \<Rightarrow> bool" where
  "channelNeedsAttention c \<longleftrightarrow>
     (if num_eq (c_status c) (Fin 3) then True else if lowBalance c then True else if allKeysListed c then True else False)"

definition getAttentionReason :: "Channel \<Rightarrow> string option" where
  "getAttentionReason c =
     (if num_eq (c_status c) (Fin 3) then Some ''Auto-disabled''
      else if lowBalance c then Some ''Low balance''
      else if allKeysListed c then Some ''All keys disabled'' else None)"

section \<open>The rows of the tag mode\<close>

text \<open>
  A row is the spread of its first channel with the fields below overwritten.  Two overwritten fields leave the
  type of a channel and stand beside it: the identifier, which is the tag, and the status, which starts undefined.
\<close>

record TagRow =
  row_id :: jstr
  row_status :: "jsnum option"
  row_channel :: Channel
  row_children :: "Channel list"

datatype ChannelRow = Plain Channel | Aggregate TagRow

fun isTagAggregateRow :: "ChannelRow \<Rightarrow> bool" where
  "isTagAggregateRow (Plain _) = False"
| "isTagAggregateRow (Aggregate _) = True"

definition tagOf :: "Channel \<Rightarrow> jstr" where
  "tagOf c = text_of (c_tag c)"

definition newTagRow :: "Channel \<Rightarrow> TagRow" where
  "newTagRow c =
     \<lparr>row_id = tagOf c, row_status = None,
      row_channel = c\<lparr>c_key := tagOf c, c_tag := Some (tagOf c), c_name := tagOf c, c_type := Fin 0, c_group := [],
        c_used_quota := Fin 0, c_response_time := Fin 0, c_priority := Some (Fin (- 1)), c_weight := Some (Fin (- 1)),
        c_balance := Fin 0, c_test_time := Fin 0, c_created_time := Fin 0, c_balance_updated_time := Fin 0, c_models := []\<rparr>,
      row_children = []\<rparr>"

fun same_num :: "jsnum option \<Rightarrow> jsnum option \<Rightarrow> bool" where
  "same_num None None = True"
| "same_num (Some x) (Some y) = num_eq x y"
| "same_num _ _ = False"

definition commonValue :: "jsnum option \<Rightarrow> jsnum option \<Rightarrow> jsnum option" where
  "commonValue acc v = (if same_num acc (Some (Fin (- 1))) then v else if same_num acc v then acc else None)"

definition groupNames :: "jstr \<Rightarrow> jstr list" where
  "groupNames s = filter (\<lambda>g. g \<noteq> []) (js_split 44 s)"

definition mergeGroups :: "jstr \<Rightarrow> jstr \<Rightarrow> jstr" where
  "mergeGroups acc g =
     (if acc = [] then g
      else acc @ concat (map (\<lambda>n. 44 # n) (filter (\<lambda>n. n \<notin> set (groupNames acc)) (groupNames g))))"

definition averageTime :: "jsnum \<Rightarrow> jsnum \<Rightarrow> nat \<Rightarrow> jsnum" where
  "averageTime acc t childCount =
     num_div (num_plus (num_times acc (Fin (of_nat (childCount - 1)))) t) (Fin (of_nat childCount))"

definition statusOf :: "jsnum option \<Rightarrow> Channel \<Rightarrow> jsnum option" where
  "statusOf s c = (if num_eq (c_status c) (Fin 1) then Some (Fin 1) else if s = None then Some (c_status c) else s)"

definition addChild :: "TagRow \<Rightarrow> Channel \<Rightarrow> TagRow" where
  "addChild r c =
     (let children = row_children r @ [c]; a = row_channel r
      in r\<lparr>row_children := children,
           row_status := statusOf (row_status r) c,
           row_channel := a\<lparr>c_used_quota := num_plus (c_used_quota a) (c_used_quota c),
             c_response_time := averageTime (c_response_time a) (c_response_time c) (length children),
             c_priority := commonValue (c_priority a) (c_priority c),
             c_weight := commonValue (c_weight a) (c_weight c),
             c_group := mergeGroups (c_group a) (c_group c)\<rparr>\<rparr>)"

text \<open>The map from tags to rows and the list of rows share their rows: the rows are kept once, in the order of
  creation, and found by their tag.\<close>

fun addToRow :: "TagRow list \<Rightarrow> Channel \<Rightarrow> TagRow list" where
  "addToRow [] c = [addChild (newTagRow c) c]"
| "addToRow (r # rs) c = (if row_id r = tagOf c then addChild r c # rs else r # addToRow rs c)"

definition aggregateChannelsByTag :: "Channel list \<Rightarrow> ChannelRow list" where
  "aggregateChannelsByTag channels = map Aggregate (foldl addToRow [] channels)"


section \<open>Every channel in the row of its tag\<close>

lemma addChild_simps [simp]:
  "row_id (addChild r c) = row_id r"
  "row_children (addChild r c) = row_children r @ [c]"
  "row_status (addChild r c) = statusOf (row_status r) c"
  "c_group (row_channel (addChild r c)) = mergeGroups (c_group (row_channel r)) (c_group c)"
  "c_used_quota (row_channel (addChild r c)) = num_plus (c_used_quota (row_channel r)) (c_used_quota c)"
  "c_priority (row_channel (addChild r c)) = commonValue (c_priority (row_channel r)) (c_priority c)"
  "c_weight (row_channel (addChild r c)) = commonValue (c_weight (row_channel r)) (c_weight c)"
  by (simp_all add: addChild_def Let_def)

lemma newTagRow_simps [simp]:
  "row_id (newTagRow c) = tagOf c" "row_children (newTagRow c) = []" "row_status (newTagRow c) = None"
  "c_group (row_channel (newTagRow c)) = []" "c_used_quota (row_channel (newTagRow c)) = Fin 0"
  "c_priority (row_channel (newTagRow c)) = Some (Fin (- 1))" "c_weight (row_channel (newTagRow c)) = Some (Fin (- 1))"
  by (simp_all add: newTagRow_def)

lemma addToRow_old:
  "distinct (map row_id rs) \<Longrightarrow> tagOf c \<in> row_id ` set rs \<Longrightarrow>
   addToRow rs c = map (\<lambda>r. if row_id r = tagOf c then addChild r c else r) rs"
proof (induction rs)
  case (Cons r rs)
  show ?case
  proof (cases "row_id r = tagOf c")
    case True
    with Cons.prems(1) have "\<forall>x \<in> set rs. row_id x \<noteq> tagOf c" by (metis distinct.simps(2) imageI list.set_map list.simps(9))
    then have "map (\<lambda>r. if row_id r = tagOf c then addChild r c else r) rs = rs" by (simp add: map_idI)
    with True show ?thesis by simp
  next
    case False
    with Cons show ?thesis by simp
  qed
qed simp

lemma addToRow_new: "tagOf c \<notin> row_id ` set rs \<Longrightarrow> addToRow rs c = rs @ [addChild (newTagRow c) c]"
  by (induction rs) auto

text \<open>The row of a tag, from its channels alone.\<close>

definition tagRow :: "Channel list \<Rightarrow> TagRow" where
  "tagRow cs = foldl addChild (newTagRow (hd cs)) cs"

definition tagged :: "jstr \<Rightarrow> Channel list \<Rightarrow> Channel list" where
  "tagged t cs = filter (\<lambda>c. tagOf c = t) cs"

lemma tagRow_snoc: "cs \<noteq> [] \<Longrightarrow> tagRow (cs @ [c]) = addChild (tagRow cs) c"
  by (simp add: tagRow_def)

lemma row_id_tagRow: "row_id (tagRow cs) = tagOf (hd cs)"
proof -
  have "row_id (foldl addChild r cs) = row_id r" for r
    by (induction cs arbitrary: r) simp_all
  then show ?thesis by (simp add: tagRow_def)
qed

lemma row_id_tagged: "t \<in> tagOf ` set cs \<Longrightarrow> row_id (tagRow (tagged t cs)) = t"
proof -
  assume "t \<in> tagOf ` set cs"
  then have "tagged t cs \<noteq> []" by (auto simp: tagged_def filter_empty_conv)
  then have "hd (tagged t cs) \<in> set (tagged t cs)" by (rule hd_in_set)
  then show ?thesis by (simp add: row_id_tagRow tagged_def)
qed

lemma map_row_id_tagged: "set ts \<subseteq> tagOf ` set cs \<Longrightarrow> map row_id (map (\<lambda>t. tagRow (tagged t cs)) ts) = ts"
  by (induction ts) (auto simp: row_id_tagged)

lemma rows_by_tag: "foldl addToRow [] cs = map (\<lambda>t. tagRow (tagged t cs)) (js_uniq (map tagOf cs))"
proof (induction cs rule: rev_induct)
  case Nil
  then show ?case by (simp add: js_uniq_def)
next
  case (snoc c cs)
  let ?ts = "js_uniq (map tagOf cs)" and ?f = "\<lambda>t. tagRow (tagged t cs)"
  have ids: "map row_id (map ?f ?ts) = ?ts" by (rule map_row_id_tagged) simp
  then have "row_id ` set (map ?f ?ts) = set ?ts" by (metis list.set_map)
  then have mem: "row_id ` set (map ?f ?ts) = tagOf ` set cs" by simp
  have other: "tagged t (cs @ [c]) = tagged t cs" if "t \<noteq> tagOf c" for t
    using that by (simp add: tagged_def)
  show ?case
  proof (cases "tagOf c \<in> tagOf ` set cs")
    case True
    then have "tagged (tagOf c) cs \<noteq> []" by (auto simp: tagged_def filter_empty_conv)
    then have own: "tagRow (tagged (tagOf c) (cs @ [c])) = addChild (?f (tagOf c)) c"
      by (simp add: tagged_def tagRow_snoc)
    have "foldl addToRow [] (cs @ [c]) = map (\<lambda>r. if row_id r = tagOf c then addChild r c else r) (map ?f ?ts)"
      using snoc.IH addToRow_old [of "map ?f ?ts" c] True mem ids by simp
    also have "\<dots> = map (\<lambda>t. tagRow (tagged t (cs @ [c]))) ?ts"
      using own other by (auto simp: row_id_tagged)
    finally show ?thesis using True by (simp add: js_uniq_snoc)
  next
    case False
    then have "\<forall>x \<in> set cs. tagOf x \<noteq> tagOf c" by (metis imageI)
    then have "tagged (tagOf c) (cs @ [c]) = [c]" by (simp add: tagged_def)
    then have own: "tagRow (tagged (tagOf c) (cs @ [c])) = addChild (newTagRow c) c" by (simp add: tagRow_def)
    have "foldl addToRow [] (cs @ [c]) = map ?f ?ts @ [addChild (newTagRow c) c]"
      using snoc.IH addToRow_new [of c "map ?f ?ts"] False mem by simp
    also have "map ?f ?ts = map (\<lambda>t. tagRow (tagged t (cs @ [c]))) ?ts"
    proof (rule map_cong)
      fix t assume "t \<in> set ?ts"
      then have "t \<in> tagOf ` set cs" by simp
      with False have "t \<noteq> tagOf c" by metis
      from other [OF this] show "?f t = tagRow (tagged t (cs @ [c]))" by simp
    qed simp
    finally show ?thesis using False own by (auto simp: js_uniq_snoc)
  qed
qed

lemma children_tagRow: "row_children (tagRow cs) = cs"
proof -
  have "row_children (foldl addChild r cs) = row_children r @ cs" for r
    by (induction cs arbitrary: r) simp_all
  then show ?thesis by (simp add: tagRow_def)
qed

lemma quota_tagRow: "c_used_quota (row_channel (tagRow cs)) = foldl num_plus (Fin 0) (map c_used_quota cs)"
proof -
  have "c_used_quota (row_channel (foldl addChild r cs)) = foldl num_plus (c_used_quota (row_channel r)) (map c_used_quota cs)" for r
    by (induction cs arbitrary: r) simp_all
  then show ?thesis by (simp add: tagRow_def)
qed

lemma status_tagRow:
  "cs \<noteq> [] \<Longrightarrow> \<exists>s. row_status (tagRow cs) = Some s \<and> (num_eq s (Fin 1) \<longleftrightarrow> (\<exists>c \<in> set cs. isChannelEnabled c))"
proof (induction cs rule: rev_induct)
  case (snoc c cs)
  show ?case
  proof (cases "cs = []")
    case True
    then show ?thesis by (simp add: tagRow_def statusOf_def isChannelEnabled_def)
  next
    case False
    with snoc.IH show ?thesis by (auto simp: tagRow_snoc statusOf_def isChannelEnabled_def)
  qed
qed simp

lemma js_split_comma: "js_split c (xs @ c # ys) = js_split c xs @ js_split c ys"
  by (induction xs) (auto split: list.splits)

lemma groupNames_comma: "groupNames (a @ 44 # b) = groupNames a @ groupNames b"
  by (simp add: groupNames_def js_split_comma)

lemma groupNames_name: "n \<in> set (groupNames g) \<Longrightarrow> groupNames n = [n]"
  by (auto simp: groupNames_def js_split_notin dest: js_split_free)

lemma groupNames_added:
  "\<forall>n \<in> set ns. groupNames n = [n] \<Longrightarrow> groupNames (a @ concat (map (\<lambda>n. 44 # n) ns)) = groupNames a @ ns"
  by (induction ns rule: rev_induct) (simp_all add: groupNames_comma flip: append_assoc)

lemma merged_groups: "set (groupNames (mergeGroups a g)) = set (groupNames a) \<union> set (groupNames g)"
proof (cases "a = []")
  case True
  then show ?thesis by (simp add: mergeGroups_def groupNames_def)
next
  case False
  let ?new = "filter (\<lambda>n. n \<notin> set (groupNames a)) (groupNames g)"
  have "\<forall>n \<in> set ?new. groupNames n = [n]" using groupNames_name [of _ g] by simp
  from groupNames_added [OF this] have "groupNames (mergeGroups a g) = groupNames a @ ?new"
    unfolding mergeGroups_def using False by simp
  then show ?thesis by auto
qed

lemma groups_tagRow: "set (groupNames (c_group (row_channel (tagRow cs)))) = (\<Union>c \<in> set cs. set (groupNames (c_group c)))"
proof -
  have "set (groupNames (c_group (row_channel (foldl addChild r cs)))) =
        set (groupNames (c_group (row_channel r))) \<union> (\<Union>c \<in> set cs. set (groupNames (c_group c)))" for r
    by (induction cs arbitrary: r) (auto simp: merged_groups)
  then show ?thesis by (simp add: tagRow_def groupNames_def)
qed

text \<open>The value all channels share, or null.\<close>

definition shared :: "jsnum option list \<Rightarrow> jsnum option" where
  "shared vs = (if \<forall>v \<in> set (tl vs). same_num (hd vs) v then hd vs else None)"

lemma common_shared:
  assumes "vs \<noteq> []" and "\<forall>v \<in> set vs. \<not> same_num v (Some (Fin (- 1)))"
  shows "foldl commonValue (Some (Fin (- 1))) vs = shared vs"
proof -
  obtain v ws where vs: "vs = v # ws" using assms(1) by (cases vs) auto
  have none: "foldl commonValue None ws = None" for ws
  proof (induction ws)
    case (Cons w ws)
    then show ?case by (cases w) (simp_all add: commonValue_def)
  qed simp
  have "foldl commonValue v ws = (if \<forall>w \<in> set ws. same_num v w then v else None)"
    if "\<not> same_num v (Some (Fin (- 1)))" for ws
    using that none by (induction ws) (auto simp: commonValue_def)
  then show ?thesis using assms(2) vs by (simp add: commonValue_def shared_def)
qed

lemma priority_tagRow:
  "c_priority (row_channel (tagRow cs)) = foldl commonValue (Some (Fin (- 1))) (map c_priority cs)"
  "c_weight (row_channel (tagRow cs)) = foldl commonValue (Some (Fin (- 1))) (map c_weight cs)"
proof -
  have "c_priority (row_channel (foldl addChild r cs)) = foldl commonValue (c_priority (row_channel r)) (map c_priority cs)"
    and "c_weight (row_channel (foldl addChild r cs)) = foldl commonValue (c_weight (row_channel r)) (map c_weight cs)" for r
    by (induction cs arbitrary: r) simp_all
  then show "c_priority (row_channel (tagRow cs)) = foldl commonValue (Some (Fin (- 1))) (map c_priority cs)"
    and "c_weight (row_channel (tagRow cs)) = foldl commonValue (Some (Fin (- 1))) (map c_weight cs)"
    by (simp_all add: tagRow_def)
qed


text \<open>What a row says about the channels it stands for.\<close>

definition summarises :: "Channel list \<Rightarrow> TagRow \<Rightarrow> bool" where
  "summarises cs r \<longleftrightarrow>
     row_children r = filter (\<lambda>c. tagOf c = row_id r) cs \<and>
     c_used_quota (row_channel r) = foldl num_plus (Fin 0) (map c_used_quota (row_children r)) \<and>
     set (groupNames (c_group (row_channel r))) = (\<Union>c \<in> set (row_children r). set (groupNames (c_group c))) \<and>
     (\<exists>s. row_status r = Some s \<and> (num_eq s (Fin 1) \<longleftrightarrow> (\<exists>c \<in> set (row_children r). isChannelEnabled c))) \<and>
     ((\<forall>c \<in> set (row_children r). \<not> same_num (c_priority c) (Some (Fin (- 1)))) \<longrightarrow>
        c_priority (row_channel r) = shared (map c_priority (row_children r))) \<and>
     ((\<forall>c \<in> set (row_children r). \<not> same_num (c_weight c) (Some (Fin (- 1)))) \<longrightarrow>
        c_weight (row_channel r) = shared (map c_weight (row_children r)))"

lemma tagRow_summarises:
  assumes "t \<in> tagOf ` set cs"
  shows "summarises cs (tagRow (tagged t cs))"
proof -
  let ?r = "tagRow (tagged t cs)"
  from assms have ne: "tagged t cs \<noteq> []" by (auto simp: tagged_def filter_empty_conv)
  have "row_children ?r = filter (\<lambda>c. tagOf c = row_id ?r) cs"
    by (simp only: children_tagRow row_id_tagged [OF assms]) (simp only: tagged_def)
  moreover have "foldl commonValue (Some (Fin (- 1))) (map p (tagged t cs)) = shared (map p (tagged t cs))"
    if "\<forall>c \<in> set (tagged t cs). \<not> same_num (p c) (Some (Fin (- 1)))" for p
    using common_shared [of "map p (tagged t cs)"] ne that by simp
  ultimately show ?thesis
    unfolding summarises_def children_tagRow priority_tagRow
    using quota_tagRow groups_tagRow status_tagRow [OF ne] by blast
qed

text \<open>
  C20. The tag mode shows one row per tag, in the order in which the tags first occur.  A row holds exactly the
  channels of its tag in their order; its quota is the sum of theirs, its groups are the union of theirs, it is
  shown as enabled exactly when one of them is, and its priority is the one they share or null, provided none has
  the priority -1.
\<close>

theorem aggregate_by_tag:
  "\<exists>rows. aggregateChannelsByTag cs = map Aggregate rows \<and>
     map row_id rows = js_uniq (map tagOf cs) \<and> (\<forall>r \<in> set rows. summarises cs r)"
proof (intro exI conjI)
  let ?rows = "map (\<lambda>t. tagRow (tagged t cs)) (js_uniq (map tagOf cs))"
  show "aggregateChannelsByTag cs = map Aggregate ?rows" by (simp add: aggregateChannelsByTag_def rows_by_tag)
  show "map row_id ?rows = js_uniq (map tagOf cs)" by (rule map_row_id_tagged) simp
  show "\<forall>r \<in> set ?rows. summarises cs r" using tagRow_summarises by auto
qed

definition demo_tagged :: "Channel list" where
  "demo_tagged =
     [demo_channel\<lparr>c_id := Fin 1, c_tag := Some (js ''a''), c_status := Fin 2, c_priority := Some (Fin 5)\<rparr>,
      demo_channel\<lparr>c_id := Fin 2, c_tag := None, c_status := Fin 2\<rparr>,
      demo_channel\<lparr>c_id := Fin 3, c_tag := Some (js ''a''), c_status := Fin 1, c_priority := Some (Fin 7)\<rparr>]"

theorem aggregate_by_tag_witness:
  "\<exists>r1 r2. aggregateChannelsByTag demo_tagged = [Aggregate r1, Aggregate r2] \<and>
     map c_id (row_children r1) = [Fin 1, Fin 3] \<and> map c_id (row_children r2) = [Fin 2] \<and>
     c_priority (row_channel r1) = None"
proof -
  from aggregate_by_tag [of demo_tagged] obtain rows where
    rows: "aggregateChannelsByTag demo_tagged = map Aggregate rows" "map row_id rows = js_uniq (map tagOf demo_tagged)" and
    sums: "\<forall>r \<in> set rows. summarises demo_tagged r" by metis
  have "js_uniq (map tagOf demo_tagged) = [js ''a'', []]" by code_simp
  with rows(2) obtain r1 r2 where two: "rows = [r1, r2]" "row_id r1 = js ''a''" "row_id r2 = []" by (auto simp: map_eq_Cons_conv)
  have c1: "filter (\<lambda>c. tagOf c = js ''a'') demo_tagged = [demo_tagged ! 0, demo_tagged ! 2]"
    and c2: "filter (\<lambda>c. tagOf c = []) demo_tagged = [demo_tagged ! 1]" by (simp_all add: demo_tagged_def tagOf_def text_of_def)
  from sums two(1) have s: "summarises demo_tagged r1" "summarises demo_tagged r2" by simp_all
  from s(1) have ch1: "row_children r1 = [demo_tagged ! 0, demo_tagged ! 2]" unfolding summarises_def two c1 by blast
  from s(2) have ch2: "row_children r2 = [demo_tagged ! 1]" unfolding summarises_def two c2 by blast
  have "\<forall>c \<in> set (row_children r1). \<not> same_num (c_priority c) (Some (Fin (- 1)))" unfolding ch1 by (simp add: demo_tagged_def)
  with s(1) have "c_priority (row_channel r1) = shared (map c_priority (row_children r1))" unfolding summarises_def by blast
  also have "\<dots> = None" unfolding ch1 by (simp add: demo_tagged_def shared_def)
  finally show ?thesis using rows(1) two(1) ch1 ch2 by (simp add: demo_tagged_def)
qed

text \<open>The marker of a fresh row is a possible priority: two channels with different priorities then show the
  second one.\<close>

lemma marker_priority_lost:
  "c_tag a = c_tag b \<Longrightarrow> c_priority a = Some (Fin (- 1)) \<Longrightarrow>
   \<exists>r. aggregateChannelsByTag [a, b] = [Aggregate r] \<and> c_priority (row_channel r) = c_priority b"
  by (simp add: aggregateChannelsByTag_def tagOf_def commonValue_def)

text \<open>The groups of the first channel are taken over with their repetitions.\<close>

lemma first_groups_repeated:
  "c_group a = js ''x,x'' \<Longrightarrow> \<exists>r. aggregateChannelsByTag [a] = [Aggregate r] \<and> c_group (row_channel r) = js ''x,x''"
  by (simp add: aggregateChannelsByTag_def mergeGroups_def)

section \<open>Deduplicated keys\<close>

lemma js_uniq_Nil [simp]: "js_uniq [] = []" "js_uniq xs = [] \<longleftrightarrow> xs = []"
  by (simp_all add: js_uniq_def)

lemma addKey_uniq: "foldl addKey [] ls = js_uniq (filter (\<lambda>k. k \<noteq> []) (map js_trim ls))"
proof (induction ls rule: rev_induct)
  case (snoc l ls)
  then show ?case by (auto simp: addKey_def js_uniq_snoc Let_def)
qed (simp add: js_uniq_def)

definition keysOf :: "jstr \<Rightarrow> jstr list" where
  "keysOf t = filter (\<lambda>k. k \<noteq> []) (map js_trim (js_split 10 t))"

lemma keysOf_blank: "js_trim t = [] \<Longrightarrow> keysOf t = []"
proof -
  assume "js_trim t = []"
  then have ws: "\<forall>c \<in> set t. is_ws c" by (simp add: js_trim_eq_Nil)
  have "js_trim l = []" if "l \<in> set (js_split 10 t)" for l
    using js_split_chars [OF that] ws by (auto simp: js_trim_eq_Nil)
  then show ?thesis by (auto simp: keysOf_def filter_empty_conv)
qed

lemma keysOf_props:
  assumes "k \<in> set (keysOf t)"
  shows "k \<noteq> []" "js_trim k = k" "10 \<notin> set k"
proof -
  from assms obtain l where l: "l \<in> set (js_split 10 t)" "k = js_trim l" and "k \<noteq> []" by (auto simp: keysOf_def)
  then show "k \<noteq> []" "js_trim k = k" by simp_all
  show "10 \<notin> set k" using js_split_free [OF l(1)] set_js_trim [of l] l(2) by auto
qed

lemma keysOf_join:
  assumes "\<forall>k \<in> set ks. k \<noteq> [] \<and> js_trim k = k \<and> 10 \<notin> set k"
  shows "keysOf (js_join [10] ks) = ks"
proof (cases "ks = []")
  case True
  then show ?thesis by (simp add: keysOf_def)
next
  case False
  with assms have "js_split 10 (js_join [10] ks) = ks" by (intro js_split_join) auto
  moreover from assms have "map js_trim ks = ks" by (simp add: map_idI)
  ultimately show ?thesis using assms by (simp add: keysOf_def)
qed

lemma deduplicate_text: "deduplicatedText (deduplicateKeys t) = js_join [10] (js_uniq (keysOf t))"
  by (auto simp: deduplicateKeys_def Let_def addKey_uniq keysOf_blank simp flip: keysOf_def)

lemma deduplicate_after: "afterCount (deduplicateKeys t) = length (js_uniq (keysOf t))"
  by (auto simp: deduplicateKeys_def Let_def addKey_uniq keysOf_blank simp flip: keysOf_def)

lemma before_count: "beforeCount (deduplicateKeys t) = (if js_trim t = [] then 0 else length (js_split 10 t))"
  by (auto simp: deduplicateKeys_def Let_def)

lemma length_keysOf: "length (keysOf t) \<le> length (js_split 10 t)"
  unfolding keysOf_def by (metis length_filter_le length_map)

lemma deduplicate_counts:
  "beforeCount (deduplicateKeys t) = afterCount (deduplicateKeys t) + removedCount (deduplicateKeys t)"
proof -
  have "length (js_uniq (keysOf t)) \<le> length (js_split 10 t)"
    using length_js_uniq_le [of "keysOf t"] length_keysOf [of t] by simp
  then show ?thesis by (auto simp: deduplicateKeys_def Let_def addKey_uniq simp flip: keysOf_def)
qed

text \<open>
  C21. Deduplicating a text of keys leaves the trimmed keys, each once and in the order of its first line, one
  per line; the counts add up, and doing it again changes nothing.
\<close>

theorem deduplicate_keys:
  "deduplicatedText (deduplicateKeys t) = js_join [10] (js_uniq (filter (\<lambda>k. k \<noteq> []) (map js_trim (js_split 10 t)))) \<and>
   countKeys (deduplicatedText (deduplicateKeys t)) = afterCount (deduplicateKeys t) \<and>
   beforeCount (deduplicateKeys t) = afterCount (deduplicateKeys t) + removedCount (deduplicateKeys t) \<and>
   deduplicatedText (deduplicateKeys (deduplicatedText (deduplicateKeys t))) = deduplicatedText (deduplicateKeys t) \<and>
   removedCount (deduplicateKeys (deduplicatedText (deduplicateKeys t))) = 0"
proof -
  let ?ks = "js_uniq (keysOf t)" and ?d = "deduplicatedText (deduplicateKeys t)"
  have ks: "\<forall>k \<in> set ?ks. k \<noteq> [] \<and> js_trim k = k \<and> 10 \<notin> set k" using keysOf_props [of _ t] by simp
  have d: "?d = js_join [10] ?ks" by (rule deduplicate_text)
  have again: "js_uniq (keysOf ?d) = ?ks" by (simp add: d keysOf_join [OF ks] js_uniq_distinct)
  have lines: "js_split 10 ?d = ?ks" if "?ks \<noteq> []"
    unfolding d using that ks by (intro js_split_join) auto
  have count: "countKeys ?d = length ?ks"
  proof (cases "?ks = []")
    case True
    then show ?thesis by (simp add: d countKeys_def)
  next
    case False
    moreover have "?d \<noteq> []" using lines [OF False] False ks by (metis js_split.simps(1) list.set_intros(1))
    moreover have "filter (\<lambda>k. js_trim k \<noteq> []) ?ks = ?ks" using ks by (intro filter_True) auto
    ultimately show ?thesis by (simp only: countKeys_def keyLines_def lines [OF False] if_False)
  qed
  have "beforeCount (deduplicateKeys ?d) \<le> length ?ks"
  proof (cases "?ks = []")
    case True
    with d have "?d = []" by simp
    then show ?thesis by (simp only: before_count js_trim_Nil simp_thms if_True le0)
  next
    case False
    then show ?thesis by (simp add: before_count lines)
  qed
  with deduplicate_counts [of ?d] deduplicate_after [of ?d] again have "removedCount (deduplicateKeys ?d) = 0" by simp
  moreover have "deduplicatedText (deduplicateKeys ?d) = ?d" using deduplicate_text [of ?d] again d by simp
  ultimately show ?thesis using d count deduplicate_counts [of t] deduplicate_after [of t] by (simp add: keysOf_def)
qed

section \<open>Keys, groups, types\<close>

text \<open>A key of eight units is shown completely: the mask only separates its halves.\<close>

lemma short_key_shown: "length key = 8 \<Longrightarrow> formatChannelKey key False = take 4 key @ js ''...'' @ drop 4 key"
  by (auto simp: formatChannelKey_def)

lemma attention_has_reason: "channelNeedsAttention c \<longleftrightarrow> getAttentionReason c \<noteq> None"
  by (simp add: channelNeedsAttention_def getAttentionReason_def)

text \<open>The order of the groups is consistent when the collation of the browser is.\<close>

lemma group_cmp_order: "js_comparator lc \<Longrightarrow> js_comparator (group_cmp lc)"
  unfolding js_comparator_def group_cmp_def by (auto split: if_splits)

lemma groups_default_first:
  assumes "js_comparator lc" and "js ''default'' \<in> set (parseGroupsList lc g)"
  shows "hd (parseGroupsList lc g) = js ''default''"
proof (cases "parseGroupsList lc g")
  case Nil
  with assms(2) show ?thesis by simp
next
  case (Cons x xs)
  then have "js_sort (group_cmp lc) (filter (\<lambda>g. g \<noteq> []) (map js_trim (js_split 44 g))) = x # xs"
    by (simp add: parseGroupsList_def split: if_splits)
  with js_comparator.sorted_js_sort [OF group_cmp_order [OF assms(1)]]
  have "\<forall>y \<in> set xs. group_cmp lc x y \<le> 0" by (metis sorted_wrt.simps(2))
  with assms(2) Cons show ?thesis by (auto simp: group_cmp_def simp del: js_Cons split: if_splits)
qed

text \<open>Every channel type but Unknown is offered exactly once.\<close>

definition known :: "nat list \<Rightarrow> (nat \<times> 'a) list \<Rightarrow> (nat \<times> 'a) list" where
  "known ks t = [(k, l). k \<leftarrow> ks, l \<leftarrow> (case map_of t k of Some l \<Rightarrow> [l] | None \<Rightarrow> [])]"

lemma known_ids: "map fst (known ks t) = filter (\<lambda>k. k \<in> set (map fst t)) ks"
proof (induction ks)
  case (Cons k ks)
  show ?case
  proof (cases "map_of t k")
    case None
    then have "k \<notin> set (map fst t)" by (simp add: map_of_eq_None_iff)
    with None Cons show ?thesis by (simp add: known_def)
  next
    case (Some l)
    then have "k \<in> set (map fst t)" by (force dest: map_of_SomeD)
    with Some Cons show ?thesis by (simp add: known_def)
  qed
qed (simp add: known_def)

lemma known_of: "p \<in> set (known ks t) \<Longrightarrow> map_of t (fst p) = Some (snd p)"
  by (auto simp: known_def split: option.splits)

lemma type_ids:
  "map fst CHANNEL_TYPES =
     [0, 1, 2, 3, 4, 5, 6, 7, 8, 9, 10, 11, 12, 13, 14, 15, 16, 17, 18, 19, 20, 21, 22, 23, 24, 25, 26, 27, 31, 33, 34, 35, 36, 37, 38, 39, 40, 41, 42, 43, 44, 45, 46, 47, 48, 49, 50, 51, 52, 53, 54, 55, 56, 57, 58, 59, 60, 61, 62]"
  by (simp add: CHANNEL_TYPES_def)

lemma option_ids:
  "map fst CHANNEL_TYPE_OPTIONS =
     (let shown = filter (\<lambda>k. k \<in> set (map fst CHANNEL_TYPES)) CHANNEL_TYPE_DISPLAY_ORDER
      in shown @ filter (\<lambda>k. k \<noteq> 0 \<and> k \<notin> set shown) (map fst CHANNEL_TYPES))"
proof -
  have ids: "map fst (filter (\<lambda>(k, _). P k) t) = filter P (map fst t)" for P and t :: "(nat \<times> string) list"
    by (induction t) auto
  have opts: "CHANNEL_TYPE_OPTIONS =
    (let ordered = known CHANNEL_TYPE_DISPLAY_ORDER CHANNEL_TYPES
     in ordered @ filter (\<lambda>(k, _). k \<noteq> 0 \<and> k \<notin> set (map fst ordered)) CHANNEL_TYPES)"
    by (simp only: CHANNEL_TYPE_OPTIONS_def known_def Let_def)
  show ?thesis unfolding opts Let_def by (simp only: map_append ids known_ids)
qed

lemma every_type_offered:
  "distinct (map fst CHANNEL_TYPE_OPTIONS)" "set (map fst CHANNEL_TYPE_OPTIONS) = set (map fst CHANNEL_TYPES) - {0}"
  unfolding option_ids type_ids CHANNEL_TYPE_DISPLAY_ORDER_def by code_simp+

end
