(* ===== verification/Settings_Form.thy ===== *)
theory Settings_Form
  imports JSON
begin

text \<open>
  The form behind every page of the system settings: dotted option names become nested values, the fields marked as
  changed become dotted options again, and only those that differ from the saved ones are sent
  (\<^verbatim>\<open>features/system-settings/hooks/use-settings-form.ts\<close>).  Values are JSON values, options property lists; no option is
  called \<^verbatim>\<open>__proto__\<close>.
\<close>

type_synonym Options = "(jstr \<times> json) list"

section \<open>Nested values and dotted names\<close>

fun isPlainObject :: "json \<Rightarrow> bool" where
  "isPlainObject (JObj _) = True"
| "isPlainObject _ = False"

definition nextKey :: "jstr option \<Rightarrow> jstr \<Rightarrow> jstr" where
  "nextKey parentKey key = (case parentKey of None \<Rightarrow> key | Some p \<Rightarrow> if p = [] then key else p @ 46 # key)"

fun flattenValues :: "json \<Rightarrow> jstr option \<Rightarrow> Options \<Rightarrow> Options"
  and flattenEntries :: "Options \<Rightarrow> jstr option \<Rightarrow> Options \<Rightarrow> Options" where
  "flattenValues (JObj ps) parentKey result = flattenEntries ps parentKey result"
| "flattenValues v parentKey result = (case parentKey of Some p \<Rightarrow> obj_put result p v | None \<Rightarrow> result)"
| "flattenEntries [] parentKey result = result"
| "flattenEntries ((k, v) # ps) parentKey result =
     flattenEntries ps parentKey
       (if isPlainObject v then flattenValues v (Some (nextKey parentKey k)) result
        else obj_put result (nextKey parentKey k) v)"

text \<open>The element of a nested value, undefined (\<open>None\<close>) where there is none.\<close>

fun sourceOf :: "json option \<Rightarrow> jstr \<Rightarrow> json option" where
  "sourceOf (Some (JObj ps)) k = oget ps k"
| "sourceOf (Some (JArr xs)) k =
     (if is_index k \<and> digits_val k < length xs then Some (xs ! digits_val k)
      else if k = js ''length'' then Some (JNum (Fin (of_nat (length xs)))) else None)"
| "sourceOf _ k = None"

text \<open>The marks of the form library: true at a changed field, nested like the values.\<close>

function (sequential) collectDirtyValues :: "json \<Rightarrow> json option \<Rightarrow> jstr option \<Rightarrow> (jstr \<times> json option) list \<Rightarrow> (jstr \<times> json option) list"
  and collectEntries :: "Options \<Rightarrow> json option \<Rightarrow> jstr option \<Rightarrow> (jstr \<times> json option) list \<Rightarrow> (jstr \<times> json option) list"
  and collectItems :: "nat \<Rightarrow> json list \<Rightarrow> json option \<Rightarrow> jstr option \<Rightarrow> (jstr \<times> json option) list \<Rightarrow> (jstr \<times> json option) list" where
  "collectDirtyValues (JBool b) values parentKey result =
     (if b then (case parentKey of Some p \<Rightarrow> obj_put result p values | None \<Rightarrow> result) else result)"
| "collectDirtyValues (JObj ds) values parentKey result = collectEntries ds values parentKey result"
| "collectDirtyValues (JArr ds) values parentKey result = collectItems 0 ds values parentKey result"
| "collectDirtyValues _ values parentKey result = result"
| "collectEntries [] values parentKey result = result"
| "collectEntries ((k, d) # ds) values parentKey result =
     collectEntries ds values parentKey (collectDirtyValues d (sourceOf values k) (Some (nextKey parentKey k)) result)"
| "collectItems i [] values parentKey result = result"
| "collectItems i (d # ds) values parentKey result =
     collectItems (Suc i) ds values parentKey
       (collectDirtyValues d (sourceOf values (dec i)) (Some (nextKey parentKey (dec i))) result)"
  by pat_completeness auto
termination
  by (relation "measure (case_sum (\<lambda>p. size (fst p))
        (case_sum (\<lambda>p. size_list (size_prod (\<lambda>x. 0) size) (fst p)) (\<lambda>p. size_list size (fst (snd p)))))")
    simp_all

text \<open>The object to go on with: the one that is there, or a new one.\<close>

fun nestedOf :: "json option \<Rightarrow> Options" where
  "nestedOf (Some (JObj nested)) = nested"
| "nestedOf _ = []"

fun setDeepValue :: "Options \<Rightarrow> jstr list \<Rightarrow> json \<Rightarrow> Options" where
  "setDeepValue target [] v = target"
| "setDeepValue target [s] v = obj_put target s v"
| "setDeepValue target (s # s' # ss) v =
     obj_put target s (JObj (setDeepValue (nestedOf (oget target s)) (s' # ss) v))"

fun expandDotPaths :: "json \<Rightarrow> json"
  and expandEntries :: "Options \<Rightarrow> Options \<Rightarrow> Options" where
  "expandDotPaths (JObj ps) = JObj (expandEntries ps [])"
| "expandDotPaths v = v"
| "expandEntries [] result = result"
| "expandEntries ((k, v) # ps) result =
     expandEntries ps
       (if 46 \<in> set k then setDeepValue result (js_split 46 k) v
        else if isPlainObject v then obj_put result k (expandDotPaths v)
        else obj_put result k v)"

section \<open>Comparison\<close>




section \<open>The hook\<close>

record SettingsForm =
  sf_values :: json
  sf_dirty :: json
  sf_defaults :: json
  sf_baseline :: Options
  sf_serialized :: jstr

definition resetForm :: "json \<Rightarrow> SettingsForm \<Rightarrow> SettingsForm" where
  "resetForm v st = st\<lparr>sf_values := v, sf_dirty := JObj []\<rparr>"

definition setBaseline :: "json \<Rightarrow> SettingsForm \<Rightarrow> SettingsForm" where
  "setBaseline v st =
     st\<lparr>sf_baseline := flattenValues v None [], sf_defaults := v, sf_serialized := json_str (JObj (flattenValues v None []))\<rparr>"

definition initialForm :: "json \<Rightarrow> SettingsForm" where
  "initialForm defaultValues =
     (let e = expandDotPaths defaultValues; b = flattenValues e None []
      in \<lparr>sf_values = e, sf_dirty = JObj [], sf_defaults = e, sf_baseline = b, sf_serialized = json_str (JObj b)\<rparr>)"

definition defaultsEffect :: "json \<Rightarrow> SettingsForm \<Rightarrow> SettingsForm" where
  "defaultsEffect defaultValues st =
     (let e = expandDotPaths defaultValues
      in if json_str (JObj (flattenValues e None [])) = sf_serialized st then st
         else resetForm e (setBaseline e st))"

definition changedFields :: "(json option \<Rightarrow> json option \<Rightarrow> bool) \<Rightarrow> json \<Rightarrow> SettingsForm \<Rightarrow> (jstr \<times> json option) list" where
  "changedFields compare data st =
     filter (\<lambda>(k, v). \<not> compare v (oget (sf_baseline st) k)) (collectDirtyValues (sf_dirty st) (Some data) None [])"

text \<open>The handler waits for \<^verbatim>\<open>onSubmit\<close> of the page: what it hands over, if anything, and what it does with the form
  once \<^verbatim>\<open>onSubmit\<close> has returned.  When \<^verbatim>\<open>onSubmit\<close> raises, nothing more happens.\<close>

definition handleSubmit ::
  "(json option \<Rightarrow> json option \<Rightarrow> bool) \<Rightarrow> json \<Rightarrow> SettingsForm \<Rightarrow> (jstr \<times> json option) list option" where
  "handleSubmit compare data st =
     (let changed = changedFields compare data st in if changed = [] then None else Some changed)"

definition submitReturned :: "json \<Rightarrow> SettingsForm \<Rightarrow> SettingsForm" where
  "submitReturned data st = resetForm data (setBaseline data st)"

definition handleReset :: "SettingsForm \<Rightarrow> SettingsForm" where
  "handleReset st = resetForm (sf_defaults st) st"


section \<open>Paths\<close>

fun at_path :: "json \<Rightarrow> jstr list \<Rightarrow> json option" where
  "at_path j [] = Some j"
| "at_path (JObj ps) (k # ks) = (case oget ps k of Some v \<Rightarrow> at_path v ks | None \<Rightarrow> None)"
| "at_path _ (k # ks) = None"

definition leafAt :: "json \<Rightarrow> jstr list \<Rightarrow> json option" where
  "leafAt j p = (case at_path j p of Some v \<Rightarrow> if isPlainObject v then None else Some v | None \<Rightarrow> None)"

definition name_ok :: "jstr \<Rightarrow> bool" where
  "name_ok k \<longleftrightarrow> k \<noteq> [] \<and> 46 \<notin> set k"

fun names_ok :: "json \<Rightarrow> bool" where
  "names_ok (JObj ps) \<longleftrightarrow> distinct (map fst ps) \<and> (\<forall>(k, v) \<in> set ps. name_ok k \<and> names_ok v)"
| "names_ok _ \<longleftrightarrow> True"

definition pathKey :: "jstr list \<Rightarrow> jstr" where
  "pathKey p = js_join [46] p"

definition parentOf :: "jstr list \<Rightarrow> jstr option" where
  "parentOf q = (if q = [] then None else Some (pathKey q))"


lemma leafAt_simps [simp]:
  "leafAt (JObj ps) [] = None"
  "leafAt (JObj ps) (k # ks) = (case oget ps k of Some v \<Rightarrow> leafAt v ks | None \<Rightarrow> None)"
  "\<not> isPlainObject v \<Longrightarrow> leafAt v p = (if p = [] then Some v else None)"
proof -
  show "leafAt (JObj ps) [] = None" by (simp add: leafAt_def)
  show "leafAt (JObj ps) (k # ks) = (case oget ps k of Some v \<Rightarrow> leafAt v ks | None \<Rightarrow> None)"
    by (simp add: leafAt_def split: option.split)
  show "\<not> isPlainObject v \<Longrightarrow> leafAt v p = (if p = [] then Some v else None)"
    by (cases v; cases p) (simp_all add: leafAt_def)
qed

lemma pathKey_snoc: "pathKey (q @ [k]) = (if q = [] then k else pathKey q @ 46 # k)"
proof (induction q rule: induct_list012)
  case (3 x y zs)
  then show ?case by (simp add: pathKey_def)
qed (simp_all add: pathKey_def)

lemma pathKey_eq_Nil: "\<forall>x \<in> set q. name_ok x \<Longrightarrow> pathKey q = [] \<longleftrightarrow> q = []"
  by (induction q rule: induct_list012) (auto simp: pathKey_def name_ok_def)

lemma nextKey_path: "\<forall>x \<in> set q. name_ok x \<Longrightarrow> nextKey (parentOf q) k = pathKey (q @ [k])"
  by (simp add: nextKey_def parentOf_def pathKey_snoc pathKey_eq_Nil)

lemma split_pathKey: "q \<noteq> [] \<Longrightarrow> \<forall>x \<in> set q. name_ok x \<Longrightarrow> js_split 46 k = q \<longleftrightarrow> k = pathKey q"
  unfolding pathKey_def name_ok_def by (metis js_join_split js_split_join)

text \<open>A property list overwritten at the names below a path.\<close>

definition overlay :: "jstr list \<Rightarrow> (jstr list \<Rightarrow> 'a option) \<Rightarrow> (jstr \<Rightarrow> 'a option) \<Rightarrow> jstr \<Rightarrow> 'a option" where
  "overlay q f r k =
     (let s = js_split 46 k in
      if take (length q) s = q \<and> f (drop (length q) s) \<noteq> None then f (drop (length q) s) else r k)"

lemma overlay_put:
  assumes "\<forall>x \<in> set q. name_ok x" "name_ok n"
  shows "oget (obj_put r (pathKey (q @ [n])) v) = overlay (q @ [n]) (\<lambda>p. if p = [] then Some v else None) (oget r)"
proof
  fix k
  have "k = pathKey (q @ [n]) \<longleftrightarrow> js_split 46 k = q @ [n]" using split_pathKey [of "q @ [n]" k] assms by simp
  also have "\<dots> \<longleftrightarrow> take (length (q @ [n])) (js_split 46 k) = q @ [n] \<and> drop (length (q @ [n])) (js_split 46 k) = []"
    by (metis append_Nil2 append_take_drop_id drop_all take_all order_refl)
  finally show "oget (obj_put r (pathKey (q @ [n])) v) k = overlay (q @ [n]) (\<lambda>p. if p = [] then Some v else None) (oget r) k"
    by (auto simp: oget_obj_put overlay_def Let_def)
qed

lemma take_snoc: "take (Suc (length q)) s = q @ [n] \<longleftrightarrow> take (length q) s = q \<and> (\<exists>p. drop (length q) s = n # p)"
proof (induction q arbitrary: s)
  case Nil
  then show ?case by (cases s) auto
next
  case (Cons x q)
  then show ?case by (cases s) auto
qed

lemma overlay_child:
  assumes "\<And>p. f' (n # p) = None" "f' [] = None"
    and g: "\<And>x p. g (x # p) = (if x = n then f p else f' (x # p))" "g [] = None"
  shows "overlay q f' (overlay (q @ [n]) f r) = overlay q g r"
proof
  fix k
  let ?s = "js_split 46 k"
  have snoc: "take (length (q @ [n])) ?s = q @ [n] \<longleftrightarrow> take (length q) ?s = q \<and> (\<exists>p. drop (length q) ?s = n # p)"
    using take_snoc [of q ?s n] by simp
  show "overlay q f' (overlay (q @ [n]) f r) k = overlay q g r k"
  proof (cases "take (length q) ?s = q")
    case False
    then show ?thesis using snoc by (simp add: overlay_def)
  next
    case True
    show ?thesis
    proof (cases "drop (length q) ?s")
      case Nil
      then show ?thesis using snoc assms(2) g(2) by (simp add: overlay_def)
    next
      case (Cons x p)
      then have "drop (length (q @ [n])) ?s = p" by (metis One_nat_def add.commute drop_drop drop_Suc_Cons drop0 length_append_singleton plus_1_eq_Suc)
      then show ?thesis using snoc True Cons assms(1) g(1) by (auto simp: overlay_def Let_def)
    qed
  qed
qed

lemma leafAt_Cons:
  assumes "distinct (map fst ((k, v) # ps))"
  shows "leafAt (JObj ps) (k # p) = None"
    and "leafAt (JObj ((k, v) # ps)) (x # p) = (if x = k then leafAt v p else leafAt (JObj ps) (x # p))"
proof -
  have "oget ps k = None" using assms by (simp add: oget_eq_None)
  then show "leafAt (JObj ps) (k # p) = None"
    and "leafAt (JObj ((k, v) # ps)) (x # p) = (if x = k then leafAt v p else leafAt (JObj ps) (x # p))"
    by simp_all
qed

lemma flatten_overlay:
  "parent = parentOf q \<Longrightarrow> \<forall>x \<in> set q. name_ok x \<Longrightarrow> isPlainObject j \<Longrightarrow> names_ok j \<Longrightarrow>
     oget (flattenValues j parent r) = overlay q (leafAt j) (oget r)"
  "parent = parentOf q \<Longrightarrow> \<forall>x \<in> set q. name_ok x \<Longrightarrow> names_ok (JObj ps) \<Longrightarrow>
     oget (flattenEntries ps parent r) = overlay q (leafAt (JObj ps)) (oget r)"
proof (induction j parent r and ps parent r arbitrary: q and q rule: flattenValues_flattenEntries.induct)
  case (3 parent r)
  have "leafAt (JObj []) p = None" for p by (cases p) simp_all
  then show ?case by (simp add: overlay_def Let_def fun_eq_iff)
next
  case (4 k v ps parent r)
  have names: "distinct (map fst ((k, v) # ps))" "name_ok k" "names_ok v" "names_ok (JObj ps)" using 4(5) by auto
  let ?r = "if isPlainObject v then flattenValues v (Some (nextKey parent k)) r else obj_put r (nextKey parent k) v"
  have key: "nextKey parent k = pathKey (q @ [k])" using 4(3,4) by (simp add: nextKey_path)
  have "oget ?r = overlay (q @ [k]) (leafAt v) (oget r)"
  proof (cases "isPlainObject v")
    case True
    then show ?thesis using 4(1) [OF True, of "q @ [k]"] 4(4) names key by (simp add: parentOf_def)
  next
    case False
    have "leafAt v = (\<lambda>p. if p = [] then Some v else None)" using False by auto
    then show ?thesis using overlay_put [OF 4(4) names(2), of r v] False key by simp
  qed
  then have "oget (flattenEntries ((k, v) # ps) parent r) = overlay q (leafAt (JObj ps)) (overlay (q @ [k]) (leafAt v) (oget r))"
    using 4(2) [OF 4(3,4) names(4)] by simp
  also have "\<dots> = overlay q (leafAt (JObj ((k, v) # ps))) (oget r)"
    by (rule overlay_child) (simp_all only: leafAt_Cons [OF names(1)] leafAt_simps(1))
  finally show ?case .
qed auto

text \<open>Flattening a form: the options are the leaves at the paths their names spell.\<close>

lemma flatten_get:
  assumes "isPlainObject j" "names_ok j"
  shows "oget (flattenValues j None []) k = leafAt j (js_split 46 k)"
  using flatten_overlay(1) [of None "[]" j "[]"] assms by (simp add: parentOf_def overlay_def Let_def)


section \<open>Dotted names expanded\<close>

lemma leafAt_put: "leafAt (JObj (obj_put ps n v)) (x # p) = (if x = n then leafAt v p else leafAt (JObj ps) (x # p))"
  by (simp add: oget_obj_put)

lemma leafAt_nested: "p \<noteq> [] \<Longrightarrow> leafAt (JObj r) (s # p) = leafAt (JObj (nestedOf (oget r s))) p"
  by (cases p; cases "oget r s" rule: nestedOf.cases) simp_all

lemma setDeep_get:
  "q \<noteq> [] \<Longrightarrow> \<not> isPlainObject v \<Longrightarrow>
   leafAt (JObj (setDeepValue r q v)) p =
     (if p = q then Some v else if prefix p q \<or> prefix q p then None else leafAt (JObj r) p)"
proof (induction r q v arbitrary: p rule: setDeepValue.induct)
  case (2 target s v)
  then show ?case by (cases p) (auto simp: oget_obj_put)
next
  case (3 target s s' ss v)
  show ?case
  proof (cases p)
    case Nil
    then show ?thesis by simp
  next
    case (Cons x p')
    have "leafAt (JObj target) (s # p') = leafAt (JObj (nestedOf (oget target s))) p'" if "\<not> prefix p' (s' # ss)"
      using that by (intro leafAt_nested) auto
    then show ?thesis unfolding Cons setDeepValue.simps(3) leafAt_put using "3.IH" [of p'] "3.prems" by auto
  qed
qed simp

lemma names_nested: "names_ok (JObj r) \<Longrightarrow> names_ok (JObj (nestedOf (oget r s)))"
proof (cases "oget r s" rule: nestedOf.cases)
  case (1 nested)
  assume "names_ok (JObj r)"
  then have "\<forall>(k, v) \<in> set r. name_ok k \<and> names_ok v" by simp
  from bspec [OF this oget_in [OF 1]] show ?thesis using 1 by simp
qed simp_all

lemma names_put: "names_ok (JObj r) \<Longrightarrow> name_ok s \<Longrightarrow> names_ok w \<Longrightarrow> names_ok (JObj (obj_put r s w))"
  using set_obj_put [of r s w] by (auto simp: distinct_obj_put)

lemma setDeep_names:
  "\<forall>x \<in> set q. name_ok x \<Longrightarrow> names_ok v \<Longrightarrow> names_ok (JObj r) \<Longrightarrow> names_ok (JObj (setDeepValue r q v))"
proof (induction r q v rule: setDeepValue.induct)
  case (3 target s s' ss v)
  have "names_ok (JObj (setDeepValue (nestedOf (oget target s)) (s' # ss) v))"
    using 3 names_nested [OF 3(4)] by (simp del: names_ok.simps)
  then show ?case using 3(2,4) unfolding setDeepValue.simps(3) by (intro names_put) simp_all
qed (simp_all add: names_put del: names_ok.simps)

text \<open>Options that can be laid out as a tree: no name is a part of another, no part of a name is empty.\<close>

definition layout_ok :: "Options \<Rightarrow> bool" where
  "layout_ok ps \<longleftrightarrow>
     distinct (map fst ps) \<and> (\<forall>(k, v) \<in> set ps. \<not> isPlainObject v \<and> [] \<notin> set (js_split 46 k)) \<and>
     (\<forall>a \<in> set (map fst ps). \<forall>b \<in> set (map fst ps). prefix (js_split 46 a) (js_split 46 b) \<longrightarrow> a = b)"

lemma expand_flat:
  "\<forall>(k, v) \<in> set ps. \<not> isPlainObject v \<Longrightarrow>
   expandEntries ps r = foldl (\<lambda>r (k, v). setDeepValue r (js_split 46 k) v) r ps"
proof (induction ps arbitrary: r)
  case (Cons p ps)
  then show ?case by (cases p) (auto simp: js_split_notin)
qed simp

lemma split_names: "[] \<notin> set (js_split 46 k) \<Longrightarrow> \<forall>x \<in> set (js_split 46 k). name_ok x"
  by (auto simp: name_ok_def dest: js_split_free)

lemma split_inject: "js_split 46 a = js_split 46 b \<longleftrightarrow> a = b"
  by (metis js_join_split)

lemma layout_snoc:
  assumes "layout_ok (ps @ [(n, v)])"
  shows "layout_ok ps" "\<not> isPlainObject v" "[] \<notin> set (js_split 46 n)" "n \<notin> fst ` set ps"
    and "prefix (js_split 46 k) (js_split 46 n) \<or> prefix (js_split 46 n) (js_split 46 k) \<Longrightarrow> oget ps k = None"
proof -
  show ok: "layout_ok ps" "\<not> isPlainObject v" "[] \<notin> set (js_split 46 n)" "n \<notin> fst ` set ps"
    using assms by (auto simp: layout_ok_def)
  assume pre: "prefix (js_split 46 k) (js_split 46 n) \<or> prefix (js_split 46 n) (js_split 46 k)"
  have "k \<notin> fst ` set ps"
  proof
    assume k: "k \<in> fst ` set ps"
    have "\<forall>a \<in> insert n (fst ` set ps). \<forall>b \<in> insert n (fst ` set ps). prefix (js_split 46 a) (js_split 46 b) \<longrightarrow> a = b"
      using assms by (simp add: layout_ok_def)
    with k pre have "k = n" by blast
    with k ok(4) show False by simp
  qed
  then show "oget ps k = None" by (simp add: oget_eq_None)
qed

lemma leaf_names: "\<not> isPlainObject v \<Longrightarrow> names_ok v"
  by (cases v) simp_all

lemma oget_snoc: "oget (ps @ [(n, v)]) k = (case oget ps k of Some w \<Rightarrow> Some w | None \<Rightarrow> if k = n then Some v else None)"
  by (simp add: oget_def map_add_def split: option.split)

lemma leafAt_empty: "leafAt (JObj []) p = None"
  by (cases p) simp_all

lemma expand_snoc:
  assumes "layout_ok (ps @ [(n, v)])"
  shows "expandEntries (ps @ [(n, v)]) [] = setDeepValue (expandEntries ps []) (js_split 46 n) v"
proof -
  have "\<forall>(k, v) \<in> set (ps @ [(n, v)]). \<not> isPlainObject v" using assms by (simp add: layout_ok_def case_prod_beta)
  then show ?thesis using expand_flat [of "ps @ [(n, v)]" "[]"] expand_flat [of ps "[]"] by simp
qed

lemma expand_get:
  "layout_ok ps \<Longrightarrow> names_ok (JObj (expandEntries ps [])) \<and> (\<forall>k. leafAt (JObj (expandEntries ps [])) (js_split 46 k) = oget ps k)"
proof (induction ps rule: rev_induct)
  case (snoc x ps)
  obtain n v where x: "x = (n, v)" by (cases x)
  note ok = layout_snoc [OF snoc.prems [unfolded x]] and step = expand_snoc [OF snoc.prems [unfolded x]]
  note IH = snoc.IH [OF ok(1)]
  have "leafAt (JObj (setDeepValue (expandEntries ps []) (js_split 46 n) v)) (js_split 46 k) = oget (ps @ [(n, v)]) k" for k
    using IH ok(5) [of k] ok(2) setDeep_get [of "js_split 46 n" v "expandEntries ps []" "js_split 46 k"]
    unfolding oget_snoc split_inject by (auto split: option.split)
  moreover have "names_ok (JObj (setDeepValue (expandEntries ps []) (js_split 46 n) v))"
    using IH split_names [OF ok(3)] leaf_names [OF ok(2)] by (intro setDeep_names) simp_all
  ultimately show ?case unfolding x step by blast
qed (simp add: leafAt_empty)

text \<open>
  C17. Opening a settings page loses no option: dotted options laid out as the nested values of the form and
  flattened again are the same options, when no name is a part of another one.
\<close>

theorem options_roundtrip:
  assumes "layout_ok ps"
  shows "oget (sf_baseline (initialForm (JObj ps))) k = oget ps k"
proof -
  have "names_ok (JObj (expandEntries ps []))" "leafAt (JObj (expandEntries ps [])) (js_split 46 k) = oget ps k"
    using expand_get [OF assms] by blast+
  then show ?thesis using flatten_get [of "JObj (expandEntries ps [])" k] by (simp add: initialForm_def Let_def)
qed

definition demo_options :: Options where
  "demo_options = [(js ''theme.name'', JStr (js ''dark'')), (js ''theme.font.size'', JNum (Fin 12)), (js ''Notice'', JArr [JNull])]"

theorem options_roundtrip_witness:
  "oget (sf_baseline (initialForm (JObj demo_options))) (js ''theme.font.size'') = Some (JNum (Fin 12))"
proof -
  have "layout_ok demo_options" by code_simp
  from options_roundtrip [OF this, of "js ''theme.font.size''"] show ?thesis by (simp add: demo_options_def)
qed


section \<open>Marked fields collected\<close>











section \<open>Submitting\<close>











section \<open>A settings form over time\<close>

text \<open>
  The form with the submissions that are under way.  The user edits (the form library gives the marks), submits and
  resets; a submission returns or raises at any later time, in any order, and new defaults may arrive at any time.
\<close>

record FormSession =
  fs_form :: SettingsForm
  fs_pending :: "json list"

datatype FormAction = Edit json json | Submit | Returned nat | Raised nat | Reset | NewDefaults json

definition without :: "nat \<Rightarrow> 'a list \<Rightarrow> 'a list" where
  "without i xs = take i xs @ drop (Suc i) xs"

fun formAct :: "(json option \<Rightarrow> json option \<Rightarrow> bool) \<Rightarrow> FormAction \<Rightarrow> FormSession \<Rightarrow> FormSession" where
  "formAct compare (Edit v d) s = s\<lparr>fs_form := (fs_form s)\<lparr>sf_values := v, sf_dirty := d\<rparr>\<rparr>"
| "formAct compare Submit s =
     (case handleSubmit compare (sf_values (fs_form s)) (fs_form s) of
        None \<Rightarrow> s
      | Some changed \<Rightarrow> s\<lparr>fs_pending := fs_pending s @ [sf_values (fs_form s)]\<rparr>)"
| "formAct compare (Returned i) s =
     (if i < length (fs_pending s)
      then s\<lparr>fs_form := submitReturned (fs_pending s ! i) (fs_form s), fs_pending := without i (fs_pending s)\<rparr> else s)"
| "formAct compare (Raised i) s = s\<lparr>fs_pending := without i (fs_pending s)\<rparr>"
| "formAct compare Reset s = s\<lparr>fs_form := handleReset (fs_form s)\<rparr>"
| "formAct compare (NewDefaults d) s = s\<lparr>fs_form := defaultsEffect d (fs_form s)\<rparr>"





















text \<open>New defaults overwrite what the user has entered, and so does a submission that returns after further edits.\<close>

lemma new_defaults_discard_edits:
  "sf_serialized (fs_form s) \<noteq> json_str (JObj (flattenValues (expandDotPaths d) None [])) \<Longrightarrow>
   sf_values (fs_form (formAct compare (NewDefaults d) s)) = expandDotPaths d"
  by (simp add: defaultsEffect_def Let_def resetForm_def)

lemma returning_discards_edits:
  "handleSubmit compare (sf_values (fs_form s)) (fs_form s) \<noteq> None \<Longrightarrow> fs_pending s = [] \<Longrightarrow>
   sf_values (fs_form (formAct compare (Returned 0) (formAct compare (Edit v d) (formAct compare Submit s)))) = sf_values (fs_form s)"
  by (auto simp: submitReturned_def resetForm_def setBaseline_def)

end
