(* ===== verification/Pricing_Filters.thy ===== *)
theory Pricing_Filters
  imports JS_Arith
begin

text \<open>
  The list of models on the pricing page: search, filters, tags and sorting
  (\<^verbatim>\<open>features/pricing/lib/filters.ts\<close>), and the hook that keeps what is chosen
  (\<^verbatim>\<open>features/pricing/hooks/use-filters.ts\<close>).  \<open>lower\<close> is \<^verbatim>\<open>toLowerCase\<close> and \<open>lc\<close> is \<^verbatim>\<open>localeCompare\<close> of the browser.
\<close>

section \<open>Filters\<close>

text \<open>The fields of a model that the filters read.\<close>

record PricingModel =
  pm_model_name :: jstr
  pm_description :: "jstr option"
  pm_vendor_name :: "jstr option"
  pm_quota_type :: jsnum
  pm_model_ratio :: jsnum
  pm_model_price :: "jsnum option"
  pm_enable_groups :: "jstr list"
  pm_tags :: "jstr option"
  pm_supported_endpoint_types :: "jstr list option"

definition FILTER_ALL :: jstr where
  "FILTER_ALL = js ''all''"

definition holdsText :: "(jstr \<Rightarrow> jstr) \<Rightarrow> jstr \<Rightarrow> jstr option \<Rightarrow> bool" where
  "holdsText lower q v = (case v of Some t \<Rightarrow> js_includes (lower t) q | None \<Rightarrow> False)"

definition filterBySearch :: "(jstr \<Rightarrow> jstr) \<Rightarrow> PricingModel list \<Rightarrow> jstr \<Rightarrow> PricingModel list" where
  "filterBySearch lower models query =
     (if query = [] then models
      else filter (\<lambda>m. js_includes (lower (pm_model_name m)) (lower query) \<or> holdsText lower (lower query) (pm_description m) \<or>
             holdsText lower (lower query) (pm_tags m) \<or> holdsText lower (lower query) (pm_vendor_name m)) models)"

definition filterByVendor :: "PricingModel list \<Rightarrow> jstr \<Rightarrow> PricingModel list" where
  "filterByVendor models vendor = (if vendor = FILTER_ALL then models else filter (\<lambda>m. pm_vendor_name m = Some vendor) models)"

definition filterByGroup :: "PricingModel list \<Rightarrow> jstr \<Rightarrow> PricingModel list" where
  "filterByGroup models g = (if g = FILTER_ALL then models else filter (\<lambda>m. g \<in> set (pm_enable_groups m)) models)"

definition filterByQuotaType :: "PricingModel list \<Rightarrow> jstr \<Rightarrow> PricingModel list" where
  "filterByQuotaType models quotaType =
     (if quotaType = js ''all'' then models
      else let targetType = (if quotaType = js ''token'' then Fin 0 else Fin 1)
           in filter (\<lambda>m. num_eq (pm_quota_type m) targetType) models)"

definition filterByEndpointType :: "PricingModel list \<Rightarrow> jstr \<Rightarrow> PricingModel list" where
  "filterByEndpointType models endpointType =
     (if endpointType = js ''all'' then models
      else filter (\<lambda>m. case pm_supported_endpoint_types m of Some es \<Rightarrow> endpointType \<in> set es | None \<Rightarrow> False) models)"

text \<open>\<^verbatim>\<open>split(/[,;|\s]+/)\<close>: the pieces between runs of separators.\<close>

definition tag_sep :: "nat \<Rightarrow> bool" where
  "tag_sep c \<longleftrightarrow> c = 44 \<or> c = 59 \<or> c = 124 \<or> is_ws c"

function splitTags :: "jstr \<Rightarrow> jstr list" where
  "splitTags s =
     (case dropWhile (\<lambda>c. \<not> tag_sep c) s of
        [] \<Rightarrow> [s]
      | c # rest \<Rightarrow> takeWhile (\<lambda>c. \<not> tag_sep c) s # splitTags (dropWhile tag_sep rest))"
  by pat_completeness auto
termination
proof (relation "measure length")
  fix s rest :: jstr and c
  assume "dropWhile (\<lambda>c. \<not> tag_sep c) s = c # rest"
  then have "length (c # rest) \<le> length s" by (metis length_dropWhile_le)
  then show "(dropWhile tag_sep rest, s) \<in> measure length"
    using length_dropWhile_le [of tag_sep rest] by simp
qed simp

declare splitTags.simps [simp del]

definition parseTags :: "jstr option \<Rightarrow> jstr list" where
  "parseTags tags =
     (case tags of None \<Rightarrow> []
      | Some t \<Rightarrow> if t = [] then [] else filter (\<lambda>t. t \<noteq> []) (map js_trim (splitTags t)))"

definition extractAllTags :: "(jstr \<Rightarrow> jstr) \<Rightarrow> (jstr \<Rightarrow> jstr \<Rightarrow> int) \<Rightarrow> PricingModel list \<Rightarrow> jstr list" where
  "extractAllTags lower lc models = js_sort lc (js_uniq (concat (map (\<lambda>m. map lower (parseTags (pm_tags m))) models)))"

definition filterByTag :: "(jstr \<Rightarrow> jstr) \<Rightarrow> PricingModel list \<Rightarrow> jstr \<Rightarrow> PricingModel list" where
  "filterByTag lower models tag =
     (if tag = FILTER_ALL then models
      else filter (\<lambda>m. lower tag \<in> set (map lower (parseTags (pm_tags m)))) models)"

section \<open>Sorting\<close>

definition getModelPrice :: "PricingModel \<Rightarrow> jsnum" where
  "getModelPrice m =
     (if num_eq (pm_quota_type m) (Fin 0) then pm_model_ratio m
      else case pm_model_price m of Some p \<Rightarrow> num_or_zero p | None \<Rightarrow> Fin 0)"

definition price_cmp :: "PricingModel \<Rightarrow> PricingModel \<Rightarrow> int" where
  "price_cmp a b = num_sign (num_minus (getModelPrice a) (getModelPrice b))"

definition sortModels :: "(jstr \<Rightarrow> jstr \<Rightarrow> int) \<Rightarrow> PricingModel list \<Rightarrow> jstr \<Rightarrow> PricingModel list" where
  "sortModels lc models sortBy =
     (if sortBy = js ''name'' then js_sort (\<lambda>a b. lc (pm_model_name a) (pm_model_name b)) models
      else if sortBy = js ''price-low'' then js_sort price_cmp models
      else if sortBy = js ''price-high'' then js_sort (\<lambda>a b. price_cmp b a) models
      else models)"

record PricingFilters =
  pf_search :: jstr
  pf_vendor :: jstr
  pf_group :: jstr
  pf_quotaType :: jstr
  pf_endpointType :: jstr
  pf_tag :: jstr
  pf_sortBy :: jstr

definition filterAndSortModels ::
  "(jstr \<Rightarrow> jstr) \<Rightarrow> (jstr \<Rightarrow> jstr \<Rightarrow> int) \<Rightarrow> PricingModel list \<Rightarrow> PricingFilters \<Rightarrow> PricingModel list" where
  "filterAndSortModels lower lc models filters =
     (let result = filterBySearch lower models (pf_search filters);
          result = filterByVendor result (pf_vendor filters);
          result = filterByGroup result (pf_group filters);
          result = filterByQuotaType result (pf_quotaType filters);
          result = filterByEndpointType result (pf_endpointType filters);
          result = filterByTag lower result (pf_tag filters)
      in sortModels lc result (pf_sortBy filters))"

section \<open>The hook\<close>

datatype TokenUnit = UnitM | UnitK
datatype ViewMode = CardView | TableView

record FilterState =
  fs_search :: "jstr option"
  fs_sort :: "jstr option"
  fs_vendor :: "jstr option"
  fs_group :: "jstr option"
  fs_quotaType :: "jstr option"
  fs_endpointType :: "jstr option"
  fs_tag :: "jstr option"
  fs_tokenUnit :: "TokenUnit option"
  fs_view :: "ViewMode option"
  fs_rechargePrice :: "bool option"

text \<open>\<^verbatim>\<open>v || d\<close> on a text that may be missing, and \<^verbatim>\<open>v === d ? undefined : v\<close>.\<close>

definition text_or :: "jstr option \<Rightarrow> jstr \<Rightarrow> jstr" where
  "text_or v d = (case v of Some t \<Rightarrow> if t = [] then d else t | None \<Rightarrow> d)"

definition unless :: "'a \<Rightarrow> 'a \<Rightarrow> 'a option" where
  "unless d v = (if v = d then None else Some v)"

definition filtersOf :: "FilterState \<Rightarrow> PricingFilters" where
  "filtersOf st =
     \<lparr>pf_search = text_or (fs_search st) [],
      pf_vendor = text_or (fs_vendor st) FILTER_ALL,
      pf_group = text_or (fs_group st) FILTER_ALL,
      pf_quotaType = text_or (fs_quotaType st) (js ''all''),
      pf_endpointType = text_or (fs_endpointType st) (js ''all''),
      pf_tag = text_or (fs_tag st) FILTER_ALL,
      pf_sortBy = text_or (fs_sort st) (js ''name'')\<rparr>"

definition tokenUnit :: "FilterState \<Rightarrow> TokenUnit" where
  "tokenUnit st = (if fs_tokenUnit st = Some UnitK then UnitK else UnitM)"

definition viewMode :: "FilterState \<Rightarrow> ViewMode" where
  "viewMode st = (if fs_view st = Some TableView then TableView else CardView)"

definition showRechargePrice :: "FilterState \<Rightarrow> bool" where
  "showRechargePrice st \<longleftrightarrow> fs_rechargePrice st = Some True"

datatype FilterAction =
    SetSearch jstr | SetSort jstr | SetVendor jstr | SetGroup jstr | SetQuotaType jstr | SetEndpointType jstr | SetTag jstr
  | SetTokenUnit TokenUnit | SetViewMode ViewMode | SetShowRechargePrice bool | ClearFilters | ClearSearch

definition clearFilters :: "FilterState \<Rightarrow> FilterState" where
  "clearFilters st =
     st\<lparr>fs_vendor := None, fs_group := None, fs_quotaType := None, fs_endpointType := None, fs_tag := None\<rparr>"

definition clearSearch :: "FilterState \<Rightarrow> FilterState" where
  "clearSearch st = st\<lparr>fs_search := None\<rparr>"

fun filterAct :: "FilterAction \<Rightarrow> FilterState \<Rightarrow> FilterState" where
  "filterAct (SetSearch v) st = st\<lparr>fs_search := unless [] v\<rparr>"
| "filterAct (SetSort v) st = st\<lparr>fs_sort := unless (js ''name'') v\<rparr>"
| "filterAct (SetVendor v) st = st\<lparr>fs_vendor := unless FILTER_ALL v\<rparr>"
| "filterAct (SetGroup v) st = st\<lparr>fs_group := unless FILTER_ALL v\<rparr>"
| "filterAct (SetQuotaType v) st = st\<lparr>fs_quotaType := unless (js ''all'') v\<rparr>"
| "filterAct (SetEndpointType v) st = st\<lparr>fs_endpointType := unless (js ''all'') v\<rparr>"
| "filterAct (SetTag v) st = st\<lparr>fs_tag := unless FILTER_ALL v\<rparr>"
| "filterAct (SetTokenUnit v) st = st\<lparr>fs_tokenUnit := unless UnitM v\<rparr>"
| "filterAct (SetViewMode v) st = st\<lparr>fs_view := unless CardView v\<rparr>"
| "filterAct (SetShowRechargePrice v) st = st\<lparr>fs_rechargePrice := unless False v\<rparr>"
| "filterAct ClearFilters st = clearFilters st"
| "filterAct ClearSearch st = clearSearch st"

definition availableTags :: "(jstr \<Rightarrow> jstr) \<Rightarrow> (jstr \<Rightarrow> jstr \<Rightarrow> int) \<Rightarrow> PricingModel list \<Rightarrow> jstr list" where
  "availableTags lower lc models = (if models = [] then [] else extractAllTags lower lc models)"

definition filteredModels ::
  "(jstr \<Rightarrow> jstr) \<Rightarrow> (jstr \<Rightarrow> jstr \<Rightarrow> int) \<Rightarrow> PricingModel list \<Rightarrow> FilterState \<Rightarrow> PricingModel list" where
  "filteredModels lower lc models st = (if models = [] then [] else filterAndSortModels lower lc models (filtersOf st))"

definition activeFilterCount :: "FilterState \<Rightarrow> nat" where
  "activeFilterCount st =
     (let f = filtersOf st in
      (if pf_vendor f \<noteq> FILTER_ALL then 1 else 0) + (if pf_group f \<noteq> FILTER_ALL then 1 else 0) +
      (if pf_quotaType f \<noteq> js ''all'' then 1 else 0) + (if pf_endpointType f \<noteq> js ''all'' then 1 else 0) +
      (if pf_tag f \<noteq> FILTER_ALL then 1 else 0))"

definition hasActiveFilters :: "FilterState \<Rightarrow> bool" where
  "hasActiveFilters st \<longleftrightarrow>
     (let f = filtersOf st in
      pf_vendor f \<noteq> FILTER_ALL \<or> pf_group f \<noteq> FILTER_ALL \<or> pf_quotaType f \<noteq> js ''all'' \<or>
      pf_endpointType f \<noteq> js ''all'' \<or> pf_tag f \<noteq> FILTER_ALL)"


section \<open>What the list shows\<close>

definition accepts :: "(jstr \<Rightarrow> jstr) \<Rightarrow> PricingFilters \<Rightarrow> PricingModel \<Rightarrow> bool" where
  "accepts lower f m \<longleftrightarrow>
     (pf_search f \<noteq> [] \<longrightarrow>
        (\<exists>t \<in> {Some (pm_model_name m), pm_description m, pm_tags m, pm_vendor_name m}. holdsText lower (lower (pf_search f)) t)) \<and>
     (pf_vendor f \<noteq> js ''all'' \<longrightarrow> pm_vendor_name m = Some (pf_vendor f)) \<and>
     (pf_group f \<noteq> js ''all'' \<longrightarrow> pf_group f \<in> set (pm_enable_groups m)) \<and>
     (pf_quotaType f \<noteq> js ''all'' \<longrightarrow> num_eq (pm_quota_type m) (if pf_quotaType f = js ''token'' then Fin 0 else Fin 1)) \<and>
     (pf_endpointType f \<noteq> js ''all'' \<longrightarrow> (case pm_supported_endpoint_types m of Some es \<Rightarrow> pf_endpointType f \<in> set es | None \<Rightarrow> False)) \<and>
     (pf_tag f \<noteq> js ''all'' \<longrightarrow> (\<exists>t \<in> set (parseTags (pm_tags m)). lower t = lower (pf_tag f)))"

lemma filter_if: "(if b then xs else filter P xs) = filter (\<lambda>x. \<not> b \<longrightarrow> P x) xs"
  by simp

lemma accepts_code:
  "js_includes (lower (pm_model_name m)) q \<or> holdsText lower q (pm_description m) \<or> holdsText lower q (pm_tags m) \<or>
     holdsText lower q (pm_vendor_name m) \<longleftrightarrow>
   (\<exists>t \<in> {Some (pm_model_name m), pm_description m, pm_tags m, pm_vendor_name m}. holdsText lower q t)"
  "lower g \<in> set (map lower ts) \<longleftrightarrow> (\<exists>t \<in> set ts. lower t = lower g)"
  by (simp_all add: holdsText_def image_iff eq_commute)

lemma filters_accept:
  "filterAndSortModels lower lc models f = sortModels lc (filter (accepts lower f) models) (pf_sortBy f)"
  unfolding filterAndSortModels_def Let_def filterBySearch_def filterByVendor_def filterByGroup_def filterByQuotaType_def
    filterByEndpointType_def filterByTag_def filter_if filter_filter accepts_code FILTER_ALL_def
  by (rule arg_cong [where f = "\<lambda>r. sortModels lc r (pf_sortBy f)"], rule filter_cong [OF refl])
    (simp only: accepts_def conj_ac)

lemma mset_sortModels: "mset (sortModels lc models s) = mset models"
  by (simp add: sortModels_def)

text \<open>Prices that are finite numbers are ordered by their exact values.\<close>

definition priced :: "PricingModel \<Rightarrow> bool" where
  "priced m \<longleftrightarrow> is_double (getModelPrice m) \<and> getModelPrice m = Fin (num_val (getModelPrice m))"

definition exact_cmp :: "PricingModel \<Rightarrow> PricingModel \<Rightarrow> int" where
  "exact_cmp a b =
     (let p = num_val (getModelPrice a); q = num_val (getModelPrice b) in if p < q then - 1 else if p = q then 0 else 1)"

interpretation ascending: js_comparator exact_cmp
  by unfold_locales (auto simp: exact_cmp_def Let_def split: if_splits)

interpretation descending: js_comparator "\<lambda>a b. exact_cmp b a"
  by unfold_locales (auto simp: exact_cmp_def Let_def split: if_splits)

lemma price_cmp_exact: "priced a \<Longrightarrow> priced b \<Longrightarrow> price_cmp a b = exact_cmp a b"
  unfolding priced_def price_cmp_def exact_cmp_def Let_def using minus_sign by metis

lemma js_sort_cong:
  "(\<And>a b. a \<in> set xs \<Longrightarrow> b \<in> set xs \<Longrightarrow> cmp a b = cmp' a b) \<Longrightarrow> js_sort cmp xs = js_sort cmp' xs"
proof (induction xs)
  case (Cons x xs)
  have ins: "insert_by cmp x ys = insert_by cmp' x ys" if "set ys \<subseteq> set xs" for ys
    using that Cons.prems by (induction ys) auto
  have "js_sort cmp (x # xs) = insert_by cmp x (js_sort cmp' xs)" using Cons by (simp add: js_sort_def)
  also have "\<dots> = insert_by cmp' x (js_sort cmp' xs)" by (rule ins) simp
  finally show ?case by (simp add: js_sort_def)
qed (simp add: js_sort_def)

lemma price_sorted:
  assumes "\<forall>m \<in> set ms. priced m"
  shows "sorted_wrt (\<lambda>a b. num_val (getModelPrice a) \<le> num_val (getModelPrice b)) (js_sort price_cmp ms)"
    and "sorted_wrt (\<lambda>a b. num_val (getModelPrice b) \<le> num_val (getModelPrice a)) (js_sort (\<lambda>a b. price_cmp b a) ms)"
proof -
  have le: "exact_cmp a b \<le> 0 \<longleftrightarrow> num_val (getModelPrice a) \<le> num_val (getModelPrice b)" for a b
    by (auto simp: exact_cmp_def Let_def)
  have "js_sort price_cmp ms = js_sort exact_cmp ms" "js_sort (\<lambda>a b. price_cmp b a) ms = js_sort (\<lambda>a b. exact_cmp b a) ms"
    using assms by (auto intro!: js_sort_cong price_cmp_exact)
  then show "sorted_wrt (\<lambda>a b. num_val (getModelPrice a) \<le> num_val (getModelPrice b)) (js_sort price_cmp ms)"
    and "sorted_wrt (\<lambda>a b. num_val (getModelPrice b) \<le> num_val (getModelPrice a)) (js_sort (\<lambda>a b. price_cmp b a) ms)"
    using ascending.sorted_js_sort [of ms] descending.sorted_js_sort [of ms] by (simp_all add: le)
qed

text \<open>
  C22. The list shows exactly the models that pass the search and every chosen filter, each as often as it was
  there; sorted by price, finite prices come out ascending or descending by their exact values.
\<close>

theorem pricing_list:
  "mset (filteredModels lower lc models st) = filter_mset (accepts lower (filtersOf st)) (mset models) \<and>
   ((\<forall>m \<in> set models. priced m) \<longrightarrow>
     (fs_sort st = Some (js ''price-low'') \<longrightarrow>
        sorted_wrt (\<lambda>a b. num_val (getModelPrice a) \<le> num_val (getModelPrice b)) (filteredModels lower lc models st)) \<and>
     (fs_sort st = Some (js ''price-high'') \<longrightarrow>
        sorted_wrt (\<lambda>a b. num_val (getModelPrice b) \<le> num_val (getModelPrice a)) (filteredModels lower lc models st)))"
proof -
  have "filteredModels lower lc models st = sortModels lc (filter (accepts lower (filtersOf st)) models) (pf_sortBy (filtersOf st))"
    by (cases "models = []") (simp_all add: filteredModels_def filters_accept sortModels_def js_sort_def)
  then show ?thesis
    using price_sorted [of "filter (accepts lower (filtersOf st)) models"]
    by (auto simp: mset_sortModels filtersOf_def text_or_def sortModels_def)
qed

text \<open>A browser that lower-cases the basic letters and compares texts by their code units.\<close>

definition ascii_lower :: "jstr \<Rightarrow> jstr" where
  "ascii_lower s = map (\<lambda>c. if 65 \<le> c \<and> c \<le> 90 then c + 32 else c) s"

definition demo_model :: "string \<Rightarrow> rat \<Rightarrow> string \<Rightarrow> PricingModel" where
  "demo_model name ratio tags =
     \<lparr>pm_model_name = js name, pm_description = None, pm_vendor_name = None, pm_quota_type = Fin 0, pm_model_ratio = Fin ratio,
      pm_model_price = None, pm_enable_groups = [], pm_tags = Some (js tags), pm_supported_endpoint_types = None\<rparr>"

definition demo_models :: "PricingModel list" where
  "demo_models = [demo_model ''a'' 3 ''Fast, chat'', demo_model ''b'' 2 ''vision'', demo_model ''c'' 1 ''FAST'']"

definition demo_filter :: FilterState where
  "demo_filter = \<lparr>fs_search = None, fs_sort = Some (js ''price-low''), fs_vendor = None, fs_group = None, fs_quotaType = None,
     fs_endpointType = None, fs_tag = Some (js ''fast''), fs_tokenUnit = None, fs_view = None, fs_rechargePrice = None\<rparr>"

theorem pricing_list_witness:
  "size (mset (filteredModels ascii_lower str_cmp demo_models demo_filter)) = 2 \<and>
   sorted_wrt (\<lambda>a b. num_val (getModelPrice a) \<le> num_val (getModelPrice b)) (filteredModels ascii_lower str_cmp demo_models demo_filter)"
proof -
  have "list_all priced demo_models" by code_simp
  then have p: "\<forall>m \<in> set demo_models. priced m" by (simp add: list_all_iff)
  have s: "fs_sort demo_filter = Some (js ''price-low'')" by (simp only: demo_filter_def FilterState.simps)
  have "length (filter (accepts ascii_lower (filtersOf demo_filter)) demo_models) = 2" by code_simp
  moreover note pricing_list [of ascii_lower str_cmp demo_models demo_filter]
  ultimately show ?thesis using p s by (metis mset_filter size_mset)
qed

section \<open>Tags\<close>

lemma offered_tag:
  "t \<in> set (availableTags lower lc models) \<longleftrightarrow> (\<exists>m \<in> set models. \<exists>u \<in> set (parseTags (pm_tags m)). t = lower u)"
  by (auto simp: availableTags_def extractAllTags_def)

lemma parseTags_nonempty: "u \<in> set (parseTags v) \<Longrightarrow> u \<noteq> []"
  by (auto simp: parseTags_def split: option.splits if_splits)

definition unfiltered :: "FilterState \<Rightarrow> bool" where
  "unfiltered st \<longleftrightarrow> \<not> hasActiveFilters st \<and> pf_search (filtersOf st) = []"

text \<open>
  C23. Every tag the page offers selects something: with nothing else chosen, choosing it shows exactly the models
  that carry it in some capitalisation, and there is at least one, unless the tag is the word that stands for no
  filter.  Lower-casing is taken to be idempotent and to keep texts from becoming empty.
\<close>

theorem offered_tags_select:
  assumes "t \<in> set (availableTags lower lc models)" "t \<noteq> js ''all''" "unfiltered st"
    and lower: "\<And>u. lower (lower u) = lower u" "\<And>u. lower u = [] \<Longrightarrow> u = []"
  shows "mset (filteredModels lower lc models (filterAct (SetTag t) st)) =
      filter_mset (\<lambda>m. t \<in> lower ` set (parseTags (pm_tags m))) (mset models) \<and>
    filteredModels lower lc models (filterAct (SetTag t) st) \<noteq> []"
proof -
  obtain m u where m: "m \<in> set models" "u \<in> set (parseTags (pm_tags m))" "t = lower u"
    using assms(1) by (auto simp: offered_tag)
  have t: "t \<noteq> []" "lower t = t" using m lower parseTags_nonempty by auto
  let ?st = "filterAct (SetTag t) st"
  have "accepts lower (filtersOf ?st) = (\<lambda>m. t \<in> lower ` set (parseTags (pm_tags m)))"
    using assms(2,3) t
    by (auto simp: fun_eq_iff accepts_def unfiltered_def hasActiveFilters_def filtersOf_def text_or_def unless_def
        FILTER_ALL_def Let_def image_iff simp del: js_Cons)
  then have eq: "mset (filteredModels lower lc models ?st) = filter_mset (\<lambda>m. t \<in> lower ` set (parseTags (pm_tags m))) (mset models)"
    by (simp add: filteredModels_def filters_accept mset_sortModels del: filterAct.simps)
  have "m \<in># filter_mset (\<lambda>m. t \<in> lower ` set (parseTags (pm_tags m))) (mset models)" using m by auto
  then show ?thesis using eq by (metis empty_iff set_mset_empty mset.simps(1) empty_not_add_mset multi_member_split)
qed

theorem offered_tags_select_witness:
  "filteredModels ascii_lower str_cmp demo_models (filterAct (SetTag (js ''fast'')) (filterAct ClearFilters demo_filter)) \<noteq> []"
proof -
  have t: "js ''fast'' \<in> set (availableTags ascii_lower str_cmp demo_models)" "js ''fast'' \<noteq> js ''all''"
    and st: "unfiltered (filterAct ClearFilters demo_filter)" by code_simp+
  have l: "ascii_lower (ascii_lower u) = ascii_lower u" "ascii_lower u = [] \<Longrightarrow> u = []" for u
    by (simp_all add: ascii_lower_def)
  from offered_tags_select [OF t st l] show ?thesis by blast
qed

text \<open>A tag called like the word for no filter shows every model.\<close>

lemma tag_all_shows_all:
  "unfiltered st \<Longrightarrow> mset (filteredModels lower lc models (filterAct (SetTag (js ''all'')) st)) = mset models"
  by (simp add: filteredModels_def filters_accept mset_sortModels unfiltered_def hasActiveFilters_def Let_def filtersOf_def
      accepts_def text_or_def unless_def FILTER_ALL_def split: option.splits)

section \<open>Counting and clearing\<close>

lemma active_count: "hasActiveFilters st \<longleftrightarrow> 0 < activeFilterCount st"
  by (auto simp: hasActiveFilters_def activeFilterCount_def Let_def)

lemma clear_filters: "\<not> hasActiveFilters (filterAct ClearFilters st)"
  by (simp add: clearFilters_def hasActiveFilters_def filtersOf_def text_or_def Let_def FILTER_ALL_def)

end
