(* ===== verification/Spec2Isabelle.thy ===== *)
theory Spec2Isabelle
  imports Status_Code_Rules Model_Mapping Redirect_Guard Sidebar Attribution Notifications Table_Url_State
    Playground_Config Playground_Session Billing_Groups Tier_Round Channel_Utils Settings_Form
    Pricing_Filters
begin

text \<open>
  \<^bold>\<open>A verification library for the web frontend of new-api.\<close>

  The program is the administration and user frontend of an AI gateway (\<^verbatim>\<open>src/web/default/src\<close>, TypeScript).
  The development models the parts of it that compute: parsers and printers of the small languages the
  settings are written in, the configurations that are saved and loaded, the guards in front of dangerous
  settings, and the playground, a state machine driven by user actions and server events.  Paths below are
  relative to \<^verbatim>\<open>src/web/default/src\<close>.

  \<^bold>\<open>The language.\<close>

  \<^item> \<^verbatim>\<open>JS_Prelude\<close>: strings as lists of UTF-16 code units, \<^verbatim>\<open>trim\<close>, \<^verbatim>\<open>split\<close>, \<^verbatim>\<open>join\<close>, \<^verbatim>\<open>includes\<close>, decimal
    printing of integers, property lists, and \<^verbatim>\<open>sort\<close> with a comparator.  The locale \<^verbatim>\<open>js_comparator\<close> states
    what a comparator promises and shows that sorting gives an ordered permutation; it is interpreted on the
    code unit order of strings, on the order of status code ranges and on the order of prices.  The locale \<^verbatim>\<open>text_codec\<close> states the contract of
    a printer with its reader; it is interpreted on numbers, JSON values, status code rules, request rules and the
    configurations of the price editor, and the round trips of the components rest on these interpretations.
  \<^item> \<^verbatim>\<open>JS_Number\<close>: binary64 numbers as exact rationals with rounding to nearest even, printing with the
    shortest digits and reading; printing is read back for every finite double.
  \<^item> \<^verbatim>\<open>JS_Arith\<close>: products, quotients, differences and \<^verbatim>\<open>toFixed\<close> on these numbers.
  \<^item> \<^verbatim>\<open>JSON\<close>: \<^verbatim>\<open>JSON.parse\<close> and \<^verbatim>\<open>JSON.stringify\<close> with the order of integer keys; well-formed values are
    read back.
  \<^item> \<^verbatim>\<open>JS_Regex\<close> and \<^verbatim>\<open>JS_Match\<close>: backtracking regular expressions as lists of successes.  An iteration of a
    starred pattern has to consume something, so the length of the text is enough fuel for it; the second
    theory has the rules to find the first match of a pattern and the matches of a global search.

  \<^bold>\<open>The components.\<close>

  \<^item> \<^verbatim>\<open>Status_Code_Rules\<close> (\<^verbatim>\<open>lib/http-status-code-rules.ts\<close>): the reader of lists of status codes and ranges, the
    merging of ranges and the normal form.  An accepted text denotes exactly the codes of its segments, texts
    with the same meaning have the same normal form, the normal form is read back, and exactly the segments that
    denote no code are refused.
  \<^item> \<^verbatim>\<open>Playground_Messages\<close> (\<^verbatim>\<open>features/playground/lib/message-utils.ts\<close>, \<^verbatim>\<open>payload-builder.ts\<close>, \<^verbatim>\<open>types.ts\<close>): messages,
    the parser of think tags, streaming updates, sanitising of a stored conversation, the request payload.  The
    parser separates text and reasoning, and the result of streaming does not depend on the chunks.
  \<^item> \<^verbatim>\<open>Playground_Session\<close> (\<^verbatim>\<open>hooks/use-stream-request.ts\<close>, \<^verbatim>\<open>use-chat-handler.ts\<close>, \<^verbatim>\<open>use-playground-state.ts\<close>,
    \<^verbatim>\<open>components/playground-input.tsx\<close>, \<^verbatim>\<open>index.tsx\<close>): one record for the state of a session, one function per handler, \<open>act\<close> for what an action or
    event does and the inductive relation \<open>reachable\<close>.  By rule induction over it, one source is open exactly
    while one reply is pending, and loading the page again settles that reply.  The relation leaves out what the page
    does not guard (an edit submitted or a suggestion clicked while a reply is generated), and two theorems show what
    happens then; message keys are unique with these actions as well.
  \<^item> \<^verbatim>\<open>Playground_Config\<close>: the settings of the playground, their storage and the effects of loaded lists; they survive a
    reload, whatever the storage held before.
  \<^item> \<^verbatim>\<open>Header_Nav\<close> and \<^verbatim>\<open>Sidebar\<close> (\<^verbatim>\<open>features/system-settings/maintenance/config.ts\<close>, \<^verbatim>\<open>hooks/use-top-nav-links.ts\<close>,
    \<^verbatim>\<open>hooks/use-sidebar-config.ts\<close>): configurations from any stored text, which links are accepted and what
    is shown, and the agreement of the settings page and the user's own setting with the sidebar.
  \<^item> \<^verbatim>\<open>Model_Mapping\<close> and \<^verbatim>\<open>Redirect_Guard\<close> (\<^verbatim>\<open>features/channels/lib\<close>): the checks of a channel's model mapping and
    status code mapping; what is reported is exactly what the contract says.
  \<^item> \<^verbatim>\<open>Channel_Form\<close> (\<^verbatim>\<open>features/channels/lib/channel-form.ts\<close>, \<^verbatim>\<open>types.ts\<close>): channels, the values of the form, the two
    settings texts and the payloads.  Settings survive saving and loading whatever else the stored text holds,
    and saving an unchanged channel sends it back as it was.
  \<^item> \<^verbatim>\<open>Channel_Utils\<close> (\<^verbatim>\<open>features/channels/lib/channel-utils.ts\<close>, \<^verbatim>\<open>constants.ts\<close>): the tables of channel types, masked
    keys, attention marks, the rows of the tag mode and the deduplication of keys.  A row of the tag mode is the
    fold over exactly the channels of its tag; every channel type but Unknown is offered once.
  \<^item> \<^verbatim>\<open>Settings_Form\<close> (\<^verbatim>\<open>features/system-settings/hooks/use-settings-form.ts\<close>): dotted options as nested values, the
    marks of changed fields as options, and the hook as a state with its handlers.  The locale
    \<^verbatim>\<open>value_comparison\<close> states what the hook needs of the comparison it may be given and holds the lemmas about
    submitting; it is interpreted on the comparison of the code.  The relation \<open>form_reach\<close> runs the hook
    through edits, submissions that return or raise at any later time, resets and new defaults: what is handed to the
    page on submission is exactly what differs from the saved values.
  \<^item> \<^verbatim>\<open>Attribution\<close> (\<^verbatim>\<open>lib/first-touch-attribution.ts\<close>): the first visit is recorded and never overwritten, and
    a stored text that is no attribution is left alone.
  \<^item> \<^verbatim>\<open>Notifications\<close> (\<^verbatim>\<open>hooks/use-notifications.ts\<close>, \<^verbatim>\<open>stores/notification-store.ts\<close>): keys with their 32-bit hash,
    unread counts, the store.
  \<^item> \<^verbatim>\<open>Table_Url_State\<close> (\<^verbatim>\<open>hooks/use-table-url-state.ts\<close>): pages and filters kept in the address; the router is a
    parameter, and filters that can be written are read back from the address.
  \<^item> \<^verbatim>\<open>Billing_Expr\<close>, \<^verbatim>\<open>Billing_Rules\<close>, \<^verbatim>\<open>Billing_Groups\<close> (\<^verbatim>\<open>features/pricing/lib/billing-expr.ts\<close>): request rules.  The
    first theory has the definitions; the second shows that every condition is read back from its text, the third
    that the splitters cut a joined text at its separators only, so that rules and combined expressions are
    read back, and that stripping parentheses gives the core of an expression.
  \<^item> \<^verbatim>\<open>Pricing_Filters\<close> (\<^verbatim>\<open>features/pricing/lib/filters.ts\<close>, \<^verbatim>\<open>hooks/use-filters.ts\<close>): search, filters, tags and sorting of
    the models.  The list holds exactly the accepted models; the comparator by difference orders finite prices
    exactly, because the difference of two doubles never rounds to zero.
  \<^item> \<^verbatim>\<open>Tier_Expr\<close>, \<^verbatim>\<open>Tier_Rules\<close>, \<^verbatim>\<open>Tier_Round\<close> (\<^verbatim>\<open>billing-expr.ts\<close>, \<^verbatim>\<open>tier-expr.ts\<close>): tiered prices.  The text
    generated by the visual editor is read back by the editor and by the reader of the price breakdown, up to what
    the printer fills in and leaves out (\<open>content\<close>).

  \<^bold>\<open>How the code is rendered.\<close>
  Objects are records or, where the keys are dynamic, property lists; null and undefined are \<open>None\<close>
  where the code treats them alike; an exception is a constructor of the result type (\<open>Raised\<close>, \<open>Inl\<close>).
  Loops are structural recursion or have a measure; there is no fuel in the components.  Code the frontend
  only calls is a parameter: \<^verbatim>\<open>nanoid\<close>, the event source, the URL parser, the translations, the evaluation of a
  text by \<^verbatim>\<open>new Function\<close>, the router, the submission handlers of the settings pages.  Claims that rely on such code state what they rely on, for instance that
  \<^verbatim>\<open>nanoid\<close> never repeats itself.

  \<^bold>\<open>Not modelled.\<close>
  The React components (\<^verbatim>\<open>.tsx\<close>) other than the handlers named above, routing and the generated route tree,
  styles, translations and static tables: they render or hold data.  The clients of the server (\<^verbatim>\<open>api.ts\<close> files)
  and the query hooks only transport.  Charts, money and date formatting rest on \<^verbatim>\<open>Intl\<close>, dayjs and VChart.  The
  features for authentication, the wallet, users, keys, models, usage logs and the dashboard are forms, tables and
  sequences of requests around the server.  The classic frontend (\<^verbatim>\<open>src/web/classic\<close>), the Electron shell and the Go server are other programs.
\<close>

end
